(* ===== verification/Prelude.thy ===== *)
theory Prelude
  imports Main "HOL-Library.Word" "HOL-Library.Monad_Syntax" "HOL-Library.Multiset"
begin

text \<open>
  Shared vocabulary of the development.

  Every C function of the kernel is a HOL function into \<open>option\<close>: \<open>None\<close> is undefined
  behaviour of the C code (a \<open>NULL\<close> or wild pointer is dereferenced, an array is indexed
  out of its bounds) or a traversal that never ends; \<open>Some\<close> carries the value the C code
  returns and the state it leaves. A \<open>NULL\<close>, \<open>TRUE\<close> or \<open>-1\<close> that the code returns to
  signal an error is an ordinary value. The \<open>do\<close> blocks are those of the option monad, with
  the state passed explicitly.

  The theory holds the machine integer types and the lemmas on words, options, lists and multisets
  that the component theories share.
\<close>

unbundle bit_operations_syntax

section \<open>Machine integers\<close>

type_synonym u8 = "8 word"
type_synonym u32 = "32 word"
type_synonym s32 = "32 word" \<comment> \<open>\<open>int\<close>, read with \<open>sint\<close>\<close>
type_synonym u64 = "64 word"

text \<open>The low word of a 64-bit sum.\<close>

lemma ucast_diff_down: "(ucast (x - y :: u64) :: u32) = ucast x - ucast y"
proof (transfer)
  fix x y :: int
  have "take_bit 32 (take_bit 64 x - take_bit 64 y) = take_bit 32 (take_bit 32 (take_bit 64 x) - take_bit 32 (take_bit 64 y))"
    by (rule take_bit_diff [symmetric])
  also have "\<dots> = take_bit 32 (x - y)" by (simp add: take_bit_diff)
  finally show "take_bit LENGTH(32) (take_bit LENGTH(64) (x - y)) = take_bit LENGTH(32) (take_bit LENGTH(64) x - take_bit LENGTH(64) y)"
    by simp
qed

lemma ucast_add_down: "(ucast (x + y :: u64) :: u32) = ucast x + ucast y"
proof (transfer)
  fix x y :: int
  have "take_bit 32 (take_bit 64 x + take_bit 64 y) = take_bit 32 (take_bit 32 (take_bit 64 x) + take_bit 32 (take_bit 64 y))"
    by (rule take_bit_add [symmetric])
  also have "\<dots> = take_bit 32 (x + y)" by (simp add: take_bit_add)
  finally show "take_bit LENGTH(32) (take_bit LENGTH(64) (x + y)) = take_bit LENGTH(32) (take_bit LENGTH(64) x + take_bit LENGTH(64) y)"
    by simp
qed

lemma ucast_up_down: "(ucast (ucast (x :: u32) :: u64) :: u32) = x"
  by transfer simp

section \<open>Options\<close>

lemma bind_eq_Some: "Option.bind m f = Some y \<longleftrightarrow> (\<exists>x. m = Some x \<and> f x = Some y)"
  by (cases m) auto

lemma if_Some_eq [simp]: "(if b then Some x else None) = Some y \<longleftrightarrow> b \<and> x = y"
  by auto

text \<open>A \<open>for\<close> loop over a list of indices, stopping where the body faults.\<close>

fun for_each :: "'a list \<Rightarrow> ('a \<Rightarrow> 's \<Rightarrow> 's option) \<Rightarrow> 's \<Rightarrow> 's option" where
  "for_each [] body s = Some s"
| "for_each (i # is) body s = do { s \<leftarrow> body i s; for_each is body s }"

lemma for_each_append: "for_each (xs @ ys) body s = do { s \<leftarrow> for_each xs body s; for_each ys body s }"
  by (induction xs arbitrary: s) (auto split: bind_splits)

lemma for_each_single [simp]: "for_each [x] body s = body x s"
  by (cases "body x s") auto

section \<open>Lists\<close>

lemma find_map: "find P (map f xs) = map_option f (find (P \<circ> f) xs)"
  by (induction xs) auto

lemma find_dropWhile:
  "find P xs = (case dropWhile (\<lambda>x. \<not> P x) xs of [] \<Rightarrow> None | x # _ \<Rightarrow> Some x)"
  by (induction xs) auto

lemma find_eq_elem: "find (\<lambda>x. x = a) xs = (if a \<in> set xs then Some a else None)"
  by (induction xs) auto

lemma distinct_map_inj: "inj f \<Longrightarrow> distinct (map f xs) \<longleftrightarrow> distinct xs"
  by (simp add: distinct_map inj_on_subset [OF _ subset_UNIV])

lemma hd_append_last: "hd (xs @ [y]) = (if xs = [] then y else hd xs)"
  by simp

lemma last_Cons_append: "last (x # ys) = (if ys = [] then x else last ys)"
  by simp

lemma butlast_Cons_snoc [simp]: "butlast (x # ys @ [z]) = x # ys"
  by (metis append_Cons butlast_snoc)

lemma sorted_wrt_insert:
  assumes "sorted_wrt R (xs @ zs)" and "\<forall>x\<in>set xs. R x y" and "\<forall>z\<in>set zs. R y z"
  shows "sorted_wrt R (xs @ y # zs)"
  using assms by (auto simp: sorted_wrt_append)

lemma filter_id_conv': "(\<forall>x\<in>set xs. P x) \<Longrightarrow> filter P xs = xs"
  by simp

lemma filter_neq_split:
  "distinct (xs @ p # ys) \<Longrightarrow> filter (\<lambda>q. q \<noteq> p) (xs @ p # ys) = xs @ ys"
  by (auto intro!: arg_cong2 [where f = append] filter_True)

lemma remove1_filter_distinct: "distinct xs \<Longrightarrow> remove1 x xs = filter (\<lambda>y. y \<noteq> x) xs"
  by (induction xs) (auto simp: filter_id_conv intro!: filter_True [symmetric])

lemma distinct_mset_upt: "mset xs = mset [0..<n] \<Longrightarrow> distinct xs \<and> set xs = {0..<n}"
  by (metis distinct_upt mset_eq_imp_distinct_iff set_mset_mset set_upt)

lemma card_Un4:
  assumes "finite A" "finite B" "finite C" "finite D"
    and "A \<inter> B = {}" "A \<inter> C = {}" "A \<inter> D = {}" "B \<inter> C = {}" "B \<inter> D = {}" "C \<inter> D = {}"
  shows "card (A \<union> B \<union> C \<union> D) = card A + card B + card C + card D"
  using assms by (simp add: card_Un_disjoint Int_Un_distrib2)

end
