(* ===== verification/ListX.thy ===== *)
theory ListX
  imports Prelude
begin

text \<open>
  \<open>include/listx.h\<close>: the intrusive, circular, doubly linked lists of the kernel.

  A \<open>struct list_head\<close> is a cell, and a \<open>struct list_head *\<close> names the cell it points to:
  one of the static list heads, or the \<open>p_next\<close>, \<open>p_child\<close>, \<open>p_sib\<close> member of an entry
  of \<open>pcbTable\<close>, or the \<open>s_next\<close>, \<open>s_procQ\<close> member of an entry of \<open>semdTable\<close>. So
  \<open>&p->p_next\<close> and \<open>container_of\<close> are the constructor and its inverse. A cell outside the
  tables, and \<open>NULL\<close>, is not valid and every access to it is \<open>None\<close>.

  The abstraction is the relation \<open>is_list h head xs\<close>: in the cells \<open>h\<close> the list headed by
  \<open>head\<close> holds the cells \<open>xs\<close>, forwards along \<open>next\<close> and backwards along \<open>prev\<close>.
\<close>

definition MAXPROC :: nat where
  "MAXPROC = 20"

section \<open>Cells\<close>

datatype node =
    NodeNull
  | PcbFree | SemdFree | Asl | ReadyQueue
  | P_next nat | P_child nat | P_sib nat
  | S_next nat | S_procQ nat

record list_head =
  lnext :: node
  lprev :: node

type_synonym cells = "node \<Rightarrow> list_head"

fun valid_node :: "node \<Rightarrow> bool" where
  "valid_node NodeNull = False"
| "valid_node (P_next i) = (i < MAXPROC)"
| "valid_node (P_child i) = (i < MAXPROC)"
| "valid_node (P_sib i) = (i < MAXPROC)"
| "valid_node (S_next i) = (i < MAXPROC)"
| "valid_node (S_procQ i) = (i < MAXPROC)"
| "valid_node _ = True"

definition get_next :: "node \<Rightarrow> cells \<Rightarrow> node option" where
  "get_next n h = (if valid_node n then Some (lnext (h n)) else None)"

definition get_prev :: "node \<Rightarrow> cells \<Rightarrow> node option" where
  "get_prev n h = (if valid_node n then Some (lprev (h n)) else None)"

definition set_next :: "node \<Rightarrow> node \<Rightarrow> cells \<Rightarrow> cells option" where
  "set_next n v h = (if valid_node n then Some (h(n := (h n)\<lparr>lnext := v\<rparr>)) else None)"

definition set_prev :: "node \<Rightarrow> node \<Rightarrow> cells \<Rightarrow> cells option" where
  "set_prev n v h = (if valid_node n then Some (h(n := (h n)\<lparr>lprev := v\<rparr>)) else None)"

section \<open>Operations\<close>

definition LIST_HEAD_INIT :: "node \<Rightarrow> list_head" where
  "LIST_HEAD_INIT name = \<lparr>lnext = name, lprev = name\<rparr>"

definition INIT_LIST_HEAD :: "node \<Rightarrow> cells \<Rightarrow> cells option" where
  "INIT_LIST_HEAD l h = do {
     h \<leftarrow> set_next l l h;
     set_prev l l h }"

definition list_add_between :: "node \<Rightarrow> node \<Rightarrow> node \<Rightarrow> cells \<Rightarrow> cells option" where
  "list_add_between new prv nxt h = do {
     h \<leftarrow> set_prev nxt new h;
     h \<leftarrow> set_next new nxt h;
     h \<leftarrow> set_prev new prv h;
     set_next prv new h }"

definition list_add :: "node \<Rightarrow> node \<Rightarrow> cells \<Rightarrow> cells option" where
  "list_add new head h = do {
     nxt \<leftarrow> get_next head h;
     list_add_between new head nxt h }"

definition list_add_tail :: "node \<Rightarrow> node \<Rightarrow> cells \<Rightarrow> cells option" where
  "list_add_tail new head h = do {
     prv \<leftarrow> get_prev head h;
     list_add_between new prv head h }"

definition list_del_between :: "node \<Rightarrow> node \<Rightarrow> cells \<Rightarrow> cells option" where
  "list_del_between prv nxt h = do {
     h \<leftarrow> set_prev nxt prv h;
     set_next prv nxt h }"

definition list_del :: "node \<Rightarrow> cells \<Rightarrow> cells option" where
  "list_del entry h = do {
     prv \<leftarrow> get_prev entry h;
     nxt \<leftarrow> get_next entry h;
     list_del_between prv nxt h }"

definition list_is_last :: "node \<Rightarrow> node \<Rightarrow> cells \<Rightarrow> bool option" where
  "list_is_last l head h = do {
     nxt \<leftarrow> get_next l h;
     Some (nxt = head) }"

definition list_empty :: "node \<Rightarrow> cells \<Rightarrow> bool option" where
  "list_empty head h = do {
     nxt \<leftarrow> get_next head h;
     Some (nxt = head) }"

definition list_next :: "node \<Rightarrow> cells \<Rightarrow> node option" where
  "list_next cur h = do {
     e \<leftarrow> list_empty cur h;
     if e then Some NodeNull else get_next cur h }"

definition list_prev :: "node \<Rightarrow> cells \<Rightarrow> node option" where
  "list_prev cur h = do {
     e \<leftarrow> list_empty cur h;
     if e then Some NodeNull else get_prev cur h }"

text \<open>
  The traversals. \<open>fuel\<close> bounds the number of visits: a traversal that does not write to the
  list and comes to a cell a second time never ends, and there are \<open>5 * MAXPROC + 4\<close> valid
  cells, so \<open>LOOP_FUEL\<close> visits without reaching the head mean that the C loop does not end.
  \<open>list_search\<close> is the shape of all the searching loops of the kernel: the body tests the
  element and leaves the loop at the first one that passes, and the result is that cell, or
  \<open>NULL\<close> when the loop runs to its end.
\<close>

definition LOOP_FUEL :: nat where
  "LOOP_FUEL = 105"

fun list_search :: "nat \<Rightarrow> (node \<Rightarrow> bool option) \<Rightarrow> node \<Rightarrow> node \<Rightarrow> cells \<Rightarrow> node option" where
  "list_search 0 P pos head h = None"
| "list_search (Suc fuel) P pos head h =
     (if pos = head then Some NodeNull
      else do {
        b \<leftarrow> P pos;
        if b then Some pos
        else do {
          nxt \<leftarrow> get_next pos h;
          list_search fuel P nxt head h } })"

definition list_find :: "(node \<Rightarrow> bool option) \<Rightarrow> node \<Rightarrow> cells \<Rightarrow> node option" where
  "list_find P head h = do {
     first \<leftarrow> get_next head h;
     list_search LOOP_FUEL P first head h }"

text \<open>The cells that \<open>list_for_each\<close> and \<open>list_for_each_prev\<close> visit, in order.\<close>

fun walk_next :: "nat \<Rightarrow> node \<Rightarrow> node \<Rightarrow> cells \<Rightarrow> node list option" where
  "walk_next 0 pos head h = None"
| "walk_next (Suc fuel) pos head h =
     (if pos = head then Some []
      else do {
        nxt \<leftarrow> get_next pos h;
        ns \<leftarrow> walk_next fuel nxt head h;
        Some (pos # ns) })"

fun walk_prev :: "nat \<Rightarrow> node \<Rightarrow> node \<Rightarrow> cells \<Rightarrow> node list option" where
  "walk_prev 0 pos head h = None"
| "walk_prev (Suc fuel) pos head h =
     (if pos = head then Some []
      else do {
        prv \<leftarrow> get_prev pos h;
        ns \<leftarrow> walk_prev fuel prv head h;
        Some (pos # ns) })"

definition list_for_each :: "node \<Rightarrow> cells \<Rightarrow> node list option" where
  "list_for_each head h = do {
     first \<leftarrow> get_next head h;
     walk_next LOOP_FUEL first head h }"

definition list_for_each_prev :: "node \<Rightarrow> cells \<Rightarrow> node list option" where
  "list_for_each_prev head h = do {
     first \<leftarrow> get_prev head h;
     walk_prev LOOP_FUEL first head h }"

section \<open>Abstraction to lists\<close>

fun links :: "cells \<Rightarrow> node list \<Rightarrow> bool" where
  "links h (a # b # ns) \<longleftrightarrow> lnext (h a) = b \<and> lprev (h b) = a \<and> links h (b # ns)"
| "links h _ \<longleftrightarrow> True"

definition is_list :: "cells \<Rightarrow> node \<Rightarrow> node list \<Rightarrow> bool" where
  "is_list h head xs \<longleftrightarrow>
     links h (head # xs @ [head]) \<and> distinct (head # xs) \<and> list_all valid_node (head # xs)"

lemma links_append:
  "as \<noteq> [] \<Longrightarrow> bs \<noteq> [] \<Longrightarrow>
   links h (as @ bs) \<longleftrightarrow>
     links h as \<and> lnext (h (last as)) = hd bs \<and> lprev (h (hd bs)) = last as \<and> links h bs"
  by (induction h as rule: links.induct) (auto simp: neq_Nil_conv)

lemma links_cong:
  assumes "\<forall>n\<in>set (butlast ns). lnext (h' n) = lnext (h n)"
    and "\<forall>n\<in>set (tl ns). lprev (h' n) = lprev (h n)"
  shows "links h' ns = links h ns"
  using assms by (induction h ns rule: links.induct) auto

lemma is_list_frame:
  assumes "is_list h head xs" and "\<forall>n\<in>set (head # xs). h' n = h n"
  shows "is_list h' head xs"
proof -
  have "links h' (head # xs @ [head]) = links h (head # xs @ [head])"
    using assms(2) by (intro links_cong) auto
  with assms(1) show ?thesis by (simp add: is_list_def)
qed

lemma is_list_frameN:
  "is_list h head xs \<Longrightarrow> \<forall>n. n \<notin> N \<longrightarrow> h' n = h n \<Longrightarrow> set (head # xs) \<inter> N = {} \<Longrightarrow> is_list h' head xs"
  by (rule is_list_frame) auto

lemma is_listD:
  assumes "is_list h head xs"
  shows "distinct xs" "head \<notin> set xs" "valid_node head" "\<And>n. n \<in> set xs \<Longrightarrow> valid_node n"
  using assms by (auto simp: is_list_def list_all_iff)

lemma is_list_first: "is_list h head xs \<Longrightarrow> lnext (h head) = hd (xs @ [head])"
  by (cases xs) (auto simp: is_list_def)

lemma is_list_last: "is_list h head xs \<Longrightarrow> lprev (h head) = last (head # xs)"
  using links_append [of "head # xs" "[head]" h] by (auto simp: is_list_def)

lemma is_list_at:
  assumes "is_list h head (ys @ x # zs)"
  shows "lnext (h x) = hd (zs @ [head])" "lprev (h x) = last (head # ys)"
proof -
  have "links h ((head # ys) @ (x # zs @ [head]))"
    using assms by (simp add: is_list_def)
  then have "lprev (h x) = last (head # ys)" and "links h ([x] @ (zs @ [head]))"
    by (subst (asm) links_append; simp)+
  then show "lnext (h x) = hd (zs @ [head])" "lprev (h x) = last (head # ys)"
    using links_append [of "[x]" "zs @ [head]" h] by simp_all
qed

lemma is_list_determines:
  "is_list h head xs \<Longrightarrow> is_list h head ys \<Longrightarrow> xs = ys"
proof -
  have gen: "links h (n # xs @ [head]) \<Longrightarrow> links h (n # ys @ [head]) \<Longrightarrow>
     head \<notin> set xs \<Longrightarrow> head \<notin> set ys \<Longrightarrow> xs = ys" for n
  proof (induction xs arbitrary: n ys)
    case Nil
    then show ?case by (cases ys) auto
  next
    case (Cons x xs)
    then show ?case by (cases ys) auto
  qed
  show "is_list h head xs \<Longrightarrow> is_list h head ys \<Longrightarrow> xs = ys"
    by (rule gen) (auto simp: is_list_def)
qed

section \<open>The operations on the abstraction\<close>

lemma list_add_between_cells:
  assumes "valid_node new" "valid_node prv" "valid_node nxt" "new \<noteq> prv" "new \<noteq> nxt"
  shows "\<exists>h'. list_add_between new prv nxt h = Some h' \<and>
    lnext (h' new) = nxt \<and> lprev (h' new) = prv \<and> lnext (h' prv) = new \<and> lprev (h' nxt) = new \<and>
    (\<forall>n. n \<noteq> new \<longrightarrow> n \<noteq> prv \<longrightarrow> lnext (h' n) = lnext (h n)) \<and>
    (\<forall>n. n \<noteq> new \<longrightarrow> n \<noteq> nxt \<longrightarrow> lprev (h' n) = lprev (h n)) \<and>
    (\<forall>n. n \<noteq> new \<longrightarrow> n \<noteq> prv \<longrightarrow> n \<noteq> nxt \<longrightarrow> h' n = h n)"
  using assms by (auto simp: list_add_between_def set_next_def set_prev_def)

lemma list_del_between_cells:
  assumes "valid_node prv" "valid_node nxt"
  shows "\<exists>h'. list_del_between prv nxt h = Some h' \<and>
    lnext (h' prv) = nxt \<and> lprev (h' nxt) = prv \<and>
    (\<forall>n. n \<noteq> prv \<longrightarrow> lnext (h' n) = lnext (h n)) \<and>
    (\<forall>n. n \<noteq> nxt \<longrightarrow> lprev (h' n) = lprev (h n)) \<and>
    (\<forall>n. n \<noteq> prv \<longrightarrow> n \<noteq> nxt \<longrightarrow> h' n = h n)"
  using assms by (auto simp: list_del_between_def set_next_def set_prev_def)

lemma is_list_split_cells:
  assumes "is_list h head (ys @ zs)"
  shows "valid_node (last (head # ys))" "valid_node (hd (zs @ [head]))"
    "last (head # ys) \<in> set (head # ys)" "hd (zs @ [head]) \<in> set (head # zs)"
  using assms by (cases ys rule: rev_cases; cases zs; auto simp: is_list_def list_all_iff)+

lemma is_list_insert:
  assumes l: "is_list h head (ys @ zs)" and v: "valid_node x" and f: "x \<notin> set (head # ys @ zs)"
  shows "\<exists>h'. list_add_between x (last (head # ys)) (hd (zs @ [head])) h = Some h' \<and>
    is_list h' head (ys @ x # zs) \<and> (\<forall>n. n \<notin> set (x # head # ys @ zs) \<longrightarrow> h' n = h n)"
proof -
  let ?p = "last (head # ys)" and ?q = "hd (zs @ [head])"
  note c = is_list_split_cells [OF l]
  have ne: "x \<noteq> ?p" "x \<noteq> ?q" using c(3,4) f by auto
  obtain h' where h': "list_add_between x ?p ?q h = Some h'"
    and new: "lnext (h' x) = ?q" "lprev (h' x) = ?p" "lnext (h' ?p) = x" "lprev (h' ?q) = x"
    and nx: "\<And>n. n \<noteq> x \<Longrightarrow> n \<noteq> ?p \<Longrightarrow> lnext (h' n) = lnext (h n)"
    and pv: "\<And>n. n \<noteq> x \<Longrightarrow> n \<noteq> ?q \<Longrightarrow> lprev (h' n) = lprev (h n)"
    and fr: "\<And>n. n \<noteq> x \<Longrightarrow> n \<noteq> ?p \<Longrightarrow> n \<noteq> ?q \<Longrightarrow> h' n = h n"
    using list_add_between_cells [OF v c(1,2) ne, of h] by blast
  have d: "distinct (head # ys @ zs)" using l by (simp add: is_list_def)
  have lk: "links h (head # ys)" "links h (zs @ [head])"
    using l links_append [of "head # ys" "zs @ [head]" h] by (auto simp: is_list_def)
  have "links h' (head # ys) = links h (head # ys)"
  proof (rule links_cong)
    show "\<forall>n\<in>set (butlast (head # ys)). lnext (h' n) = lnext (h n)"
    proof
      fix n assume n: "n \<in> set (butlast (head # ys))"
      then have "n \<noteq> ?p" using d
        by (metis append_butlast_last_id append_Cons distinct_append distinct_butlast
            list.distinct(1) not_distinct_conv_prefix)
      then show "lnext (h' n) = lnext (h n)" using n f nx by (metis in_set_butlastD UnCI set_append append_Cons)
    qed
    show "\<forall>n\<in>set (tl (head # ys)). lprev (h' n) = lprev (h n)"
      using d f c(4) by (auto intro!: pv)
  qed
  moreover have "links h' (zs @ [head]) = links h (zs @ [head])"
  proof (rule links_cong)
    show "\<forall>n\<in>set (butlast (zs @ [head])). lnext (h' n) = lnext (h n)"
      using d f c(3) by (auto intro!: nx)
    show "\<forall>n\<in>set (tl (zs @ [head])). lprev (h' n) = lprev (h n)"
      using d f by (cases zs) (auto intro!: pv)
  qed
  ultimately have "links h' ((head # ys) @ x # zs @ [head])"
    using lk new by (subst links_append; simp add: links_append [of "[x]", simplified])
  then have "is_list h' head (ys @ x # zs)"
    using l v f by (auto simp: is_list_def)
  then show ?thesis using h' fr c(3,4) by (auto simp del: last.simps)
qed

lemma list_add_head:
  assumes l: "is_list h head xs" and v: "valid_node x" and f: "x \<notin> set (head # xs)"
  shows "\<exists>h'. list_add x head h = Some h' \<and> is_list h' head (x # xs) \<and>
    (\<forall>n. n \<notin> set (x # head # xs) \<longrightarrow> h' n = h n)"
  using is_list_insert [of h head "[]" xs x] assms is_list_first [OF l] is_listD(3) [OF l]
  by (simp add: list_add_def get_next_def)

lemma list_add_before:
  assumes l: "is_list h head (ys @ zs)" and v: "valid_node x" and f: "x \<notin> set (head # ys @ zs)"
  shows "\<exists>h'. list_add_tail x (hd (zs @ [head])) h = Some h' \<and> is_list h' head (ys @ x # zs) \<and>
    (\<forall>n. n \<notin> set (x # head # ys @ zs) \<longrightarrow> h' n = h n)"
proof -
  have "lprev (h (hd (zs @ [head]))) = last (head # ys)"
    using l is_list_last [OF l] is_list_at(2) [of h head ys "hd zs" "tl zs"] by (cases zs) auto
  then show ?thesis
    using is_list_insert [OF l v f] is_list_split_cells(2) [OF l]
    by (simp add: list_add_tail_def get_prev_def)
qed

lemma list_add_tail_end:
  assumes "is_list h head xs" and "valid_node x" and "x \<notin> set (head # xs)"
  shows "\<exists>h'. list_add_tail x head h = Some h' \<and> is_list h' head (xs @ [x]) \<and>
    (\<forall>n. n \<notin> set (x # head # xs) \<longrightarrow> h' n = h n)"
  using list_add_before [of h head xs "[]" x] assms by simp

lemma list_del_is_list:
  assumes l: "is_list h head (ys @ x # zs)"
  shows "\<exists>h'. list_del x h = Some h' \<and> is_list h' head (ys @ zs) \<and> h' x = h x \<and>
    (\<forall>n. n \<notin> set (head # ys @ zs) \<longrightarrow> h' n = h n)"
proof -
  let ?p = "last (head # ys)" and ?q = "hd (zs @ [head])"
  have vx: "valid_node x" and d: "distinct (head # ys @ x # zs)"
    using l by (auto simp: is_list_def)
  have c: "valid_node ?p" "valid_node ?q" "?p \<in> set (head # ys)" "?q \<in> set (head # zs)"
    using l by (cases ys rule: rev_cases; cases zs; auto simp: is_list_def list_all_iff)+
  obtain h' where h': "list_del_between ?p ?q h = Some h'"
    and new: "lnext (h' ?p) = ?q" "lprev (h' ?q) = ?p"
    and nx: "\<And>n. n \<noteq> ?p \<Longrightarrow> lnext (h' n) = lnext (h n)"
    and pv: "\<And>n. n \<noteq> ?q \<Longrightarrow> lprev (h' n) = lprev (h n)"
    and fr: "\<And>n. n \<noteq> ?p \<Longrightarrow> n \<noteq> ?q \<Longrightarrow> h' n = h n"
    using list_del_between_cells [OF c(1,2), of h] by blast
  have "links h ((head # ys) @ [x] @ (zs @ [head]))"
    using l by (simp add: is_list_def)
  then have lk: "links h (head # ys)" "links h (zs @ [head])"
    by (subst (asm) links_append; simp; subst (asm) links_append [of "[x]", simplified]; simp)+
  have "links h' (head # ys) = links h (head # ys)"
  proof (rule links_cong)
    show "\<forall>n\<in>set (butlast (head # ys)). lnext (h' n) = lnext (h n)"
      using d by (cases ys rule: rev_cases) (auto intro!: nx simp: butlast_append)
    show "\<forall>n\<in>set (tl (head # ys)). lprev (h' n) = lprev (h n)"
      using d c(4) by (auto intro!: pv)
  qed
  moreover have "links h' (zs @ [head]) = links h (zs @ [head])"
  proof (rule links_cong)
    show "\<forall>n\<in>set (butlast (zs @ [head])). lnext (h' n) = lnext (h n)"
      using d c(3) by (auto intro!: nx)
    show "\<forall>n\<in>set (tl (zs @ [head])). lprev (h' n) = lprev (h n)"
      using d by (cases zs) (auto intro!: pv)
  qed
  ultimately have "links h' ((head # ys) @ (zs @ [head]))"
    using lk new by (subst links_append; simp)
  then have "is_list h' head (ys @ zs)"
    using l by (auto simp: is_list_def)
  moreover have "h' x = h x" by (rule fr) (use d c(3,4) in \<open>auto simp del: last.simps\<close>)
  moreover have "list_del x h = Some h'"
    using h' vx is_list_at [OF l] by (simp add: list_del_def get_prev_def get_next_def)
  moreover have "\<forall>n. n \<notin> set (head # ys @ zs) \<longrightarrow> h' n = h n"
    by (intro allI impI fr) (use c(3,4) in \<open>auto simp del: last.simps\<close>)
  ultimately show ?thesis by blast
qed

lemma INIT_LIST_HEAD_is_list:
  assumes "valid_node l"
  shows "\<exists>h'. INIT_LIST_HEAD l h = Some h' \<and> is_list h' l [] \<and> (\<forall>n. n \<noteq> l \<longrightarrow> h' n = h n)"
  using assms by (auto simp: INIT_LIST_HEAD_def set_next_def set_prev_def is_list_def)

lemma list_empty_is_list: "is_list h head xs \<Longrightarrow> list_empty head h = Some (xs = [])"
  using is_list_first [of h head xs] is_listD(2,3) [of h head xs]
  by (cases xs) (auto simp: list_empty_def get_next_def)

lemma list_next_is_list:
  "is_list h head xs \<Longrightarrow> list_next head h = Some (case xs of [] \<Rightarrow> NodeNull | x # _ \<Rightarrow> x)"
  using is_list_first [of h head xs] is_listD(3) [of h head xs]
  by (auto simp: list_next_def list_empty_is_list get_next_def split: list.splits)

lemma list_prev_is_list:
  "is_list h head xs \<Longrightarrow> list_prev head h = Some (if xs = [] then NodeNull else last xs)"
  using is_list_last [of h head xs] is_listD(3) [of h head xs]
  by (auto simp: list_prev_def list_empty_is_list get_prev_def)

lemma list_is_last_is_list:
  assumes "is_list h head (ys @ x # zs)"
  shows "list_is_last x head h = Some (zs = [])"
  using is_list_at(1) [OF assms] assms
  by (cases zs) (auto simp: list_is_last_def get_next_def is_list_def)

section \<open>Traversals\<close>

lemma finite_valid: "finite {n. valid_node n}" and card_valid: "card {n. valid_node n} < LOOP_FUEL"
proof -
  let ?V = "set ([PcbFree, SemdFree, Asl, ReadyQueue] @ map P_next [0..<20] @ map P_child [0..<20] @
    map P_sib [0..<20] @ map S_next [0..<20] @ map S_procQ [0..<20])"
  have sub: "{n. valid_node n} \<subseteq> ?V"
  proof
    fix n assume "n \<in> {n. valid_node n}"
    then show "n \<in> ?V" by (cases n) (simp_all add: MAXPROC_def)
  qed
  then show "finite {n. valid_node n}" by (rule finite_subset) simp
  have "card {n. valid_node n} \<le> card ?V" using sub by (intro card_mono) simp
  also have "\<dots> \<le> 104" by (rule order_trans [OF card_length]) simp
  finally show "card {n. valid_node n} < LOOP_FUEL" by (simp add: LOOP_FUEL_def)
qed

lemma is_list_fuel: "is_list h head xs \<Longrightarrow> length xs < LOOP_FUEL"
proof -
  assume l: "is_list h head xs"
  have "length xs = card (set xs)" using is_listD(1) [OF l] by (simp add: distinct_card)
  also have "\<dots> \<le> card {n. valid_node n}"
    using is_listD(4) [OF l] by (intro card_mono finite_valid) auto
  finally show ?thesis using card_valid by simp
qed

lemma list_search_links:
  assumes "links h (xs @ [head])" and "head \<notin> set xs" and "list_all valid_node xs"
    and "\<forall>n\<in>set xs. P n = Some (Q n)" and "length xs < fuel"
  shows "list_search fuel P (hd (xs @ [head])) head h =
    Some (case find Q xs of None \<Rightarrow> NodeNull | Some n \<Rightarrow> n)"
  using assms
proof (induction xs arbitrary: fuel)
  case Nil
  then show ?case by (cases fuel) auto
next
  case (Cons x xs)
  obtain f where f: "fuel = Suc f" using Cons.prems(5) by (cases fuel) auto
  have "lnext (h x) = hd (xs @ [head])" "links h (xs @ [head])"
    using Cons.prems(1) by (cases xs; simp)+
  then show ?case using Cons f by (auto simp: get_next_def)
qed

lemma list_find_is_list:
  assumes "is_list h head xs" and "\<forall>n\<in>set xs. P n = Some (Q n)"
  shows "list_find P head h = Some (case find Q xs of None \<Rightarrow> NodeNull | Some n \<Rightarrow> n)"
proof -
  have "links h (xs @ [head])" using assms(1) by (cases xs) (auto simp: is_list_def)
  then have "list_search LOOP_FUEL P (hd (xs @ [head])) head h =
      Some (case find Q xs of None \<Rightarrow> NodeNull | Some n \<Rightarrow> n)"
    using assms is_list_fuel [OF assms(1)]
    by (intro list_search_links) (auto simp: is_list_def)
  then show ?thesis
    using is_list_first [OF assms(1)] is_listD(3) [OF assms(1)]
    by (simp add: list_find_def get_next_def)
qed

lemma walk_next_links:
  assumes "links h (xs @ [head])" and "head \<notin> set xs" and "list_all valid_node xs"
    and "length xs < fuel"
  shows "walk_next fuel (hd (xs @ [head])) head h = Some xs"
  using assms
proof (induction xs arbitrary: fuel)
  case Nil
  then show ?case by (cases fuel) auto
next
  case (Cons x xs)
  obtain f where f: "fuel = Suc f" using Cons.prems(4) by (cases fuel) auto
  have "lnext (h x) = hd (xs @ [head])" "links h (xs @ [head])"
    using Cons.prems(1) by (cases xs; simp)+
  then show ?case using Cons f by (auto simp: get_next_def)
qed

lemma walk_prev_links:
  assumes "links h (head # xs)" and "head \<notin> set xs" and "list_all valid_node xs"
    and "length xs < fuel"
  shows "walk_prev fuel (last (head # xs)) head h = Some (rev xs)"
  using assms
proof (induction xs arbitrary: fuel rule: rev_induct)
  case Nil
  then show ?case by (cases fuel) auto
next
  case (snoc x xs)
  obtain f where f: "fuel = Suc f" using snoc.prems(4) by (cases fuel) auto
  have "lprev (h x) = last (head # xs)" "links h (head # xs)"
    using snoc.prems(1) links_append [of "head # xs" "[x]" h] by auto
  then show ?case using snoc f by (auto simp: get_prev_def)
qed

lemma list_for_each_is_list:
  assumes "is_list h head xs"
  shows "list_for_each head h = Some xs" "list_for_each_prev head h = Some (rev xs)"
proof -
  have "links h (xs @ [head])" using assms by (cases xs) (auto simp: is_list_def)
  then have "walk_next LOOP_FUEL (hd (xs @ [head])) head h = Some xs"
    using assms is_list_fuel [OF assms] by (intro walk_next_links) (auto simp: is_list_def)
  then show "list_for_each head h = Some xs"
    using is_list_first [OF assms] is_listD(3) [OF assms] by (simp add: list_for_each_def get_next_def)
  have "links h (head # xs)"
    using assms links_append [of "head # xs" "[head]" h] by (auto simp: is_list_def)
  then have "walk_prev LOOP_FUEL (last (head # xs)) head h = Some (rev xs)"
    using assms is_list_fuel [OF assms] by (intro walk_prev_links) (auto simp: is_list_def)
  then show "list_for_each_prev head h = Some (rev xs)"
    using is_list_last [OF assms] is_listD(3) [OF assms] by (simp add: list_for_each_prev_def get_prev_def)
qed

section \<open>Properties\<close>

lemma is_list_cells_unique:
  assumes "is_list h head xs" and "is_list h' head xs" and "n \<in> set (head # xs)"
  shows "h' n = h n"
proof (cases "n = head")
  case True
  have "lnext (h' n) = lnext (h n)" "lprev (h' n) = lprev (h n)"
    using is_list_first assms(1,2) is_list_last True by auto
  then show ?thesis by (rule list_head.equality) simp
next
  case False
  then obtain ys zs where "xs = ys @ n # zs" using assms(3) by (auto dest: split_list)
  then have "lnext (h' n) = lnext (h n)" "lprev (h' n) = lprev (h n)"
    using is_list_at assms(1,2) by metis+
  then show ?thesis by (rule list_head.equality) simp
qed

text \<open>
  \<open>list_del\<close> undoes \<open>list_add\<close>: inserting a cell at the head of a list and deleting it again
  never faults and gives back every cell of memory but the inserted one.
\<close>

lemma list_add_del:
  assumes "is_list h head xs" and "valid_node x" and "x \<notin> set (head # xs)"
  shows "\<exists>h1 h2. list_add x head h = Some h1 \<and> is_list h1 head (x # xs) \<and> list_del x h1 = Some h2 \<and>
    is_list h2 head xs \<and> (\<forall>n. n \<noteq> x \<longrightarrow> h2 n = h n)"
proof -
  obtain h1 where h1: "list_add x head h = Some h1" "is_list h1 head (x # xs)"
      "\<forall>n. n \<notin> set (x # head # xs) \<longrightarrow> h1 n = h n"
    using list_add_head [OF assms] by blast
  obtain h2 where h2: "list_del x h1 = Some h2" "is_list h2 head xs"
      "\<forall>n. n \<notin> set (head # xs) \<longrightarrow> h2 n = h1 n"
    using list_del_is_list [of h1 head "[]" x xs] h1(2) by auto
  have "h2 n = h n" if "n \<noteq> x" for n
    using is_list_cells_unique [OF assms(1) h2(2), of n] h1(3) h2(3) that by (cases "n \<in> set (head # xs)") auto
  then show ?thesis using h1(1,2) h2(1,2) by blast
qed

lemma list_add_del_example:
  "\<exists>h1 h2. list_add (P_next 3) PcbFree LIST_HEAD_INIT = Some h1 \<and> is_list h1 PcbFree [P_next 3] \<and>
     list_del (P_next 3) h1 = Some h2 \<and> is_list h2 PcbFree [] \<and>
     (\<forall>n. n \<noteq> P_next 3 \<longrightarrow> h2 n = LIST_HEAD_INIT n)"
  by (rule list_add_del) (simp_all add: is_list_def LIST_HEAD_INIT_def MAXPROC_def)

text \<open>
  The traversals end: on a well-formed list \<open>list_for_each\<close> visits exactly its cells in order,
  \<open>list_for_each_prev\<close> visits them backwards, and a search returns the first cell that passes its
  test, or \<open>NULL\<close>.
\<close>

lemma list_traversals:
  assumes "is_list h head xs" and "\<forall>n\<in>set xs. P n = Some (Q n)"
  shows "list_for_each head h = Some xs \<and> list_for_each_prev head h = Some (rev xs) \<and>
    list_find P head h = Some (case find Q xs of None \<Rightarrow> NodeNull | Some n \<Rightarrow> n)"
  using list_for_each_is_list [OF assms(1)] list_find_is_list [OF assms] by auto

lemma list_traversals_example:
  defines "h \<equiv> LIST_HEAD_INIT(ReadyQueue := \<lparr>lnext = P_next 4, lprev = P_next 2\<rparr>,
    P_next 4 := \<lparr>lnext = P_next 2, lprev = ReadyQueue\<rparr>, P_next 2 := \<lparr>lnext = ReadyQueue, lprev = P_next 4\<rparr>)"
  shows "list_for_each ReadyQueue h = Some [P_next 4, P_next 2] \<and>
    list_for_each_prev ReadyQueue h = Some [P_next 2, P_next 4] \<and>
    list_find (\<lambda>n. Some (n = P_next 2)) ReadyQueue h = Some (P_next 2)"
proof -
  have "is_list h ReadyQueue [P_next 4, P_next 2]" by (simp add: h_def is_list_def MAXPROC_def)
  from list_traversals [OF this, of "\<lambda>n. Some (n = P_next 2)" "\<lambda>n. n = P_next 2"] show ?thesis by simp
qed

end
