(* ===== verification/BitField.thy ===== *)
theory BitField
  imports Prelude
begin

text \<open>
  The interface of the register macros of the two machines: a field is \<open>width\<close> bits of a register
  from bit \<open>low\<close>. A header gives a macro that reads the field (\<open>reg_read\<close>) and, on uARM, one that
  writes it (\<open>reg_field\<close>); \<open>disjoint_fields\<close> are two fields of one register. The laws are stated
  bit by bit, which is how the macros satisfy them, and the lemmas turn them into what the code relies
  on: a value written is read back, nothing else changes, fields are independent.
\<close>

lemma unat_exp: "n < 32 \<Longrightarrow> unat (2 ^ n :: u32) = 2 ^ n"
proof -
  assume "n < 32"
  then have "(2 :: nat) ^ n < 2 ^ 32" by (rule power_strict_increasing) simp
  then show ?thesis using unat_of_nat [of "2 ^ n", where ?'a = 32] by simp
qed

lemma less_exp_bit: "v < 2 ^ w \<Longrightarrow> w \<le> n \<Longrightarrow> \<not> bit (v :: u32) n"
proof
  assume h: "v < 2 ^ w" "w \<le> n" "bit v n"
  have "n < 32" using h(3) bit_imp_le_length [of v n] by simp
  then have "w < 32" using h(2) by simp
  then have "unat v < 2 ^ w" using h(1) by (simp add: word_less_nat_alt unat_exp)
  then have "\<not> bit (unat v) n" using h(2) by (metis bit_take_bit_iff linorder_not_le take_bit_nat_eq_self)
  then show False using h(3) by (simp add: bit_unsigned_iff)
qed

locale reg_read =
  fixes get :: "u32 \<Rightarrow> u32" and low width :: nat
  assumes get_bit: "bit (get r) n \<longleftrightarrow> n < width \<and> bit r (low + n)"
    and width_pos: "0 < width" and in_register: "low + width \<le> 32"
begin

lemma get_eq: "get r = take_bit width (drop_bit low r)"
  by (rule bit_word_eqI) (simp add: get_bit bit_take_bit_iff bit_drop_bit_eq)

lemma get_range: "unat (get r) < 2 ^ width"
  by (simp add: get_eq unsigned_take_bit_eq)

lemma get_zero: "get 0 = 0"
  by (rule bit_word_eqI) (simp add: get_bit)

end

locale reg_field = reg_read +
  fixes put :: "u32 \<Rightarrow> u32 \<Rightarrow> u32"
  assumes put_bit: "v < 2 ^ width \<Longrightarrow> n < 32 \<Longrightarrow>
    bit (put r v) n \<longleftrightarrow> (if low \<le> n \<and> n < low + width then bit v (n - low) else bit r n)"
begin

lemma get_put: "v < 2 ^ width \<Longrightarrow> get (put r v) = v"
proof (rule bit_word_eqI)
  fix n assume h: "v < 2 ^ width" "n < LENGTH(32)"
  show "bit (get (put r v)) n = bit v n"
  proof (cases "n < width")
    case True
    then show ?thesis using h in_register by (simp add: get_bit put_bit)
  next
    case False
    then show ?thesis using less_exp_bit [OF h(1), of n] by (simp add: get_bit)
  qed
qed

lemma get_less: "width < 32 \<Longrightarrow> get r < 2 ^ width"
  using get_range by (simp add: word_less_nat_alt unat_exp)

lemma put_get: "width < 32 \<Longrightarrow> put r (get r) = r"
  using get_less in_register by (intro bit_word_eqI) (auto simp: put_bit get_bit)

lemma put_put: "v < 2 ^ width \<Longrightarrow> u < 2 ^ width \<Longrightarrow> put (put r u) v = put r v"
  by (intro bit_word_eqI) (simp add: put_bit)

end

locale disjoint_fields = f: reg_field get low width put + g: reg_field get' low' width' put'
  for get low width put get' low' width' put' +
  assumes apart: "low + width \<le> low'"
begin

lemma get_put_other: "v < 2 ^ width \<Longrightarrow> get' (put r v) = get' r"
  using apart g.in_register by (intro bit_word_eqI) (auto simp: g.get_bit f.put_bit)

lemma put_other_get: "v < 2 ^ width' \<Longrightarrow> get (put' r v) = get r"
  using apart f.in_register by (intro bit_word_eqI) (auto simp: f.get_bit g.put_bit)

lemma put_commute: "u < 2 ^ width \<Longrightarrow> v < 2 ^ width' \<Longrightarrow> put' (put r u) v = put (put' r v) u"
  using apart by (intro bit_word_eqI) (auto simp: f.put_bit g.put_bit)

end

text \<open>The two shapes of the macros: mask and shift down, clear and shift in.\<close>

lemma bit_field_mask: "m = push_bit l (mask w) \<Longrightarrow> n < 32 \<Longrightarrow> bit (m :: u32) n \<longleftrightarrow> l \<le> n \<and> n < l + w"
  by (auto simp: bit_push_bit_iff bit_mask_iff)

lemma reg_readI:
  assumes "m = push_bit l (mask w)" and "\<And>r. get r = drop_bit l (r AND m)" and "0 < w" "l + w \<le> 32"
  shows "reg_read get l w"
proof
  fix r :: u32 and n
  show "bit (get r) n \<longleftrightarrow> n < w \<and> bit r (l + n)"
    using bit_field_mask [OF assms(1), of "l + n"] bit_imp_le_length [of r "l + n"] assms(4)
    by (auto simp: assms(2) bit_drop_bit_eq bit_and_iff)
qed (use assms in auto)

lemma reg_fieldI:
  assumes m: "m = push_bit l (mask w)" and g: "\<And>r. get r = drop_bit l (r AND m)" and w: "0 < w" "l + w \<le> 32"
    and c: "c = NOT m" and p: "\<And>r v. put r v = (r AND c) OR push_bit l v"
  shows "reg_field get l w put"
proof (rule reg_field.intro [OF reg_readI [OF m g w] reg_field_axioms.intro])
  fix v r :: u32 and n :: nat
  assume v: "v < 2 ^ w" "n < 32"
  have "\<not> bit v (n - l)" if "\<not> n < l + w" by (rule less_exp_bit [OF v(1)]) (use that in simp)
  then show "bit (put r v) n \<longleftrightarrow> (if l \<le> n \<and> n < l + w then bit v (n - l) else bit r n)"
    using bit_field_mask [OF m v(2)] v(2)
    by (auto simp: p c bit_or_iff bit_and_iff bit_not_iff bit_push_bit_iff)
qed

end
