(* ===== verification/Bus.thy ===== *)
theory Bus
  imports Prelude
begin

text \<open>
  The part of \<open>umps/arch.h\<close> and \<open>uarm/arch.h\<close> that the two machines have in common: sizes of a word
  and of a device register, interrupt lines and their numbering.
\<close>

definition WORD_SIZE :: u32 where "WORD_SIZE = 4"
definition DEV_REG_SIZE_W :: u32 where "DEV_REG_SIZE_W = 4"
definition DEV_REG_SIZE :: u32 where "DEV_REG_SIZE = DEV_REG_SIZE_W * WORD_SIZE"
definition N_INTERRUPT_LINES :: u32 where "N_INTERRUPT_LINES = 8"
definition N_EXT_IL :: u32 where "N_EXT_IL = 5"
definition N_DEV_PER_IL :: u32 where "N_DEV_PER_IL = 8"
definition DEV_IL_START :: u32 where "DEV_IL_START = N_INTERRUPT_LINES - N_EXT_IL"
definition IL_IPI :: u32 where "IL_IPI = 0"
definition IL_CPUTIMER :: u32 where "IL_CPUTIMER = 1"
definition IL_TIMER :: u32 where "IL_TIMER = 2"
definition IL_DISK :: u32 where "IL_DISK = 3"
definition IL_TAPE :: u32 where "IL_TAPE = 4"
definition IL_ETHERNET :: u32 where "IL_ETHERNET = 5"
definition IL_PRINTER :: u32 where "IL_PRINTER = 6"
definition IL_TERMINAL :: u32 where "IL_TERMINAL = 7"

lemmas il_defs = WORD_SIZE_def DEV_REG_SIZE_W_def DEV_REG_SIZE_def N_INTERRUPT_LINES_def N_EXT_IL_def
  N_DEV_PER_IL_def DEV_IL_START_def IL_IPI_def IL_CPUTIMER_def IL_TIMER_def IL_DISK_def IL_TAPE_def IL_ETHERNET_def
  IL_PRINTER_def IL_TERMINAL_def

definition EXT_IL_INDEX :: "u32 \<Rightarrow> u32" where
  "EXT_IL_INDEX il = il - DEV_IL_START"

end
