(* ===== verification/Umps.thy ===== *)
theory Umps
  imports BitField Bus
begin

text \<open>
  The machine uMPS2 as its headers describe it: \<open>umps/arch.h\<close> (memory map, bus, device, interrupt
  routing, processor interface and machine control registers), \<open>umps/cp0.h\<close> (the Status, Cause,
  EntryHi and EntryLo registers of coprocessor 0 and the exception codes). A name that both machines
  define carries the suffix \<open>_UMPS\<close>.

  The interpretations give the fields that the macros read; the lemmas say how a register is made of
  its fields.
\<close>

section \<open>Memory map\<close>

definition MMIO_BASE_UMPS :: u32 where "MMIO_BASE_UMPS = 0x10000000"
definition RAM_BASE_UMPS :: u32 where "RAM_BASE_UMPS = 0x20000000"
definition BUS_REG_RAM_BASE_UMPS :: u32 where "BUS_REG_RAM_BASE_UMPS = 0x10000000"
definition BUS_REG_RAM_SIZE_UMPS :: u32 where "BUS_REG_RAM_SIZE_UMPS = 0x10000004"
definition BUS_REG_BIOS_BASE :: u32 where "BUS_REG_BIOS_BASE = 0x10000008"
definition BUS_REG_BIOS_SIZE :: u32 where "BUS_REG_BIOS_SIZE = 0x1000000C"
definition BUS_REG_BOOT_BASE :: u32 where "BUS_REG_BOOT_BASE = 0x10000010"
definition BUS_REG_BOOT_SIZE :: u32 where "BUS_REG_BOOT_SIZE = 0x10000014"
definition BUS_REG_TOD_HI_UMPS :: u32 where "BUS_REG_TOD_HI_UMPS = 0x10000018"
definition BUS_REG_TOD_LO_UMPS :: u32 where "BUS_REG_TOD_LO_UMPS = 0x1000001C"
definition BUS_REG_TIMER_UMPS :: u32 where "BUS_REG_TIMER_UMPS = 0x10000020"
definition BUS_REG_TIME_SCALE_UMPS :: u32 where "BUS_REG_TIME_SCALE_UMPS = 0x10000024"
definition IDEV_BITMAP_BASE_UMPS :: u32 where "IDEV_BITMAP_BASE_UMPS = 0x10000028"
definition CDEV_BITMAP_BASE_UMPS :: u32 where "CDEV_BITMAP_BASE_UMPS = 0x1000003C"
definition DEV_REG_START_UMPS :: u32 where "DEV_REG_START_UMPS = 0x10000050"

definition RAM_SIZE_UMPS :: "(u32 \<Rightarrow> u32) \<Rightarrow> u32" where "RAM_SIZE_UMPS mem = mem 0x10000004"
definition RAM_TOP_UMPS :: "(u32 \<Rightarrow> u32) \<Rightarrow> u32" where "RAM_TOP_UMPS mem = RAM_BASE_UMPS + RAM_SIZE_UMPS mem"

definition EXCV_BASE_UMPS :: u32 where "EXCV_BASE_UMPS = 0x20000000"
definition STATE_T_SIZE_UMPS :: u32 where "STATE_T_SIZE_UMPS = 0x8C"
definition IRT_BASE :: u32 where "IRT_BASE = 0x10000300"
definition IRT_END :: u32 where "IRT_END = 0x100003C0"

definition IRT_ENTRY :: "u32 \<Rightarrow> u32 \<Rightarrow> u32" where
  "IRT_ENTRY line dev = IRT_BASE + WORD_SIZE * ((line - IL_TIMER) * N_DEV_PER_IL + dev)"

definition IRT_ENTRY_GET_POLICY :: "u32 \<Rightarrow> u32" where
  "IRT_ENTRY_GET_POLICY x = drop_bit 28 (x AND 0x10000000)"
definition IRT_ENTRY_GET_DEST :: "u32 \<Rightarrow> u32" where
  "IRT_ENTRY_GET_DEST x = drop_bit 0 (x AND 0x0000FFFF)"

definition CPUCTL_INBOX :: u32 where "CPUCTL_INBOX = 0x10000400"
definition CPUCTL_INBOX_GET_MSG :: "u32 \<Rightarrow> u32" where
  "CPUCTL_INBOX_GET_MSG x = drop_bit 0 (x AND 0x000000FF)"
definition CPUCTL_INBOX_GET_ORIGIN :: "u32 \<Rightarrow> u32" where
  "CPUCTL_INBOX_GET_ORIGIN x = drop_bit 8 (x AND 0x00000F00)"
definition CPUCTL_OUTBOX :: u32 where "CPUCTL_OUTBOX = 0x10000404"
definition CPUCTL_OUTBOX_GET_MSG :: "u32 \<Rightarrow> u32" where
  "CPUCTL_OUTBOX_GET_MSG x = drop_bit 0 (x AND 0x000000FF)"
definition CPUCTL_OUTBOX_GET_RECIP :: "u32 \<Rightarrow> u32" where
  "CPUCTL_OUTBOX_GET_RECIP x = drop_bit 8 (x AND 0x00FFFF00)"
definition CPUCTL_TPR :: u32 where "CPUCTL_TPR = 0x10000408"
definition CPUCTL_BIOS_RES_0 :: u32 where "CPUCTL_BIOS_RES_0 = 0x1000040C"
definition CPUCTL_BIOS_RES_1 :: u32 where "CPUCTL_BIOS_RES_1 = 0x10000410"
definition CPUCTL_BASE :: u32 where "CPUCTL_BASE = CPUCTL_INBOX"
definition CPUCTL_END :: u32 where "CPUCTL_END = CPUCTL_BIOS_RES_1 + WORD_SIZE"
definition MCTL_NCPUS :: u32 where "MCTL_NCPUS = 0x10000500"
definition MCTL_RESET_CPU :: u32 where "MCTL_RESET_CPU = 0x10000504"
definition MCTL_BOOT_PC :: u32 where "MCTL_BOOT_PC = 0x10000508"
definition MCTL_BOOT_SP :: u32 where "MCTL_BOOT_SP = 0x1000050C"
definition MCTL_HALT_CPU :: u32 where "MCTL_HALT_CPU = 0x10000510"
definition MCTL_POWER :: u32 where "MCTL_POWER = 0x10000514"
definition MCTL_BASE :: u32 where "MCTL_BASE = MCTL_NCPUS"
definition MCTL_END :: u32 where "MCTL_END = MCTL_POWER + WORD_SIZE"
definition MMIO_END :: u32 where "MMIO_END = MCTL_END"

lemmas umps_map_defs = MMIO_BASE_UMPS_def RAM_BASE_UMPS_def BUS_REG_RAM_BASE_UMPS_def
  BUS_REG_RAM_SIZE_UMPS_def BUS_REG_BIOS_BASE_def BUS_REG_BIOS_SIZE_def BUS_REG_BOOT_BASE_def
  BUS_REG_BOOT_SIZE_def BUS_REG_TOD_HI_UMPS_def BUS_REG_TOD_LO_UMPS_def BUS_REG_TIMER_UMPS_def
  BUS_REG_TIME_SCALE_UMPS_def IDEV_BITMAP_BASE_UMPS_def CDEV_BITMAP_BASE_UMPS_def
  DEV_REG_START_UMPS_def EXCV_BASE_UMPS_def STATE_T_SIZE_UMPS_def IRT_BASE_def IRT_END_def
  CPUCTL_INBOX_def CPUCTL_OUTBOX_def CPUCTL_TPR_def CPUCTL_BIOS_RES_0_def CPUCTL_BIOS_RES_1_def
  CPUCTL_BASE_def CPUCTL_END_def MCTL_NCPUS_def MCTL_RESET_CPU_def MCTL_BOOT_PC_def MCTL_BOOT_SP_def
  MCTL_HALT_CPU_def MCTL_POWER_def MCTL_BASE_def MCTL_END_def MMIO_END_def

section \<open>Coprocessor 0\<close>

definition STATUS_IEc :: u32 where "STATUS_IEc = 0x00000001"
definition STATUS_KUc :: u32 where "STATUS_KUc = 0x00000002"
definition STATUS_IEp :: u32 where "STATUS_IEp = 0x00000004"
definition STATUS_KUp :: u32 where "STATUS_KUp = 0x00000008"
definition STATUS_IEo :: u32 where "STATUS_IEo = 0x00000010"
definition STATUS_KUo :: u32 where "STATUS_KUo = 0x00000020"
definition STATUS_IM_MASK :: u32 where "STATUS_IM_MASK = 0x0000FF00"
definition STATUS_IM :: "u32 \<Rightarrow> u32" where "STATUS_IM line = push_bit (8 + unat line) 1"
definition STATUS_BEV :: u32 where "STATUS_BEV = 0x00400000"
definition STATUS_VMc :: u32 where "STATUS_VMc = 0x01000000"
definition STATUS_VMp :: u32 where "STATUS_VMp = 0x02000000"
definition STATUS_VMo :: u32 where "STATUS_VMo = 0x04000000"
definition STATUS_TE :: u32 where "STATUS_TE = 0x08000000"
definition STATUS_CU0 :: u32 where "STATUS_CU0 = 0x10000000"
definition STATUS_CU1 :: u32 where "STATUS_CU1 = 0x20000000"
definition STATUS_CU2 :: u32 where "STATUS_CU2 = 0x40000000"
definition STATUS_CU3 :: u32 where "STATUS_CU3 = 0x80000000"

lemmas umps_status_defs = STATUS_IEc_def STATUS_KUc_def STATUS_IEp_def STATUS_KUp_def STATUS_IEo_def
  STATUS_KUo_def STATUS_IM_MASK_def STATUS_BEV_def STATUS_VMc_def STATUS_VMp_def STATUS_VMo_def
  STATUS_TE_def STATUS_CU0_def STATUS_CU1_def STATUS_CU2_def STATUS_CU3_def

definition CAUSE_GET_EXCCODE :: "u32 \<Rightarrow> u32" where
  "CAUSE_GET_EXCCODE x = drop_bit 2 (x AND 0x0000007C)"
definition CAUSE_IP :: "u32 \<Rightarrow> u32" where
  "CAUSE_IP line = push_bit (8 + unat line) 1"
definition CAUSE_GET_CE :: "u32 \<Rightarrow> u32" where
  "CAUSE_GET_CE x = drop_bit 28 (x AND 0x30000000)"
definition ENTRYHI_GET_SEGNO :: "u32 \<Rightarrow> u32" where
  "ENTRYHI_GET_SEGNO x = drop_bit 30 (x AND 0xC0000000)"
definition ENTRYHI_GET_VPN :: "u32 \<Rightarrow> u32" where
  "ENTRYHI_GET_VPN x = drop_bit 12 (x AND 0x3FFFF000)"
definition ENTRYHI_GET_ASID :: "u32 \<Rightarrow> u32" where
  "ENTRYHI_GET_ASID x = drop_bit 6 (x AND 0x00000FC0)"
definition ENTRYLO_GET_PFN :: "u32 \<Rightarrow> u32" where
  "ENTRYLO_GET_PFN x = drop_bit 12 (x AND 0xFFFFF000)"

datatype umps_exception = EXC_INT | EXC_MOD | EXC_TLBL | EXC_TLBS | EXC_ADEL | EXC_ADES | EXC_IBE | EXC_DBE
  | EXC_SYS | EXC_BP | EXC_RI | EXC_CPU | EXC_OV | EXC_BDPT | EXC_PTMS

fun exc_code :: "umps_exception \<Rightarrow> u32" where
  "exc_code EXC_INT = 0"
| "exc_code EXC_MOD = 1"
| "exc_code EXC_TLBL = 2"
| "exc_code EXC_TLBS = 3"
| "exc_code EXC_ADEL = 4"
| "exc_code EXC_ADES = 5"
| "exc_code EXC_IBE = 6"
| "exc_code EXC_DBE = 7"
| "exc_code EXC_SYS = 8"
| "exc_code EXC_BP = 9"
| "exc_code EXC_RI = 10"
| "exc_code EXC_CPU = 11"
| "exc_code EXC_OV = 12"
| "exc_code EXC_BDPT = 13"
| "exc_code EXC_PTMS = 14"

lemmas umps_field_defs = CAUSE_GET_EXCCODE_def CAUSE_GET_CE_def ENTRYHI_GET_SEGNO_def ENTRYHI_GET_VPN_def
  ENTRYHI_GET_ASID_def ENTRYLO_GET_PFN_def IRT_ENTRY_GET_POLICY_def IRT_ENTRY_GET_DEST_def
  CPUCTL_INBOX_GET_MSG_def CPUCTL_INBOX_GET_ORIGIN_def CPUCTL_OUTBOX_GET_MSG_def CPUCTL_OUTBOX_GET_RECIP_def

interpretation exccode_umps: reg_read CAUSE_GET_EXCCODE 2 5
  by (rule reg_readI [of "0x0000007C"]) (simp_all add: umps_field_defs mask_eq_exp_minus_1 push_bit_eq_mult)

interpretation ce: reg_read CAUSE_GET_CE 28 2
  by (rule reg_readI [of "0x30000000"]) (simp_all add: umps_field_defs mask_eq_exp_minus_1 push_bit_eq_mult)

interpretation segno_umps: reg_read ENTRYHI_GET_SEGNO 30 2
  by (rule reg_readI [of "0xC0000000"]) (simp_all add: umps_field_defs mask_eq_exp_minus_1 push_bit_eq_mult)

interpretation vpn_umps: reg_read ENTRYHI_GET_VPN 12 18
  by (rule reg_readI [of "0x3FFFF000"]) (simp_all add: umps_field_defs mask_eq_exp_minus_1 push_bit_eq_mult)

interpretation asid_umps: reg_read ENTRYHI_GET_ASID 6 6
  by (rule reg_readI [of "0x00000FC0"]) (simp_all add: umps_field_defs mask_eq_exp_minus_1 push_bit_eq_mult)

interpretation pfn_umps: reg_read ENTRYLO_GET_PFN 12 20
  by (rule reg_readI [of "0xFFFFF000"]) (simp_all add: umps_field_defs mask_eq_exp_minus_1 push_bit_eq_mult)

interpretation policy: reg_read IRT_ENTRY_GET_POLICY 28 1
  by (rule reg_readI [of "0x10000000"]) (simp_all add: umps_field_defs mask_eq_exp_minus_1 push_bit_eq_mult)

interpretation dest: reg_read IRT_ENTRY_GET_DEST 0 16
  by (rule reg_readI [of "0x0000FFFF"]) (simp_all add: umps_field_defs mask_eq_exp_minus_1 push_bit_eq_mult)

interpretation in_msg: reg_read CPUCTL_INBOX_GET_MSG 0 8
  by (rule reg_readI [of "0x000000FF"]) (simp_all add: umps_field_defs mask_eq_exp_minus_1 push_bit_eq_mult)

interpretation in_origin: reg_read CPUCTL_INBOX_GET_ORIGIN 8 4
  by (rule reg_readI [of "0x00000F00"]) (simp_all add: umps_field_defs mask_eq_exp_minus_1 push_bit_eq_mult)

interpretation out_msg: reg_read CPUCTL_OUTBOX_GET_MSG 0 8
  by (rule reg_readI [of "0x000000FF"]) (simp_all add: umps_field_defs mask_eq_exp_minus_1 push_bit_eq_mult)

interpretation out_recip: reg_read CPUCTL_OUTBOX_GET_RECIP 8 16
  by (rule reg_readI [of "0x00FFFF00"]) (simp_all add: umps_field_defs mask_eq_exp_minus_1 push_bit_eq_mult)

text \<open>EntryHi is made of its three fields and the six bits that belong to none.\<close>

lemma entryhi_fields:
  "push_bit 30 (ENTRYHI_GET_SEGNO x) OR push_bit 12 (ENTRYHI_GET_VPN x) OR push_bit 6 (ENTRYHI_GET_ASID x) OR
   take_bit 6 x = x"
proof (rule bit_word_eqI)
  fix n assume "n < LENGTH(32)"
  then consider "n < 6" | "6 \<le> n" "n < 12" | "12 \<le> n" "n < 30" | "30 \<le> n" "n < 32" by force
  then show "bit (push_bit 30 (ENTRYHI_GET_SEGNO x) OR push_bit 12 (ENTRYHI_GET_VPN x) OR
      push_bit 6 (ENTRYHI_GET_ASID x) OR take_bit 6 x) n = bit x n"
    by cases (auto simp: bit_or_iff bit_push_bit_iff bit_take_bit_iff segno_umps.get_bit vpn_umps.get_bit asid_umps.get_bit)
qed

lemma exc_code_inj: "exc_code e = exc_code e' \<Longrightarrow> e = e'"
  by (cases e; cases e'; simp)

lemma exc_code_read: "CAUSE_GET_EXCCODE (push_bit 2 (exc_code e)) = exc_code e"
  by (cases e; simp add: CAUSE_GET_EXCCODE_def push_bit_eq_mult drop_bit_eq_div)

end
