(* ===== verification/Uarm.thy ===== *)
theory Uarm
  imports BitField Bus
begin

text \<open>
  The machine uARM as its headers describe it: \<open>uarm/uARMconst.h\<close> (processor modes, the status,
  control, EntryHi, EntryLo and Cause registers, exception codes, areas reserved by the BIOS),
  \<open>uarm/arch.h\<close> (memory map, bus and device registers). A name that both machines define carries the
  suffix \<open>_UARM\<close>.

  The lemmas and interpretations give the fields of the TLB and Cause registers and the effect of the
  macros on the status register.
\<close>

section \<open>The status register\<close>

definition STATUS_CLEAR_MODE :: u32 where "STATUS_CLEAR_MODE = 0xFFFFFFF0"
definition STATUS_USER_MODE :: u32 where "STATUS_USER_MODE = 0x00000010"
definition STATUS_SYS_MODE :: u32 where "STATUS_SYS_MODE = 0x0000001F"
definition STATUS_SRV_MODE :: u32 where "STATUS_SRV_MODE = 0x00000013"
definition STATUS_INT_MODE :: u32 where "STATUS_INT_MODE = 0x00000012"
definition STATUS_PGMT_MODE :: u32 where "STATUS_PGMT_MODE = 0x0000001B"
definition STATUS_TLB_MODE :: u32 where "STATUS_TLB_MODE = 0x00000017"
definition STATUS_ID :: u32 where "STATUS_ID = 0x00000080"
definition STATUS_TIMER_ID :: u32 where "STATUS_TIMER_ID = 0x00000040"

definition STATUS_ENABLE_INT :: "u32 \<Rightarrow> u32" where
  "STATUS_ENABLE_INT status = status AND NOT STATUS_ID"
definition STATUS_DISABLE_INT :: "u32 \<Rightarrow> u32" where
  "STATUS_DISABLE_INT status = status OR STATUS_ID"
definition STATUS_ENABLE_TIMER :: "u32 \<Rightarrow> u32" where
  "STATUS_ENABLE_TIMER status = status AND NOT STATUS_TIMER_ID"
definition STATUS_DISABLE_TIMER :: "u32 \<Rightarrow> u32" where
  "STATUS_DISABLE_TIMER status = status OR STATUS_TIMER_ID"
definition STATUS_ALL_INT_ENABLE :: "u32 \<Rightarrow> u32" where
  "STATUS_ALL_INT_ENABLE status = status AND NOT STATUS_TIMER_ID AND NOT STATUS_ID"
definition STATUS_ALL_INT_DISABLE :: "u32 \<Rightarrow> u32" where
  "STATUS_ALL_INT_DISABLE status = status OR STATUS_TIMER_ID OR STATUS_ID"
definition STATUS_NULL :: u32 where "STATUS_NULL = 0"

lemmas uarm_mode_defs = STATUS_CLEAR_MODE_def STATUS_USER_MODE_def STATUS_SYS_MODE_def STATUS_SRV_MODE_def
  STATUS_INT_MODE_def STATUS_PGMT_MODE_def STATUS_TLB_MODE_def

definition CP15_VM_ON :: u32 where "CP15_VM_ON = 0x00000001"
definition CP15_ENABLE_VM :: "u32 \<Rightarrow> u32" where "CP15_ENABLE_VM control = control OR CP15_VM_ON"
definition CP15_DISABLE_VM :: "u32 \<Rightarrow> u32" where "CP15_DISABLE_VM control = control AND NOT CP15_VM_ON"
definition CP15_CONTROL_NULL :: u32 where "CP15_CONTROL_NULL = 0"

section \<open>TLB and Cause registers\<close>

definition ENTRYHI_SEGNO_GET :: "u32 \<Rightarrow> u32" where
  "ENTRYHI_SEGNO_GET entryHI = drop_bit 30 (entryHI AND 0xC0000000)"
definition ENTRYHI_VPN_GET :: "u32 \<Rightarrow> u32" where
  "ENTRYHI_VPN_GET entryHI = drop_bit 12 (entryHI AND 0x3FFFF000)"
definition ENTRYHI_ASID_GET :: "u32 \<Rightarrow> u32" where
  "ENTRYHI_ASID_GET entryHI = drop_bit 5 (entryHI AND 0x00000FE0)"
definition ENTRYHI_SEGNO_SET :: "u32 \<Rightarrow> u32 \<Rightarrow> u32" where
  "ENTRYHI_SEGNO_SET entryHI seg_no = (entryHI AND 0x3FFFFFFF) OR push_bit 30 seg_no"
definition ENTRYHI_VPN_SET :: "u32 \<Rightarrow> u32 \<Rightarrow> u32" where
  "ENTRYHI_VPN_SET entryHI vpn = (entryHI AND 0xC0000FFF) OR push_bit 12 vpn"
definition ENTRYHI_ASID_SET :: "u32 \<Rightarrow> u32 \<Rightarrow> u32" where
  "ENTRYHI_ASID_SET entryHI asid = (entryHI AND 0xFFFFF01F) OR push_bit 5 asid"
definition ENTRYLO_PFN_GET :: "u32 \<Rightarrow> u32" where
  "ENTRYLO_PFN_GET entryLO = drop_bit 12 (entryLO AND 0xFFFFF000)"
definition ENTRYLO_PFN_SET :: "u32 \<Rightarrow> u32 \<Rightarrow> u32" where
  "ENTRYLO_PFN_SET entryLO pfn = (entryLO AND 0x00000FFF) OR push_bit 12 pfn"
definition ENTRYLO_DIRTY :: u32 where "ENTRYLO_DIRTY = 0x00000400"
definition ENTRYLO_VALID :: u32 where "ENTRYLO_VALID = 0x00000200"
definition ENTRYLO_GLOBAL :: u32 where "ENTRYLO_GLOBAL = 0x00000100"
definition CAUSE_EXCCODE_GET :: "u32 \<Rightarrow> u32" where
  "CAUSE_EXCCODE_GET cause = cause AND 0xFFFFFF"
definition CAUSE_EXCCODE_SET :: "u32 \<Rightarrow> u32 \<Rightarrow> u32" where
  "CAUSE_EXCCODE_SET cause exc_code = (cause AND 0xFF000000) OR exc_code"
definition CAUSE_IP_GET :: "u32 \<Rightarrow> u32 \<Rightarrow> u32" where
  "CAUSE_IP_GET cause int_no = cause AND push_bit (unat int_no + 24) 1"

lemmas uarm_field_defs = ENTRYHI_SEGNO_GET_def ENTRYHI_VPN_GET_def ENTRYHI_ASID_GET_def ENTRYHI_SEGNO_SET_def
  ENTRYHI_VPN_SET_def ENTRYHI_ASID_SET_def ENTRYLO_PFN_GET_def ENTRYLO_PFN_SET_def CAUSE_EXCCODE_GET_def
  CAUSE_EXCCODE_SET_def

interpretation segno: reg_field ENTRYHI_SEGNO_GET 30 2 ENTRYHI_SEGNO_SET
  by (rule reg_fieldI [of "0xC0000000" _ _ _ "0x3FFFFFFF"])
    (simp_all add: uarm_field_defs mask_eq_exp_minus_1 push_bit_eq_mult)

interpretation vpn: reg_field ENTRYHI_VPN_GET 12 18 ENTRYHI_VPN_SET
  by (rule reg_fieldI [of "0x3FFFF000" _ _ _ "0xC0000FFF"])
    (simp_all add: uarm_field_defs mask_eq_exp_minus_1 push_bit_eq_mult)

interpretation asid: reg_field ENTRYHI_ASID_GET 5 7 ENTRYHI_ASID_SET
  by (rule reg_fieldI [of "0x00000FE0" _ _ _ "0xFFFFF01F"])
    (simp_all add: uarm_field_defs mask_eq_exp_minus_1 push_bit_eq_mult)

interpretation pfn: reg_field ENTRYLO_PFN_GET 12 20 ENTRYLO_PFN_SET
  by (rule reg_fieldI [of "0xFFFFF000" _ _ _ "0x00000FFF"])
    (simp_all add: uarm_field_defs mask_eq_exp_minus_1 push_bit_eq_mult)

interpretation exccode: reg_field CAUSE_EXCCODE_GET 0 24 CAUSE_EXCCODE_SET
  by (rule reg_fieldI [of "0x00FFFFFF" _ _ _ "0xFF000000"])
    (simp_all add: uarm_field_defs mask_eq_exp_minus_1 push_bit_eq_mult)

interpretation asid_vpn: disjoint_fields ENTRYHI_ASID_GET 5 7 ENTRYHI_ASID_SET ENTRYHI_VPN_GET 12 18 ENTRYHI_VPN_SET
  by unfold_locales simp

interpretation asid_segno: disjoint_fields ENTRYHI_ASID_GET 5 7 ENTRYHI_ASID_SET ENTRYHI_SEGNO_GET 30 2 ENTRYHI_SEGNO_SET
  by unfold_locales simp

interpretation vpn_segno: disjoint_fields ENTRYHI_VPN_GET 12 18 ENTRYHI_VPN_SET ENTRYHI_SEGNO_GET 30 2 ENTRYHI_SEGNO_SET
  by unfold_locales simp

lemma pending_above_code: "code < 2 ^ 24 \<Longrightarrow> line < 8 \<Longrightarrow>
    CAUSE_IP_GET (CAUSE_EXCCODE_SET cause code) line = CAUSE_IP_GET cause line"
  by (rule bit_word_eqI) (auto simp: CAUSE_IP_GET_def bit_and_iff bit_push_bit_iff bit_exp_iff exccode.put_bit)

lemma and_mask_eqI:
  assumes "m = mask w" and "\<And>n. n < w \<Longrightarrow> n < 32 \<Longrightarrow> bit x n = bit y n"
  shows "x AND m = y AND (m :: u32)"
  by (rule bit_word_eqI) (use assms in \<open>auto simp: bit_and_iff bit_mask_iff\<close>)

lemma and_low: "x AND 0xFFF = y AND 0xFFF \<Longrightarrow> m AND 0xFFF = m \<Longrightarrow> x AND m = y AND (m :: u32)"
proof -
  assume h: "x AND 0xFFF = y AND 0xFFF" "m AND 0xFFF = m"
  have "z AND m = (z AND 0xFFF) AND m" for z
    using h(2) by (simp add: and.assoc and.commute [of "0xFFF"])
  then show ?thesis using h(1) by metis
qed

text \<open>
  The fields of the TLB and Cause registers of uARM: a segment number, page number and address
  space written into EntryHi, in either order, are read back, together with the five bits of the
  register that belong to no field; rewriting the fields of a register with what they hold changes
  nothing; the frame number is read back from EntryLo and its flags stay; and setting the exception code
  leaves every pending interrupt of Cause as it was. The values have to fit their fields.
\<close>

lemma register_fields_roundtrip:
  fixes seg page space frame code r :: u32
  assumes "seg < 2 ^ 2" and "page < 2 ^ 18" and "space < 2 ^ 7" and "frame < 2 ^ 20" and "code < 2 ^ 24"
  defines "h \<equiv> ENTRYHI_SEGNO_SET (ENTRYHI_VPN_SET (ENTRYHI_ASID_SET r space) page) seg"
  shows "ENTRYHI_SEGNO_GET h = seg \<and> ENTRYHI_VPN_GET h = page \<and> ENTRYHI_ASID_GET h = space \<and>
    h AND 0x1F = r AND 0x1F \<and>
    h = ENTRYHI_ASID_SET (ENTRYHI_VPN_SET (ENTRYHI_SEGNO_SET r seg) page) space \<and>
    ENTRYHI_SEGNO_SET (ENTRYHI_VPN_SET (ENTRYHI_ASID_SET r (ENTRYHI_ASID_GET r)) (ENTRYHI_VPN_GET r)) (ENTRYHI_SEGNO_GET r) = r \<and>
    ENTRYLO_PFN_GET (ENTRYLO_PFN_SET r frame) = frame \<and>
    ENTRYLO_PFN_SET r frame AND (ENTRYLO_DIRTY OR ENTRYLO_VALID OR ENTRYLO_GLOBAL) =
      r AND (ENTRYLO_DIRTY OR ENTRYLO_VALID OR ENTRYLO_GLOBAL) \<and>
    CAUSE_EXCCODE_GET (CAUSE_EXCCODE_SET r code) = code \<and>
    (\<forall>line<8. CAUSE_IP_GET (CAUSE_EXCCODE_SET r code) line = CAUSE_IP_GET r line)"
proof (intro conjI allI impI)
  show "ENTRYHI_SEGNO_GET h = seg" using segno.get_put assms(1) by (simp add: h_def)
  show "ENTRYHI_VPN_GET h = page" using vpn_segno.put_other_get vpn.get_put assms(1,2) by (simp add: h_def)
  show "ENTRYHI_ASID_GET h = space"
    using asid_segno.put_other_get asid_vpn.put_other_get asid.get_put assms(1-3) by (simp add: h_def)
  show "h AND 0x1F = r AND 0x1F"
    by (rule and_mask_eqI [of _ 5]) (use assms in \<open>auto simp: h_def segno.put_bit vpn.put_bit asid.put_bit mask_eq_exp_minus_1\<close>)
  show "h = ENTRYHI_ASID_SET (ENTRYHI_VPN_SET (ENTRYHI_SEGNO_SET r seg) page) space"
    using asid_vpn.put_commute asid_segno.put_commute vpn_segno.put_commute assms(1-3) by (simp add: h_def)
  show "ENTRYHI_SEGNO_SET (ENTRYHI_VPN_SET (ENTRYHI_ASID_SET r (ENTRYHI_ASID_GET r)) (ENTRYHI_VPN_GET r)) (ENTRYHI_SEGNO_GET r) = r"
    by (simp add: asid.put_get vpn.put_get segno.put_get)
  show "ENTRYLO_PFN_GET (ENTRYLO_PFN_SET r frame) = frame" using pfn.get_put assms(4) by simp
  have "ENTRYLO_PFN_SET r frame AND 0xFFF = r AND 0xFFF"
    by (rule and_mask_eqI [of _ 12]) (use assms(4) in \<open>auto simp: pfn.put_bit mask_eq_exp_minus_1\<close>)
  then show "ENTRYLO_PFN_SET r frame AND (ENTRYLO_DIRTY OR ENTRYLO_VALID OR ENTRYLO_GLOBAL) =
      r AND (ENTRYLO_DIRTY OR ENTRYLO_VALID OR ENTRYLO_GLOBAL)"
    by (rule and_low) (simp add: ENTRYLO_DIRTY_def ENTRYLO_VALID_def ENTRYLO_GLOBAL_def)
  show "CAUSE_EXCCODE_GET (CAUSE_EXCCODE_SET r code) = code" using exccode.get_put assms(5) by simp
  show "CAUSE_IP_GET (CAUSE_EXCCODE_SET r code) line = CAUSE_IP_GET r line" if "line < 8" for line
    by (rule pending_above_code [OF assms(5) that])
qed

lemma register_fields_roundtrip_example:
  "ENTRYHI_VPN_GET (ENTRYHI_SEGNO_SET (ENTRYHI_VPN_SET (ENTRYHI_ASID_SET 0x8000001F 5) 0x21234) 3) = 0x21234 \<and>
   CAUSE_IP_GET (CAUSE_EXCCODE_SET 0x80000003 8) 7 = 0x80000000"
proof -
  have "(3 :: u32) < 2 ^ 2" "(0x21234 :: u32) < 2 ^ 18" "(5 :: u32) < 2 ^ 7" "(1 :: u32) < 2 ^ 20" "(8 :: u32) < 2 ^ 24"
    by simp_all
  note w = register_fields_roundtrip [OF this]
  show ?thesis
  proof
    show "ENTRYHI_VPN_GET (ENTRYHI_SEGNO_SET (ENTRYHI_VPN_SET (ENTRYHI_ASID_SET 0x8000001F 5) 0x21234) 3) = 0x21234"
      using w [of "0x8000001F"] by blast
    have "CAUSE_IP_GET (CAUSE_EXCCODE_SET 0x80000003 8) 7 = CAUSE_IP_GET 0x80000003 7"
      using w [of "0x80000003"] by simp
    then show "CAUSE_IP_GET (CAUSE_EXCCODE_SET 0x80000003 8) 7 = 0x80000000" by (simp add: CAUSE_IP_GET_def)
  qed
qed

section \<open>Exceptions\<close>

text \<open>The codes of the simulator (\<open>NOEXCEPTION\<close> to \<open>MODEXCEPTION\<close>) that the hardware writes into Cause.\<close>

datatype uarm_exception = NOEXCEPTION | MEMERROR | BUSERROR | INTEXCEPTION | SYSEXCEPTION | UNDEDEXCEPTION
  | COPROCEXCEPTION | BPEXCEPTION | SEGERROR | PAGEERROR | INVALIDPAGE | PAGENOTFOUND | UTLBLEXCEPTION
  | UTLBSEXCEPTION | TLBLEXCEPTION | TLBSEXCEPTION | ADELEXCEPTION | ADESEXCEPTION | MODEXCEPTION

fun exception_code :: "uarm_exception \<Rightarrow> u32" where
  "exception_code NOEXCEPTION = 0"
| "exception_code MEMERROR = 1"
| "exception_code BUSERROR = 2"
| "exception_code INTEXCEPTION = 3"
| "exception_code SYSEXCEPTION = 4"
| "exception_code UNDEDEXCEPTION = 5"
| "exception_code COPROCEXCEPTION = 6"
| "exception_code BPEXCEPTION = 7"
| "exception_code SEGERROR = 8"
| "exception_code PAGEERROR = 9"
| "exception_code INVALIDPAGE = 10"
| "exception_code PAGENOTFOUND = 11"
| "exception_code UTLBLEXCEPTION = 12"
| "exception_code UTLBSEXCEPTION = 13"
| "exception_code TLBLEXCEPTION = 14"
| "exception_code TLBSEXCEPTION = 15"
| "exception_code ADELEXCEPTION = 16"
| "exception_code ADESEXCEPTION = 17"
| "exception_code MODEXCEPTION = 18"

definition EXC_SYSCALL :: u32 where "EXC_SYSCALL = exception_code SYSEXCEPTION"
definition EXC_BREAKPOINT :: u32 where "EXC_BREAKPOINT = exception_code BPEXCEPTION"
definition EXC_BADPTE :: u32 where "EXC_BADPTE = exception_code INVALIDPAGE"
definition EXC_PTEMISS :: u32 where "EXC_PTEMISS = exception_code PAGENOTFOUND"
definition EXC_BADPAGTBL :: u32 where "EXC_BADPAGTBL = exception_code PAGEERROR"
definition EXC_BADSEGTBL :: u32 where "EXC_BADSEGTBL = exception_code SEGERROR"

lemmas uarm_exc_defs = EXC_SYSCALL_def EXC_BREAKPOINT_def EXC_BADPTE_def EXC_PTEMISS_def EXC_BADPAGTBL_def
  EXC_BADSEGTBL_def

text \<open>The number in a \<open>SWI\<close> instruction.\<close>

definition BIOS_SRV_SWI :: u32 where "BIOS_SRV_SWI = 8"
definition BIOS_SRV_BP :: u32 where "BIOS_SRV_BP = 9"
definition IS_SWI_BP :: "u32 \<Rightarrow> bool" where "IS_SWI_BP instr \<longleftrightarrow> instr AND BIOS_SRV_BP = BIOS_SRV_BP"
definition IS_SWI_SYS :: "u32 \<Rightarrow> bool" where "IS_SWI_SYS instr \<longleftrightarrow> instr AND BIOS_SRV_SWI = BIOS_SRV_SWI"

text \<open>The test for a system call is also true of a breakpoint: the two codes share bit 3.\<close>

lemma swi_tests_overlap: "IS_SWI_BP instr \<Longrightarrow> IS_SWI_SYS instr"
proof -
  assume "IS_SWI_BP instr"
  then have "(instr AND 9) AND 8 = 8" by (simp add: IS_SWI_BP_def BIOS_SRV_BP_def del: and.assoc)
  then show ?thesis by (simp add: IS_SWI_SYS_def BIOS_SRV_SWI_def and.assoc)
qed

text \<open>
  Changing the processor mode as the comments in the header suggest: every mode has bit 4 set, so that
  clearing the low four bits is enough.
\<close>

lemma or_absorb_part: "k AND m = k \<Longrightarrow> (s AND k) OR m = (m :: u32)"
  by (rule bit_word_eqI) (metis bit_and_iff bit_or_iff)

lemma set_mode:
  "mode \<in> {STATUS_USER_MODE, STATUS_SYS_MODE, STATUS_SRV_MODE, STATUS_INT_MODE, STATUS_PGMT_MODE, STATUS_TLB_MODE} \<Longrightarrow>
   ((status AND STATUS_CLEAR_MODE) OR mode) AND 0x1F = mode"
  by (auto simp: uarm_mode_defs and.assoc bit.conj_disj_distrib2 or_absorb_part)

section \<open>Memory map\<close>

definition MMIO_BASE_UARM :: u32 where "MMIO_BASE_UARM = 0x00000040"
definition RAM_BASE_UARM :: u32 where "RAM_BASE_UARM = 0x00008000"
definition KSEGOS_BIOS_BASE_UARM :: u32 where "KSEGOS_BIOS_BASE_UARM = 0x00000300"
definition BUS_REG_RAM_BASE_UARM :: u32 where "BUS_REG_RAM_BASE_UARM = 0x000002D0"
definition BUS_REG_RAM_SIZE_UARM :: u32 where "BUS_REG_RAM_SIZE_UARM = 0x000002D4"
definition BUS_REG_DEV_BASE_UARM :: u32 where "BUS_REG_DEV_BASE_UARM = 0x000002D8"
definition BUS_REG_TOD_HI_UARM :: u32 where "BUS_REG_TOD_HI_UARM = 0x000002DC"
definition BUS_REG_TOD_LO_UARM :: u32 where "BUS_REG_TOD_LO_UARM = 0x000002E0"
definition BUS_REG_TIMER_UARM :: u32 where "BUS_REG_TIMER_UARM = 0x000002E4"
definition BUS_REG_TIME_SCALE_UARM :: u32 where "BUS_REG_TIME_SCALE_UARM = 0x000002E8"
definition CDEV_BITMAP_BASE_UARM :: u32 where "CDEV_BITMAP_BASE_UARM = 0x00006FE0"
definition IDEV_BITMAP_BASE_UARM :: u32 where "IDEV_BITMAP_BASE_UARM = 0x00000020"
definition DEV_REG_START_UARM :: u32 where "DEV_REG_START_UARM = 0x00000040"

definition INT_DEV_VECTOR :: "u32 \<Rightarrow> u32" where
  "INT_DEV_VECTOR il = 0x6FE0 + EXT_IL_INDEX il * 4"

definition RAM_TOP_UARM :: "(u32 \<Rightarrow> u32) \<Rightarrow> u32" where
  "RAM_TOP_UARM mem = mem BUS_REG_RAM_BASE_UARM + mem BUS_REG_RAM_SIZE_UARM"

definition EXCV_BASE_UARM :: u32 where "EXCV_BASE_UARM = 0x00007000"
definition STATE_T_SIZE_UARM :: u32 where "STATE_T_SIZE_UARM = 88"

definition SEGTABLE_START :: u32 where "SEGTABLE_START = 0x00007600"
definition ROMF_EXCVBASE :: u32 where "ROMF_EXCVBASE = 0x00007000"
definition ROMF_EXCVTOP :: u32 where "ROMF_EXCVTOP = 0x00007500"
definition ROMF_SEGTBASE :: u32 where "ROMF_SEGTBASE = 0x00007600"
definition ROMF_SEGTTOP :: u32 where "ROMF_SEGTTOP = 0x00007E00"
definition ROMF_STACKBASE :: u32 where "ROMF_STACKBASE = 0x00007FF0"
definition ROMF_STACKTOP :: u32 where "ROMF_STACKTOP = 0x00008000"
definition MAXASID :: u32 where "MAXASID = 128"
definition PAGE_TBL_MAGICNO :: u32 where "PAGE_TBL_MAGICNO = 0x2A"

lemmas uarm_map_defs = MMIO_BASE_UARM_def RAM_BASE_UARM_def KSEGOS_BIOS_BASE_UARM_def BUS_REG_RAM_BASE_UARM_def
  BUS_REG_RAM_SIZE_UARM_def BUS_REG_DEV_BASE_UARM_def BUS_REG_TOD_HI_UARM_def BUS_REG_TOD_LO_UARM_def
  BUS_REG_TIMER_UARM_def BUS_REG_TIME_SCALE_UARM_def CDEV_BITMAP_BASE_UARM_def IDEV_BITMAP_BASE_UARM_def
  DEV_REG_START_UARM_def EXCV_BASE_UARM_def STATE_T_SIZE_UARM_def
  SEGTABLE_START_def ROMF_EXCVBASE_def ROMF_EXCVTOP_def ROMF_SEGTBASE_def ROMF_SEGTTOP_def ROMF_STACKBASE_def
  ROMF_STACKTOP_def

end
