(* ===== verification/Arch.thy ===== *)
theory Arch
  imports Umps Uarm
begin

text \<open>
  The two machines the kernel is built for, uMPS2 (\<open>include/umps.h\<close>, \<open>umps/*.h\<close>) and uARM
  (\<open>include/uarm.h\<close>, \<open>uarm/*.h\<close>): the constants of the memory map, the processor state
  structures with the macros that read and write them, and the device registers. Where the build
  selects a header by \<open>TARGET_UMPS\<close> or \<open>TARGET_UARM\<close> the model takes the target as an argument
  of type \<open>arch\<close>, so a property holds for both builds unless it names one.

  The theorems relate the address arithmetic of device registers to the interrupt line and the
  device number, and show what the macros do to the control bits of a processor state.
\<close>

datatype arch = UMPS | UARM

instantiation arch :: enum
begin

definition enum_arch :: "arch list" where
  "enum_arch = [UMPS, UARM]"

definition enum_all_arch :: "(arch \<Rightarrow> bool) \<Rightarrow> bool" where
  "enum_all_arch P \<longleftrightarrow> P UMPS \<and> P UARM"

definition enum_ex_arch :: "(arch \<Rightarrow> bool) \<Rightarrow> bool" where
  "enum_ex_arch P \<longleftrightarrow> P UMPS \<or> P UARM"

instance
proof
  show univ: "(UNIV :: arch set) = set enum_class.enum"
    by (auto simp: enum_arch_def) (metis arch.exhaust)
  show "distinct (enum_class.enum :: arch list)"
    by (simp add: enum_arch_def)
  fix P :: "arch \<Rightarrow> bool"
  show "enum_class.enum_all P = Ball UNIV P"
    by (simp add: enum_all_arch_def univ enum_arch_def)
  show "enum_class.enum_ex P = Bex UNIV P"
    by (simp add: enum_ex_arch_def univ enum_arch_def)
qed

end

section \<open>The memory map\<close>

fun CDEV_BITMAP_BASE :: "arch \<Rightarrow> u32" where
  "CDEV_BITMAP_BASE UMPS = CDEV_BITMAP_BASE_UMPS"
| "CDEV_BITMAP_BASE UARM = CDEV_BITMAP_BASE_UARM"

definition CDEV_BITMAP_ADDR :: "arch \<Rightarrow> u32 \<Rightarrow> u32" where
  "CDEV_BITMAP_ADDR a line = CDEV_BITMAP_BASE a + (line - DEV_IL_START) * WORD_SIZE"

definition CDEV_BITMAP_END :: "arch \<Rightarrow> u32" where
  "CDEV_BITMAP_END a = CDEV_BITMAP_BASE a + N_EXT_IL * WORD_SIZE"

fun IDEV_BITMAP_BASE :: "arch \<Rightarrow> u32" where
  "IDEV_BITMAP_BASE UMPS = IDEV_BITMAP_BASE_UMPS"
| "IDEV_BITMAP_BASE UARM = IDEV_BITMAP_BASE_UARM"

definition IDEV_BITMAP_ADDR :: "arch \<Rightarrow> u32 \<Rightarrow> u32" where
  "IDEV_BITMAP_ADDR a line = IDEV_BITMAP_BASE a + (line - DEV_IL_START) * WORD_SIZE"

definition IDEV_BITMAP_END :: "arch \<Rightarrow> u32" where
  "IDEV_BITMAP_END a = IDEV_BITMAP_BASE a + N_EXT_IL * WORD_SIZE"

fun DEV_REG_START :: "arch \<Rightarrow> u32" where
  "DEV_REG_START UMPS = DEV_REG_START_UMPS"
| "DEV_REG_START UARM = DEV_REG_START_UARM"

definition DEV_REG_ADDR :: "arch \<Rightarrow> u32 \<Rightarrow> u32 \<Rightarrow> u32" where
  "DEV_REG_ADDR a line dev =
     DEV_REG_START a + (line - DEV_IL_START) * N_DEV_PER_IL * DEV_REG_SIZE + dev * DEV_REG_SIZE"

definition DEV_REG_END :: "arch \<Rightarrow> u32" where
  "DEV_REG_END a = DEV_REG_START a + N_EXT_IL * N_DEV_PER_IL * DEV_REG_SIZE"

fun TERM_0_ADDR :: "arch \<Rightarrow> u32" where
  "TERM_0_ADDR UMPS = 0x10000250"
| "TERM_0_ADDR UARM = 0x00000240"

definition IS_TERMINAL :: "arch \<Rightarrow> u32 \<Rightarrow> bool" where
  "IS_TERMINAL a device \<longleftrightarrow> TERM_0_ADDR a \<le> device"

fun EXCV_BASE :: "arch \<Rightarrow> u32" where
  "EXCV_BASE UMPS = EXCV_BASE_UMPS"
| "EXCV_BASE UARM = EXCV_BASE_UARM"

fun STATE_T_SIZE :: "arch \<Rightarrow> u32" where
  "STATE_T_SIZE UMPS = STATE_T_SIZE_UMPS"
| "STATE_T_SIZE UARM = STATE_T_SIZE_UARM"

definition INT_OLDAREA :: "arch \<Rightarrow> u32" where "INT_OLDAREA a = EXCV_BASE a"
definition INT_NEWAREA :: "arch \<Rightarrow> u32" where "INT_NEWAREA a = EXCV_BASE a + STATE_T_SIZE a"
definition TLB_OLDAREA :: "arch \<Rightarrow> u32" where "TLB_OLDAREA a = EXCV_BASE a + 2 * STATE_T_SIZE a"
definition TLB_NEWAREA :: "arch \<Rightarrow> u32" where "TLB_NEWAREA a = EXCV_BASE a + 3 * STATE_T_SIZE a"
definition PGMTRAP_OLDAREA :: "arch \<Rightarrow> u32" where
  "PGMTRAP_OLDAREA a = EXCV_BASE a + 4 * STATE_T_SIZE a"
definition PGMTRAP_NEWAREA :: "arch \<Rightarrow> u32" where
  "PGMTRAP_NEWAREA a = EXCV_BASE a + 5 * STATE_T_SIZE a"
definition SYSBK_OLDAREA :: "arch \<Rightarrow> u32" where
  "SYSBK_OLDAREA a = EXCV_BASE a + 6 * STATE_T_SIZE a"
definition SYSBK_NEWAREA :: "arch \<Rightarrow> u32" where
  "SYSBK_NEWAREA a = EXCV_BASE a + 7 * STATE_T_SIZE a"

lemmas area_defs = INT_OLDAREA_def INT_NEWAREA_def TLB_OLDAREA_def TLB_NEWAREA_def
  PGMTRAP_OLDAREA_def PGMTRAP_NEWAREA_def SYSBK_OLDAREA_def SYSBK_NEWAREA_def

text \<open>
  \<open>RAM_TOP\<close> reads the bus registers: on uMPS the RAM size is added to the constant base, on uARM
  base and size are both read.
\<close>

fun RAM_TOP :: "arch \<Rightarrow> (u32 \<Rightarrow> u32) \<Rightarrow> u32" where
  "RAM_TOP UMPS mem = RAM_TOP_UMPS mem"
| "RAM_TOP UARM mem = RAM_TOP_UARM mem"

fun BUS_REG_TIME_SCALE :: "arch \<Rightarrow> u32" where
  "BUS_REG_TIME_SCALE UMPS = BUS_REG_TIME_SCALE_UMPS"
| "BUS_REG_TIME_SCALE UARM = BUS_REG_TIME_SCALE_UARM"

definition FRAME_SIZE :: u32 where "FRAME_SIZE = 4096"

text \<open>In the kernel's proofs the bases of the memory map are their numbers.\<close>

lemmas map_values [simp] = CDEV_BITMAP_BASE_UMPS_def CDEV_BITMAP_BASE_UARM_def IDEV_BITMAP_BASE_UMPS_def
  IDEV_BITMAP_BASE_UARM_def DEV_REG_START_UMPS_def DEV_REG_START_UARM_def EXCV_BASE_UMPS_def EXCV_BASE_UARM_def
  STATE_T_SIZE_UMPS_def STATE_T_SIZE_UARM_def BUS_REG_TIME_SCALE_UMPS_def BUS_REG_TIME_SCALE_UARM_def

section \<open>Processor states\<close>

record umps_state =
  um_entry_hi :: u32
  um_cause :: u32
  um_status :: u32
  um_pc_epc :: u32
  um_gpr :: "u32 list"
  um_hi :: u32
  um_lo :: u32

record uarm_state =
  ua_a1 :: u32
  ua_a2 :: u32
  ua_a3 :: u32
  ua_a4 :: u32
  ua_v1 :: u32
  ua_v2 :: u32
  ua_v3 :: u32
  ua_v4 :: u32
  ua_v5 :: u32
  ua_v6 :: u32
  ua_sl :: u32
  ua_fp :: u32
  ua_ip :: u32
  ua_sp :: u32
  ua_lr :: u32
  ua_pc :: u32
  ua_cpsr :: u32
  ua_CP15_Control :: u32
  ua_CP15_EntryHi :: u32
  ua_CP15_Cause :: u32
  ua_TOD_Hi :: u32
  ua_TOD_Low :: u32

datatype state_t = UmpsState umps_state | UarmState uarm_state

fun arch_of :: "state_t \<Rightarrow> arch" where
  "arch_of (UmpsState _) = UMPS"
| "arch_of (UarmState _) = UARM"

definition STATE_GPR_LEN :: nat where "STATE_GPR_LEN = 29"

text \<open>The array \<open>gpr\<close> has its declared length: the only shape a uMPS state has in C.\<close>

fun wf_state :: "state_t \<Rightarrow> bool" where
  "wf_state (UmpsState s) = (length (um_gpr s) = STATE_GPR_LEN)"
| "wf_state (UarmState _) = True"

text \<open>\<open>memset(&state, 0, sizeof(state_t))\<close>.\<close>

fun zero_state :: "state_t \<Rightarrow> state_t" where
  "zero_state (UmpsState _) = UmpsState \<lparr>um_entry_hi = 0, um_cause = 0, um_status = 0,
     um_pc_epc = 0, um_gpr = replicate STATE_GPR_LEN 0, um_hi = 0, um_lo = 0\<rparr>"
| "zero_state (UarmState _) = UarmState \<lparr>ua_a1 = 0, ua_a2 = 0, ua_a3 = 0, ua_a4 = 0,
     ua_v1 = 0, ua_v2 = 0, ua_v3 = 0, ua_v4 = 0, ua_v5 = 0, ua_v6 = 0, ua_sl = 0, ua_fp = 0,
     ua_ip = 0, ua_sp = 0, ua_lr = 0, ua_pc = 0, ua_cpsr = 0, ua_CP15_Control = 0,
     ua_CP15_EntryHi = 0, ua_CP15_Cause = 0, ua_TOD_Hi = 0, ua_TOD_Low = 0\<rparr>"

fun STATUS :: "state_t \<Rightarrow> u32" where
  "STATUS (UmpsState s) = um_status s"
| "STATUS (UarmState s) = ua_cpsr s"

fun set_STATUS :: "u32 \<Rightarrow> state_t \<Rightarrow> state_t" where
  "set_STATUS v (UmpsState s) = UmpsState (s\<lparr>um_status := v\<rparr>)"
| "set_STATUS v (UarmState s) = UarmState (s\<lparr>ua_cpsr := v\<rparr>)"

fun PC :: "state_t \<Rightarrow> u32" where
  "PC (UmpsState s) = um_pc_epc s"
| "PC (UarmState s) = ua_pc s"

fun set_PC :: "u32 \<Rightarrow> state_t \<Rightarrow> state_t" where
  "set_PC v (UmpsState s) = UmpsState (s\<lparr>um_pc_epc := v\<rparr>)"
| "set_PC v (UarmState s) = UarmState (s\<lparr>ua_pc := v\<rparr>)"

fun SP :: "state_t \<Rightarrow> u32" where
  "SP (UmpsState s) = um_gpr s ! 26"
| "SP (UarmState s) = ua_sp s"

fun set_SP :: "u32 \<Rightarrow> state_t \<Rightarrow> state_t" where
  "set_SP v (UmpsState s) = UmpsState (s\<lparr>um_gpr := (um_gpr s)[26 := v]\<rparr>)"
| "set_SP v (UarmState s) = UarmState (s\<lparr>ua_sp := v\<rparr>)"

fun VM :: "state_t \<Rightarrow> u32" where
  "VM (UmpsState s) = um_status s"
| "VM (UarmState s) = ua_CP15_Control s"

fun set_VM :: "u32 \<Rightarrow> state_t \<Rightarrow> state_t" where
  "set_VM v (UmpsState s) = UmpsState (s\<lparr>um_status := v\<rparr>)"
| "set_VM v (UarmState s) = UarmState (s\<lparr>ua_CP15_Control := v\<rparr>)"

definition VM_ON :: "arch \<Rightarrow> u32" where
  "VM_ON a = (case a of UMPS \<Rightarrow> STATUS_VMc | UARM \<Rightarrow> CP15_VM_ON)"

definition VM_OFF :: "arch \<Rightarrow> u32" where
  "VM_OFF a = NOT (VM_ON a)"

fun KERNEL_MODE :: "state_t \<Rightarrow> u32" where
  "KERNEL_MODE (UmpsState s) = um_status s AND NOT STATUS_KUc"
| "KERNEL_MODE (UarmState s) = ua_cpsr s OR STATUS_SYS_MODE"

fun USER_MODE :: "state_t \<Rightarrow> u32" where
  "USER_MODE (UmpsState s) = um_status s OR STATUS_KUc"
| "USER_MODE (UarmState s) = ua_cpsr s OR STATUS_USER_MODE"

fun ALL_INT_ENABLE :: "state_t \<Rightarrow> u32" where
  "ALL_INT_ENABLE (UmpsState s) = um_status s OR STATUS_IM_MASK OR STATUS_IEp"
| "ALL_INT_ENABLE (UarmState s) = STATUS_ALL_INT_ENABLE (ua_cpsr s)"

fun ALL_INT_DISABLE :: "state_t \<Rightarrow> u32" where
  "ALL_INT_DISABLE (UmpsState s) = um_status s AND NOT STATUS_IEp"
| "ALL_INT_DISABLE (UarmState s) = STATUS_ALL_INT_DISABLE (ua_cpsr s)"

fun CAUSE :: "state_t \<Rightarrow> u32" where
  "CAUSE (UmpsState s) = um_cause s"
| "CAUSE (UarmState s) = ua_CP15_Cause s"

fun CAUSE_EXC :: "state_t \<Rightarrow> u32" where
  "CAUSE_EXC (UmpsState s) = CAUSE_GET_EXCCODE (um_cause s)"
| "CAUSE_EXC (UarmState s) = CAUSE_EXCCODE_GET (ua_CP15_Cause s)"

definition CAUSE_SYSCALL :: "arch \<Rightarrow> u32" where
  "CAUSE_SYSCALL a = (case a of UMPS \<Rightarrow> exc_code EXC_SYS | UARM \<Rightarrow> EXC_SYSCALL)"

definition CAUSE_BREAKPOINT :: "arch \<Rightarrow> u32" where
  "CAUSE_BREAKPOINT a = (case a of UMPS \<Rightarrow> exc_code EXC_BP | UARM \<Rightarrow> EXC_BREAKPOINT)"

definition INT_IS_PENDING :: "arch \<Rightarrow> u32 \<Rightarrow> u32 \<Rightarrow> bool" where
  "INT_IS_PENDING a cause line =
     (case a of UMPS \<Rightarrow> cause AND CAUSE_IP line \<noteq> 0 | UARM \<Rightarrow> CAUSE_IP_GET cause line \<noteq> 0)"

lemmas pending_defs = INT_IS_PENDING_def CAUSE_IP_def CAUSE_IP_GET_def

fun SYSARG0 :: "state_t \<Rightarrow> u32" where
  "SYSARG0 (UmpsState s) = um_gpr s ! 3"
| "SYSARG0 (UarmState s) = ua_a1 s"

fun SYSARG1 :: "state_t \<Rightarrow> u32" where
  "SYSARG1 (UmpsState s) = um_gpr s ! 4"
| "SYSARG1 (UarmState s) = ua_a2 s"

fun SYSARG2 :: "state_t \<Rightarrow> u32" where
  "SYSARG2 (UmpsState s) = um_gpr s ! 5"
| "SYSARG2 (UarmState s) = ua_a3 s"

fun SYSARG3 :: "state_t \<Rightarrow> u32" where
  "SYSARG3 (UmpsState s) = um_gpr s ! 6"
| "SYSARG3 (UarmState s) = ua_a4 s"

fun SYSRETURN :: "state_t \<Rightarrow> u32" where
  "SYSRETURN (UmpsState s) = um_gpr s ! 1"
| "SYSRETURN (UarmState s) = ua_a1 s"

fun set_SYSRETURN :: "u32 \<Rightarrow> state_t \<Rightarrow> state_t" where
  "set_SYSRETURN v (UmpsState s) = UmpsState (s\<lparr>um_gpr := (um_gpr s)[1 := v]\<rparr>)"
| "set_SYSRETURN v (UarmState s) = UarmState (s\<lparr>ua_a1 := v\<rparr>)"

section \<open>Device registers\<close>

text \<open>
  The union \<open>devreg_t\<close>: four words, read as \<open>status\<close>, \<open>command\<close>, \<open>data0\<close>, \<open>data1\<close> of a
  disk, tape, network adapter or printer, and as \<open>recv_status\<close>, \<open>recv_command\<close>,
  \<open>transm_status\<close>, \<open>transm_command\<close> of a terminal.
\<close>

record devreg_t =
  dtp_status :: u32
  dtp_command :: u32
  dtp_data0 :: u32
  dtp_data1 :: u32

abbreviation "recv_status \<equiv> dtp_status"
abbreviation "recv_command \<equiv> dtp_command"
abbreviation "transm_status \<equiv> dtp_data0"
abbreviation "transm_command \<equiv> dtp_data1"

definition CMD_ACK :: u32 where "CMD_ACK = 1"
definition ST_READY :: u32 where "ST_READY = 1"
definition ST_BUSY :: u32 where "ST_BUSY = 3"
definition CMD_TRANSMIT :: u32 where "CMD_TRANSMIT = 2"
definition CMD_RECEIVE :: u32 where "CMD_RECEIVE = CMD_TRANSMIT"
definition CHAR_OFFSET :: nat where "CHAR_OFFSET = 8"
definition TERM_STATUS_MASK :: u32 where "TERM_STATUS_MASK = 0xFF"
definition ST_TRANSMITTED :: u32 where "ST_TRANSMITTED = 5"
definition ST_RECEIVED :: u32 where "ST_RECEIVED = ST_TRANSMITTED"

lemmas term_defs = CMD_ACK_def ST_READY_def ST_BUSY_def CMD_TRANSMIT_def CMD_RECEIVE_def CHAR_OFFSET_def
  TERM_STATUS_MASK_def ST_TRANSMITTED_def ST_RECEIVED_def

definition TX_STATUS :: "devreg_t \<Rightarrow> u32" where
  "TX_STATUS t = transm_status t AND TERM_STATUS_MASK"

definition RX_STATUS :: "devreg_t \<Rightarrow> u32" where
  "RX_STATUS t = recv_status t AND TERM_STATUS_MASK"

text \<open>On uARM the macro \<open>USER_MODE\<close> only adds bits: a state in system mode stays in it.\<close>

lemma user_mode_keeps_system:
  assumes "ua_cpsr s AND 0x1F = STATUS_SYS_MODE"
  shows "USER_MODE (UarmState s) = ua_cpsr s"
proof -
  have "bit (ua_cpsr s) 4" using arg_cong [where f = "\<lambda>w. bit w 4", OF assms] by (simp add: STATUS_SYS_MODE_def bit_and_iff)
  then have "set_bit 4 (ua_cpsr s) = ua_cpsr s" by (intro bit_word_eqI) (auto simp: bit_set_bit_iff)
  then show ?thesis by (simp add: STATUS_USER_MODE_def set_bit_eq_or)
qed

end
