(* ===== verification/Pcb.thy ===== *)
theory Pcb
  imports ListX Arch
begin

text \<open>
  \<open>src/pcb.c\<close> with \<open>include/types.h\<close>: the table of process control blocks, its free list, the
  priority queues of processes and the tree of processes.

  The static tables are the record \<open>store\<close>: the cells of every intrusive list, and the other
  members of the entries of \<open>pcbTable\<close> and \<open>semdTable\<close> by index. A \<open>pcb_t *\<close> is \<open>NULL\<close> or
  names an index; an index outside the table is a wild pointer, and following it is \<open>None\<close>.

  The lemmas give each operation's effect on the lists \<open>queue_at\<close> and \<open>children_at\<close>, with a
  frame; the locale \<open>prio_queue\<close> is the contract that the semaphore lists and the scheduler rely
  on, and it is interpreted on \<open>pcb_insert_in_queue\<close> and \<open>pcb_remove_from_queue\<close>.
\<close>

section \<open>Data\<close>

datatype ptr = Null | Ptr nat

type_synonym pcb_ptr = ptr
type_synonym semd_ptr = ptr

record pcb_t =
  p_parent :: pcb_ptr
  p_s :: state_t
  priority :: s32
  original_priority :: s32
  p_semkey :: u32
  start_tm :: u64
  user_tm :: u64
  kernel_tm :: u64
  exc_new_areas :: "u32 list"
  exc_old_areas :: "u32 list"

record semd_t =
  s_key :: u32

record store =
  cells :: cells
  pcbTable :: "nat \<Rightarrow> pcb_t"
  semdTable :: "nat \<Rightarrow> semd_t"

definition deref :: "ptr \<Rightarrow> nat option" where
  "deref p = (case p of Null \<Rightarrow> None | Ptr i \<Rightarrow> if i < MAXPROC then Some i else None)"

fun p_next :: "pcb_ptr \<Rightarrow> node" where
  "p_next Null = NodeNull"
| "p_next (Ptr i) = P_next i"

fun p_child :: "pcb_ptr \<Rightarrow> node" where
  "p_child Null = NodeNull"
| "p_child (Ptr i) = P_child i"

fun p_sib :: "pcb_ptr \<Rightarrow> node" where
  "p_sib Null = NodeNull"
| "p_sib (Ptr i) = P_sib i"

text \<open>
  \<open>container_of\<close> for the members of \<open>pcb_t\<close>. \<open>p_next\<close> is the first member, so \<open>NULL\<close> goes to
  \<open>NULL\<close>. A cell of another kind has no such container: the C pointer is garbage.
\<close>

fun container_of_p_next :: "node \<Rightarrow> pcb_ptr option" where
  "container_of_p_next (P_next i) = Some (Ptr i)"
| "container_of_p_next NodeNull = Some Null"
| "container_of_p_next _ = None"

fun container_of_p_sib :: "node \<Rightarrow> pcb_ptr option" where
  "container_of_p_sib (P_sib i) = Some (Ptr i)"
| "container_of_p_sib _ = None"

definition on_cells :: "(cells \<Rightarrow> cells option) \<Rightarrow> store \<Rightarrow> store option" where
  "on_cells f s = do { h \<leftarrow> f (cells s); Some (s\<lparr>cells := h\<rparr>) }"

definition upd_pcb :: "pcb_ptr \<Rightarrow> (pcb_t \<Rightarrow> pcb_t) \<Rightarrow> store \<Rightarrow> store option" where
  "upd_pcb p f s = do {
     i \<leftarrow> deref p;
     Some (s\<lparr>pcbTable := (pcbTable s)(i := f (pcbTable s i))\<rparr>) }"

definition get_pcb :: "pcb_ptr \<Rightarrow> store \<Rightarrow> pcb_t option" where
  "get_pcb p s = do { i \<leftarrow> deref p; Some (pcbTable s i) }"

text \<open>
  The tables as the loader leaves them: everything zero but the four static list heads, which
  \<open>LIST_HEAD\<close> initialises to empty lists.
\<close>

definition bss_state :: "arch \<Rightarrow> state_t" where
  "bss_state ar = (case ar of
     UMPS \<Rightarrow> UmpsState \<lparr>um_entry_hi = 0, um_cause = 0, um_status = 0, um_pc_epc = 0,
       um_gpr = replicate STATE_GPR_LEN 0, um_hi = 0, um_lo = 0\<rparr>
   | UARM \<Rightarrow> UarmState \<lparr>ua_a1 = 0, ua_a2 = 0, ua_a3 = 0, ua_a4 = 0, ua_v1 = 0, ua_v2 = 0, ua_v3 = 0,
       ua_v4 = 0, ua_v5 = 0, ua_v6 = 0, ua_sl = 0, ua_fp = 0, ua_ip = 0, ua_sp = 0, ua_lr = 0,
       ua_pc = 0, ua_cpsr = 0, ua_CP15_Control = 0, ua_CP15_EntryHi = 0, ua_CP15_Cause = 0,
       ua_TOD_Hi = 0, ua_TOD_Low = 0\<rparr>)"

definition static_store :: "arch \<Rightarrow> store" where
  "static_store ar =
     \<lparr>cells = (\<lambda>n. if n \<in> {PcbFree, SemdFree, Asl, ReadyQueue} then LIST_HEAD_INIT n
                  else \<lparr>lnext = NodeNull, lprev = NodeNull\<rparr>),
      pcbTable = (\<lambda>_. \<lparr>p_parent = Null, p_s = bss_state ar, priority = 0, original_priority = 0,
        p_semkey = 0, start_tm = 0, user_tm = 0, kernel_tm = 0,
        exc_new_areas = [0, 0, 0], exc_old_areas = [0, 0, 0]\<rparr>),
      semdTable = (\<lambda>_. \<lparr>s_key = 0\<rparr>)\<rparr>"

lemma static_heads:
  "is_list (cells (static_store ar)) PcbFree []" "is_list (cells (static_store ar)) SemdFree []"
  "is_list (cells (static_store ar)) Asl []" "is_list (cells (static_store ar)) ReadyQueue []"
  by (simp_all add: static_store_def is_list_def LIST_HEAD_INIT_def)

section \<open>The free list\<close>

definition pcb_init :: "store \<Rightarrow> store option" where
  "pcb_init s = for_each [0..<MAXPROC] (\<lambda>i. on_cells (list_add (P_next i) PcbFree)) s"

definition pcb_free :: "pcb_ptr \<Rightarrow> store \<Rightarrow> store option" where
  "pcb_free p s = on_cells (list_add (p_next p) PcbFree) s"

text \<open>\<open>memset(pcb, 0, sizeof(pcb_t))\<close>: the members, and the three cells.\<close>

definition zero_pcb :: "pcb_t \<Rightarrow> pcb_t" where
  "zero_pcb p = \<lparr>p_parent = Null, p_s = zero_state (p_s p), priority = 0, original_priority = 0,
     p_semkey = 0, start_tm = 0, user_tm = 0, kernel_tm = 0,
     exc_new_areas = [0, 0, 0], exc_old_areas = [0, 0, 0]\<rparr>"

definition memset_pcb :: "pcb_ptr \<Rightarrow> store \<Rightarrow> store option" where
  "memset_pcb p s = do {
     i \<leftarrow> deref p;
     Some (s\<lparr>cells := (cells s)(P_next i := \<lparr>lnext = NodeNull, lprev = NodeNull\<rparr>,
                P_child i := \<lparr>lnext = NodeNull, lprev = NodeNull\<rparr>,
                P_sib i := \<lparr>lnext = NodeNull, lprev = NodeNull\<rparr>),
             pcbTable := (pcbTable s)(i := zero_pcb (pcbTable s i))\<rparr>) }"

definition pcb_alloc :: "store \<Rightarrow> (pcb_ptr \<times> store) option" where
  "pcb_alloc s = do {
     nxt \<leftarrow> list_next PcbFree (cells s);
     if nxt = NodeNull then Some (Null, s)
     else do {
       s \<leftarrow> on_cells (list_del nxt) s;
       pcb \<leftarrow> container_of_p_next nxt;
       s \<leftarrow> memset_pcb pcb s;
       s \<leftarrow> on_cells (INIT_LIST_HEAD (p_child pcb)) s;
       s \<leftarrow> on_cells (INIT_LIST_HEAD (p_next pcb)) s;
       s \<leftarrow> on_cells (INIT_LIST_HEAD (p_sib pcb)) s;
       Some (pcb, s) } }"

section \<open>Queues\<close>

definition pcb_make_empty_queue :: "node \<Rightarrow> store \<Rightarrow> store option" where
  "pcb_make_empty_queue head s = on_cells (INIT_LIST_HEAD head) s"

definition pcb_is_queue_empty :: "node \<Rightarrow> store \<Rightarrow> bool option" where
  "pcb_is_queue_empty head s = list_empty head (cells s)"

definition pcb_insert_in_queue :: "node \<Rightarrow> pcb_ptr \<Rightarrow> store \<Rightarrow> store option" where
  "pcb_insert_in_queue head p s = do {
     e \<leftarrow> pcb_is_queue_empty head s;
     if e then on_cells (list_add_tail (p_next p) head) s
     else do {
       it \<leftarrow> list_find (\<lambda>n. do {
           q \<leftarrow> container_of_p_next n;
           it \<leftarrow> get_pcb q s;
           new \<leftarrow> get_pcb p s;
           Some (sint (priority it) < sint (priority new)) }) head (cells s);
       if it \<noteq> NodeNull then on_cells (list_add_tail (p_next p) it) s
       else on_cells (list_add_tail (p_next p) head) s } }"

definition pcb_queue_head :: "node \<Rightarrow> store \<Rightarrow> pcb_ptr option" where
  "pcb_queue_head head s = do {
     e \<leftarrow> list_empty head (cells s);
     if e then Some Null
     else do {
       n \<leftarrow> list_next head (cells s);
       container_of_p_next n } }"

definition pcb_remove_from_queue :: "node \<Rightarrow> store \<Rightarrow> (pcb_ptr \<times> store) option" where
  "pcb_remove_from_queue head s = do {
     pcb \<leftarrow> pcb_queue_head head s;
     if pcb = Null then Some (Null, s)
     else do {
       s \<leftarrow> on_cells (list_del (p_next pcb)) s;
       Some (pcb, s) } }"

definition pcb_is_free :: "pcb_ptr \<Rightarrow> store \<Rightarrow> bool option" where
  "pcb_is_free p s = do {
     it \<leftarrow> list_find (\<lambda>n. do { q \<leftarrow> container_of_p_next n; Some (q = p) }) PcbFree (cells s);
     Some (it \<noteq> NodeNull) }"

definition pcb_find_and_remove :: "node \<Rightarrow> pcb_ptr \<Rightarrow> store \<Rightarrow> (pcb_ptr \<times> store) option" where
  "pcb_find_and_remove head p s = do {
     it \<leftarrow> list_find (\<lambda>n. do { q \<leftarrow> container_of_p_next n; Some (q = p) }) head (cells s);
     if it \<noteq> NodeNull then do {
       s \<leftarrow> on_cells (list_del (p_next p)) s;
       Some (p, s) }
     else Some (Null, s) }"

section \<open>The tree\<close>

definition pcb_has_no_children :: "pcb_ptr \<Rightarrow> store \<Rightarrow> bool option" where
  "pcb_has_no_children this s = list_empty (p_child this) (cells s)"

definition pcb_insert_child :: "pcb_ptr \<Rightarrow> pcb_ptr \<Rightarrow> store \<Rightarrow> store option" where
  "pcb_insert_child parent p s = do {
     s \<leftarrow> on_cells (list_add_tail (p_sib p) (p_child parent)) s;
     upd_pcb p (\<lambda>q. q\<lparr>p_parent := parent\<rparr>) s }"

definition pcb_remove_child :: "pcb_ptr \<Rightarrow> store \<Rightarrow> (pcb_ptr \<times> store) option" where
  "pcb_remove_child p s = do {
     e \<leftarrow> list_empty (p_child p) (cells s);
     if e then Some (Null, s)
     else do {
       child \<leftarrow> list_next (p_child p) (cells s);
       pcb \<leftarrow> container_of_p_sib child;
       s \<leftarrow> on_cells (list_del child) s;
       s \<leftarrow> upd_pcb pcb (\<lambda>q. q\<lparr>p_parent := Null\<rparr>) s;
       Some (pcb, s) } }"

definition pcb_find_and_remove_child :: "pcb_ptr \<Rightarrow> store \<Rightarrow> (pcb_ptr \<times> store) option" where
  "pcb_find_and_remove_child p s = do {
     b \<leftarrow> get_pcb p s;
     if p_parent b = Null then Some (Null, s)
     else do {
       s \<leftarrow> on_cells (list_del (p_sib p)) s;
       s \<leftarrow> upd_pcb p (\<lambda>q. q\<lparr>p_parent := Null\<rparr>) s;
       Some (p, s) } }"

section \<open>Abstraction and frames\<close>

abbreviation queue_at :: "store \<Rightarrow> node \<Rightarrow> nat list \<Rightarrow> bool" where
  "queue_at s head ps \<equiv> is_list (cells s) head (map P_next ps)"

abbreviation children_at :: "store \<Rightarrow> nat \<Rightarrow> nat list \<Rightarrow> bool" where
  "children_at s p cs \<equiv> is_list (cells s) (P_child p) (map P_sib cs)"

fun is_queue_head :: "node \<Rightarrow> bool" where
  "is_queue_head PcbFree = True"
| "is_queue_head ReadyQueue = True"
| "is_queue_head (S_procQ i) = True"
| "is_queue_head _ = False"

definition prio :: "store \<Rightarrow> nat \<Rightarrow> int" where
  "prio s p = sint (priority (pcbTable s p))"

text \<open>
  What \<open>pcb_insert_in_queue\<close> promises (\<open>include/pcb.h\<close>): the new process comes after every
  process of at least its priority and before the first one of a lower priority.
\<close>

definition prio_insert :: "('a \<Rightarrow> int) \<Rightarrow> 'a \<Rightarrow> 'a list \<Rightarrow> 'a list" where
  "prio_insert f p ps = takeWhile (\<lambda>q. f p \<le> f q) ps @ p # dropWhile (\<lambda>q. f p \<le> f q) ps"

text \<open>\<open>frame N s s'\<close>: from \<open>s\<close> to \<open>s'\<close> only the cells in \<open>N\<close> may have changed.\<close>

definition frame :: "node set \<Rightarrow> store \<Rightarrow> store \<Rightarrow> bool" where
  "frame N s s' \<longleftrightarrow> (\<forall>n. n \<notin> N \<longrightarrow> cells s' n = cells s n) \<and>
     pcbTable s' = pcbTable s \<and> semdTable s' = semdTable s"

lemma frameD [dest]:
  assumes "frame N s s'"
  shows "n \<notin> N \<Longrightarrow> cells s' n = cells s n" "pcbTable s' = pcbTable s" "semdTable s' = semdTable s"
  using assms by (auto simp: frame_def)

lemma frame_trans: "frame N s s' \<Longrightarrow> frame M s' s'' \<Longrightarrow> frame (N \<union> M) s s''"
  by (auto simp: frame_def)

lemma frame_mono: "frame N s s' \<Longrightarrow> N \<subseteq> M \<Longrightarrow> frame M s s'"
  by (auto simp: frame_def)

lemma prio_frame: "frame N s s' \<Longrightarrow> prio s' = prio s"
  by (auto simp: frame_def prio_def fun_eq_iff)

lemma set_prio_insert [simp]: "set (prio_insert f p ps) = insert p (set ps)"
proof -
  have "set ps = set (takeWhile (\<lambda>q. f p \<le> f q) ps @ dropWhile (\<lambda>q. f p \<le> f q) ps)"
    by simp
  then show ?thesis unfolding prio_insert_def set_append by auto
qed

lemma mset_prio_insert [simp]: "mset (prio_insert f p ps) = add_mset p (mset ps)"
proof -
  have "mset ps = mset (takeWhile (\<lambda>q. f p \<le> f q) ps @ dropWhile (\<lambda>q. f p \<le> f q) ps)"
    by simp
  then show ?thesis unfolding prio_insert_def mset_append by simp
qed

lemma prio_dropWhile_less:
  assumes "sorted_wrt (\<lambda>a b. f b \<le> f a) ps" and "z \<in> set (dropWhile (\<lambda>q. f p \<le> f q) ps)"
  shows "f z < (f p :: int)"
  using assms by (induction ps) (auto split: if_splits)

lemma prio_insert_sorted:
  assumes "sorted_wrt (\<lambda>a b. f b \<le> f a) ps"
  shows "sorted_wrt (\<lambda>a b. f b \<le> f a) (prio_insert f p ps)"
  unfolding prio_insert_def
proof (rule sorted_wrt_insert)
  show "sorted_wrt (\<lambda>a b. f b \<le> f a)
      (takeWhile (\<lambda>q. f p \<le> f q) ps @ dropWhile (\<lambda>q. f p \<le> f q) ps)"
    using assms by simp
  show "\<forall>x\<in>set (takeWhile (\<lambda>q. f p \<le> f q) ps). f p \<le> f x"
    by (auto dest: set_takeWhileD)
  show "\<forall>z\<in>set (dropWhile (\<lambda>q. f p \<le> f q) ps). f z \<le> f p"
    using prio_dropWhile_less [OF assms] by (auto intro: less_imp_le)
qed

text \<open>Processes of one priority keep their order, and the new one is the last of its own.\<close>

lemma prio_insert_stable:
  assumes "sorted_wrt (\<lambda>a b. f b \<le> f a) ps"
  shows "filter (\<lambda>q. f q = k) (prio_insert f p ps) =
    filter (\<lambda>q. f q = k) ps @ (if f p = k then [p] else [])"
proof -
  let ?t = "takeWhile (\<lambda>q. f p \<le> f q) ps" and ?d = "dropWhile (\<lambda>q. f p \<le> f q) ps"
  have "filter (\<lambda>q. f q = k) ps = filter (\<lambda>q. f q = k) (?t @ ?d)" by simp
  moreover have "f p = k \<Longrightarrow> filter (\<lambda>q. f q = k) ?d = []"
    using prio_dropWhile_less [OF assms] by (fastforce simp: filter_empty_conv)
  ultimately show ?thesis by (auto simp: prio_insert_def simp del: takeWhile_dropWhile_id)
qed

section \<open>Queue operations\<close>

lemma inj_P_next [simp]: "inj P_next" and inj_P_sib [simp]: "inj P_sib"
  by (auto intro: injI)

lemma queue_atD:
  assumes "queue_at s head ps"
  shows "distinct ps" "\<And>p. p \<in> set ps \<Longrightarrow> p < MAXPROC" "valid_node head"
proof -
  show "distinct ps" using is_listD(1) [OF assms] by (simp add: distinct_map)
  show "p < MAXPROC" if "p \<in> set ps" for p using is_listD(4) [OF assms, of "P_next p"] that by simp
  show "valid_node head" using is_listD(3) [OF assms] .
qed

lemma head_not_elem: "is_queue_head head \<Longrightarrow> head \<noteq> P_next p" "is_queue_head head \<Longrightarrow> head \<noteq> NodeNull"
  by auto

lemma on_cells_frame:
  assumes "f (cells s) = Some h" and "\<forall>n. n \<notin> N \<longrightarrow> h n = cells s n"
  shows "on_cells f s = Some (s\<lparr>cells := h\<rparr>) \<and> frame N s (s\<lparr>cells := h\<rparr>)"
  using assms by (simp add: on_cells_def frame_def)

lemma queue_find:
  assumes "queue_at s head ps" and "\<And>q. q \<in> set ps \<Longrightarrow> P (P_next q) = Some (Q q)"
  shows "list_find P head (cells s) =
    Some (case find Q ps of None \<Rightarrow> NodeNull | Some q \<Rightarrow> P_next q)"
proof -
  let ?Q = "\<lambda>n. Q (case n of P_next q \<Rightarrow> q | _ \<Rightarrow> 0)"
  have "list_find P head (cells s) =
      Some (case find ?Q (map P_next ps) of None \<Rightarrow> NodeNull | Some n \<Rightarrow> n)"
    using assms by (intro list_find_is_list) auto
  then show ?thesis by (cases "find Q ps") (simp_all add: find_map comp_def)
qed

lemma pcb_insert_in_queue_spec:
  assumes q: "queue_at s head ps" and hd: "is_queue_head head" and p: "p < MAXPROC" "p \<notin> set ps"
  shows "\<exists>s'. pcb_insert_in_queue head (Ptr p) s = Some s' \<and>
    queue_at s' head (prio_insert (prio s) p ps) \<and> frame (set (head # map P_next (p # ps))) s s'"
proof -
  define t where "t = takeWhile (\<lambda>q. prio s p \<le> prio s q) ps"
  define d where "d = dropWhile (\<lambda>q. prio s p \<le> prio s q) ps"
  have td: "ps = t @ d" by (simp add: t_def d_def)
  have q': "is_list (cells s) head (map P_next t @ map P_next d)"
    using q by (simp add: td)
  have fresh: "P_next p \<notin> set (head # map P_next t @ map P_next d)"
    using head_not_elem(1) [OF hd] p(2) by (auto simp: td)
  obtain h where h: "list_add_tail (P_next p) (List.hd (map P_next d @ [head])) (cells s) = Some h"
      "is_list h head (map P_next t @ P_next p # map P_next d)"
      "\<forall>n. n \<notin> set (P_next p # head # map P_next t @ map P_next d) \<longrightarrow> h n = cells s n"
    using list_add_before [OF q' _ fresh] p(1) by auto
  have fr: "\<forall>n. n \<notin> set (head # map P_next (p # ps)) \<longrightarrow> h n = cells s n"
    using h(3) by (auto simp: td)
  have find: "list_find (\<lambda>n. do { q \<leftarrow> container_of_p_next n; it \<leftarrow> get_pcb q s; new \<leftarrow> get_pcb (Ptr p) s;
        Some (sint (priority it) < sint (priority new)) }) head (cells s) =
      Some (case find (\<lambda>q. prio s q < prio s p) ps of None \<Rightarrow> NodeNull | Some q \<Rightarrow> P_next q)"
    using queue_atD(2) [OF q] p(1)
    by (intro queue_find [OF q]) (simp add: get_pcb_def deref_def prio_def)
  have "pcb_insert_in_queue head (Ptr p) s = on_cells (list_add_tail (P_next p) (List.hd (map P_next d @ [head]))) s"
  proof -
    have "find (\<lambda>q. prio s q < prio s p) ps = (case d of [] \<Rightarrow> None | x # _ \<Rightarrow> Some x)"
      by (simp add: find_dropWhile not_less d_def)
    moreover have "list_empty head (cells s) = Some (ps = [])" "ps = [] \<Longrightarrow> d = []"
      using list_empty_is_list [OF q] td by auto
    ultimately show ?thesis
      using find by (cases d) (auto simp: pcb_insert_in_queue_def pcb_is_queue_empty_def)
  qed
  then have "pcb_insert_in_queue head (Ptr p) s = Some (s\<lparr>cells := h\<rparr>) \<and>
      frame (set (head # map P_next (p # ps))) s (s\<lparr>cells := h\<rparr>)"
    using on_cells_frame [of "list_add_tail (P_next p) (List.hd (map P_next d @ [head]))" s h,
        OF h(1) fr] by simp
  then show ?thesis using h(2) by (auto simp: prio_insert_def simp flip: t_def d_def)
qed

lemma pcb_queue_head_spec:
  "queue_at s head ps \<Longrightarrow> pcb_queue_head head s = Some (case ps of [] \<Rightarrow> Null | p # _ \<Rightarrow> Ptr p)"
  by (auto simp: pcb_queue_head_def list_empty_is_list list_next_is_list split: list.splits)

lemma list_del_queue:
  assumes "queue_at s head (ps @ p # qs)"
  shows "\<exists>s'. on_cells (list_del (P_next p)) s = Some s' \<and> queue_at s' head (ps @ qs) \<and>
    frame (set (head # map P_next (ps @ qs))) s s'"
proof -
  have "is_list (cells s) head (map P_next ps @ P_next p # map P_next qs)" using assms by simp
  from list_del_is_list [OF this] obtain h where h: "list_del (P_next p) (cells s) = Some h"
      "is_list h head (map P_next ps @ map P_next qs)"
      "\<forall>n. n \<notin> set (head # map P_next (ps @ qs)) \<longrightarrow> h n = cells s n"
    by auto
  then show ?thesis using on_cells_frame [of "list_del (P_next p)" s h, OF h(1) h(3)] by auto
qed

lemma pcb_remove_from_queue_spec:
  assumes "queue_at s head (p # ps)"
  shows "\<exists>s'. pcb_remove_from_queue head s = Some (Ptr p, s') \<and> queue_at s' head ps \<and>
    frame (set (head # map P_next ps)) s s'"
  using list_del_queue [of s head "[]" p ps] assms pcb_queue_head_spec [OF assms]
  by (auto simp: pcb_remove_from_queue_def)

lemma pcb_remove_from_queue_empty:
  "queue_at s head [] \<Longrightarrow> pcb_remove_from_queue head s = Some (Null, s)"
  using pcb_queue_head_spec [of s head "[]"] by (simp add: pcb_remove_from_queue_def)

lemma queue_find_ptr:
  assumes "queue_at s head ps"
  shows "list_find (\<lambda>n. do { q \<leftarrow> container_of_p_next n; Some (q = Ptr p) }) head (cells s) =
    Some (if p \<in> set ps then P_next p else NodeNull)"
proof -
  have "list_find (\<lambda>n. do { q \<leftarrow> container_of_p_next n; Some (q = Ptr p) }) head (cells s) =
      Some (case find (\<lambda>q. q = p) ps of None \<Rightarrow> NodeNull | Some q \<Rightarrow> P_next q)"
    by (rule queue_find [OF assms]) auto
  then show ?thesis by (simp add: find_eq_elem)
qed

lemma pcb_is_free_spec:
  "queue_at s PcbFree fs \<Longrightarrow> pcb_is_free (Ptr p) s = Some (p \<in> set fs)"
  using queue_find_ptr [of s PcbFree fs p] by (simp add: pcb_is_free_def)

lemma pcb_find_and_remove_spec:
  assumes "queue_at s head ps"
  shows "\<exists>s'. pcb_find_and_remove head (Ptr p) s = Some (if p \<in> set ps then Ptr p else Null, s') \<and>
    queue_at s' head (filter (\<lambda>q. q \<noteq> p) ps) \<and> (p \<notin> set ps \<longrightarrow> s' = s) \<and>
    frame (set (head # map P_next (filter (\<lambda>q. q \<noteq> p) ps))) s s'"
proof (cases "p \<in> set ps")
  case True
  then obtain xs ys where ps: "ps = xs @ p # ys" by (meson split_list)
  with queue_atD(1) [OF assms] have f: "filter (\<lambda>q. q \<noteq> p) ps = xs @ ys"
    by (simp only: filter_neq_split)
  from list_del_queue [OF assms [unfolded ps]] obtain s' where
    "on_cells (list_del (P_next p)) s = Some s'" "queue_at s' head (xs @ ys)"
    "frame (set (head # map P_next (xs @ ys))) s s'" by auto
  then show ?thesis using True queue_find_ptr [OF assms, of p] f
    by (simp add: pcb_find_and_remove_def)
next
  case False
  then have "filter (\<lambda>q. q \<noteq> p) ps = ps" by (auto simp: filter_id_conv)
  then show ?thesis using False queue_find_ptr [OF assms, of p] assms
    by (auto simp: pcb_find_and_remove_def frame_def)
qed

section \<open>The free list and the tree\<close>

lemma pcb_free_spec:
  assumes "queue_at s PcbFree fs" and "p < MAXPROC" and "p \<notin> set fs"
  shows "\<exists>s'. pcb_free (Ptr p) s = Some s' \<and> queue_at s' PcbFree (p # fs) \<and>
    frame (set (PcbFree # map P_next (p # fs))) s s'"
proof -
  obtain h where h: "list_add (P_next p) PcbFree (cells s) = Some h"
      "is_list h PcbFree (map P_next (p # fs))"
      "\<forall>n. n \<notin> set (PcbFree # map P_next (p # fs)) \<longrightarrow> h n = cells s n"
    using list_add_head [of "cells s" PcbFree "map P_next fs" "P_next p"] assms by auto
  then show ?thesis
    using on_cells_frame [of "list_add (P_next p) PcbFree" s h, OF h(1,3)]
    by (auto simp: pcb_free_def)
qed

text \<open>\<open>fresh_pcb s p\<close>: entry \<open>p\<close> is as \<open>pcb_alloc\<close> leaves it, all zero and its three lists empty.\<close>

definition fresh_pcb :: "store \<Rightarrow> nat \<Rightarrow> bool" where
  "fresh_pcb s p \<longleftrightarrow> is_list (cells s) (P_child p) [] \<and> is_list (cells s) (P_next p) [] \<and>
     is_list (cells s) (P_sib p) [] \<and> pcbTable s p = zero_pcb (pcbTable s p)"

lemma zero_state_idem [simp]: "zero_state (zero_state st) = zero_state st"
  by (cases st) auto

lemma zero_pcb_idem [simp]: "zero_pcb (zero_pcb b) = zero_pcb b"
  by (simp add: zero_pcb_def)

lemma pcb_alloc_empty: "queue_at s PcbFree [] \<Longrightarrow> pcb_alloc s = Some (Null, s)"
  using list_next_is_list [of "cells s" PcbFree "[]"] by (simp add: pcb_alloc_def)

lemma pcb_alloc_spec:
  assumes q: "queue_at s PcbFree (p # fs)"
  shows "\<exists>s'. pcb_alloc s = Some (Ptr p, s') \<and> queue_at s' PcbFree fs \<and> fresh_pcb s' p \<and>
    (\<forall>n. n \<notin> set (PcbFree # map P_next fs) \<union> {P_next p, P_child p, P_sib p} \<longrightarrow> cells s' n = cells s n) \<and>
    (\<forall>i. i \<noteq> p \<longrightarrow> pcbTable s' i = pcbTable s i) \<and> pcbTable s' p = zero_pcb (pcbTable s p) \<and>
    semdTable s' = semdTable s"
proof -
  have p: "p < MAXPROC" "p \<notin> set fs" using queue_atD [OF q] by auto
  obtain s1 where s1: "on_cells (list_del (P_next p)) s = Some s1" "queue_at s1 PcbFree fs"
      "frame (set (PcbFree # map P_next fs)) s s1"
    using list_del_queue [of s PcbFree "[]" p fs] q by auto
  define h where "h = (cells s1)(P_next p := LIST_HEAD_INIT (P_next p),
    P_child p := LIST_HEAD_INIT (P_child p), P_sib p := LIST_HEAD_INIT (P_sib p))"
  let ?s' = "s1\<lparr>cells := h, pcbTable := (pcbTable s1)(p := zero_pcb (pcbTable s1 p))\<rparr>"
  have "pcb_alloc s = Some (Ptr p, ?s')"
    using p s1(1) list_next_is_list [OF q]
    by (simp add: pcb_alloc_def memset_pcb_def deref_def on_cells_def INIT_LIST_HEAD_def set_next_def
        set_prev_def h_def LIST_HEAD_INIT_def fun_upd_twist)
  moreover have "is_list h PcbFree (map P_next fs)"
    using s1(2) by (rule is_list_frame) (use p in \<open>auto simp: h_def\<close>)
  moreover have "fresh_pcb ?s' p"
    using p by (simp add: fresh_pcb_def is_list_def h_def LIST_HEAD_INIT_def)
  ultimately show ?thesis using frameD [OF s1(3)] by (auto simp: h_def)
qed

lemma children_atD:
  assumes "children_at s p cs"
  shows "distinct cs" "\<And>c. c \<in> set cs \<Longrightarrow> c < MAXPROC" "p < MAXPROC"
proof -
  show "distinct cs" using is_listD(1) [OF assms] by (simp add: distinct_map)
  show "c < MAXPROC" if "c \<in> set cs" for c using is_listD(4) [OF assms, of "P_sib c"] that by simp
  show "p < MAXPROC" using is_listD(3) [OF assms] by simp
qed

lemma pcb_has_no_children_spec:
  "children_at s p cs \<Longrightarrow> pcb_has_no_children (Ptr p) s = Some (cs = [])"
  using list_empty_is_list [of "cells s" "P_child p" "map P_sib cs"]
  by (simp add: pcb_has_no_children_def)

lemma pcb_insert_child_spec:
  assumes q: "children_at s p cs" and c: "c < MAXPROC" "c \<notin> set cs"
  shows "\<exists>s'. pcb_insert_child (Ptr p) (Ptr c) s = Some s' \<and> children_at s' p (cs @ [c]) \<and>
    (\<forall>n. n \<notin> set (P_child p # map P_sib (c # cs)) \<longrightarrow> cells s' n = cells s n) \<and>
    pcbTable s' = (pcbTable s)(c := (pcbTable s c)\<lparr>p_parent := Ptr p\<rparr>) \<and>
    semdTable s' = semdTable s"
proof -
  obtain h where "list_add_tail (P_sib c) (P_child p) (cells s) = Some h"
      "is_list h (P_child p) (map P_sib cs @ [P_sib c])"
      "\<forall>n. n \<notin> set (P_child p # map P_sib (c # cs)) \<longrightarrow> h n = cells s n"
    using list_add_tail_end [OF q, of "P_sib c"] c by auto
  then show ?thesis
    using c(1) by (simp add: pcb_insert_child_def on_cells_def upd_pcb_def deref_def)
qed

lemma list_del_child:
  assumes "children_at s p (cs @ c # ds)"
  shows "\<exists>s'. on_cells (list_del (P_sib c)) s = Some s' \<and> children_at s' p (cs @ ds) \<and>
    cells s' (P_sib c) = cells s (P_sib c) \<and> frame (set (P_child p # map P_sib (cs @ ds))) s s'"
proof -
  have "is_list (cells s) (P_child p) (map P_sib cs @ P_sib c # map P_sib ds)" using assms by simp
  from list_del_is_list [OF this] obtain h where h: "list_del (P_sib c) (cells s) = Some h"
      "is_list h (P_child p) (map P_sib cs @ map P_sib ds)" "h (P_sib c) = cells s (P_sib c)"
      "\<forall>n. n \<notin> set (P_child p # map P_sib (cs @ ds)) \<longrightarrow> h n = cells s n"
    by auto
  then show ?thesis using on_cells_frame [of "list_del (P_sib c)" s h, OF h(1) h(4)] by auto
qed

lemma pcb_remove_child_spec:
  assumes "children_at s p (c # cs)"
  shows "\<exists>s'. pcb_remove_child (Ptr p) s = Some (Ptr c, s') \<and> children_at s' p cs \<and>
    (\<forall>n. n \<notin> set (P_child p # map P_sib cs) \<longrightarrow> cells s' n = cells s n) \<and>
    pcbTable s' = (pcbTable s)(c := (pcbTable s c)\<lparr>p_parent := Null\<rparr>) \<and>
    semdTable s' = semdTable s"
proof -
  have c: "c < MAXPROC" using children_atD(2) [OF assms] by simp
  obtain s1 where "on_cells (list_del (P_sib c)) s = Some s1" "children_at s1 p cs"
      "frame (set (P_child p # map P_sib cs)) s s1"
    using list_del_child [of s p "[]" c cs] assms by auto
  then show ?thesis
    using list_empty_is_list [OF assms] list_next_is_list [OF assms] c
    by (auto simp: pcb_remove_child_def upd_pcb_def deref_def frame_def)
qed

lemma pcb_find_and_remove_child_root:
  "p < MAXPROC \<Longrightarrow> p_parent (pcbTable s p) = Null \<Longrightarrow>
   pcb_find_and_remove_child (Ptr p) s = Some (Null, s)"
  by (simp add: pcb_find_and_remove_child_def get_pcb_def deref_def)

lemma pcb_find_and_remove_child_spec:
  assumes q: "children_at s p cs" and c: "c \<in> set cs" and par: "p_parent (pcbTable s c) = Ptr p"
  shows "\<exists>s'. pcb_find_and_remove_child (Ptr c) s = Some (Ptr c, s') \<and>
    children_at s' p (filter (\<lambda>d. d \<noteq> c) cs) \<and>
    (\<forall>n. n \<notin> set (P_child p # map P_sib (filter (\<lambda>d. d \<noteq> c) cs)) \<longrightarrow> cells s' n = cells s n) \<and>
    pcbTable s' = (pcbTable s)(c := (pcbTable s c)\<lparr>p_parent := Null\<rparr>) \<and>
    semdTable s' = semdTable s"
proof -
  obtain xs ys where cs: "cs = xs @ c # ys" using c by (meson split_list)
  have f: "filter (\<lambda>d. d \<noteq> c) cs = xs @ ys"
    using children_atD(1) [OF q] cs by (simp only: filter_neq_split)
  obtain s1 where "on_cells (list_del (P_sib c)) s = Some s1" "children_at s1 p (xs @ ys)"
      "frame (set (P_child p # map P_sib (xs @ ys))) s s1"
    using list_del_child [OF q [unfolded cs]] by blast
  then show ?thesis
    using par children_atD(2) [OF q c] unfolding f
    by (auto simp: pcb_find_and_remove_child_def get_pcb_def upd_pcb_def deref_def frame_def)
qed

lemma pcb_init_loop:
  assumes "queue_at s PcbFree []" and "n \<le> MAXPROC"
  shows "\<exists>s'. for_each [0..<n] (\<lambda>i. on_cells (list_add (P_next i) PcbFree)) s = Some s' \<and>
    queue_at s' PcbFree (rev [0..<n]) \<and> frame (insert PcbFree (range P_next)) s s'"
  using assms(2)
proof (induction n)
  case 0
  then show ?case using assms(1) by (auto simp: frame_def)
next
  case (Suc n)
  then obtain s1 where s1: "for_each [0..<n] (\<lambda>i. on_cells (list_add (P_next i) PcbFree)) s = Some s1"
      "queue_at s1 PcbFree (rev [0..<n])" "frame (insert PcbFree (range P_next)) s s1"
    by auto
  obtain s2 where s2: "pcb_free (Ptr n) s1 = Some s2" "queue_at s2 PcbFree (n # rev [0..<n])"
      "frame (set (PcbFree # map P_next (n # rev [0..<n]))) s1 s2"
    using pcb_free_spec [OF s1(2), of n] Suc.prems by auto
  have "frame (insert PcbFree (range P_next)) s s2"
    using frame_trans [OF s1(3) s2(3)] by (rule frame_mono) auto
  then show ?case using s1(1) s2(1,2) by (simp add: for_each_append pcb_free_def)
qed

lemma pcb_init_spec:
  assumes "queue_at s PcbFree []"
  shows "\<exists>s'. pcb_init s = Some s' \<and> queue_at s' PcbFree (rev [0..<MAXPROC]) \<and>
    frame (insert PcbFree (range P_next)) s s'"
  using pcb_init_loop [OF assms, of MAXPROC] by (simp add: pcb_init_def)

section \<open>The queue contract\<close>

text \<open>
  What the clients of a process queue rely on. \<open>elem\<close> and \<open>none\<close> are the pointers the
  operations take and return, \<open>ok\<close> the elements a queue may hold.
\<close>

fun drain :: "nat \<Rightarrow> ('s \<Rightarrow> ('r \<times> 's) option) \<Rightarrow> 's \<Rightarrow> ('r list \<times> 's) option" where
  "drain 0 deq s = Some ([], s)"
| "drain (Suc n) deq s = do {
     (r, s) \<leftarrow> deq s;
     (rs, s) \<leftarrow> drain n deq s;
     Some (r # rs, s) }"

locale prio_queue =
  fixes elem :: "'a \<Rightarrow> 'r" and none :: 'r
    and enq :: "'q \<Rightarrow> 'r \<Rightarrow> 's \<Rightarrow> 's option"
    and deq :: "'q \<Rightarrow> 's \<Rightarrow> ('r \<times> 's) option"
    and contents :: "'s \<Rightarrow> 'q \<Rightarrow> 'a list \<Rightarrow> bool"
    and prio :: "'s \<Rightarrow> 'a \<Rightarrow> int"
    and ok :: "'a \<Rightarrow> bool"
  assumes enq_contents: "contents s q xs \<Longrightarrow> ok x \<Longrightarrow> x \<notin> set xs \<Longrightarrow>
      \<exists>s'. enq q (elem x) s = Some s' \<and> contents s' q (prio_insert (prio s) x xs) \<and> prio s' = prio s"
    and deq_nil: "contents s q [] \<Longrightarrow> deq q s = Some (none, s)"
    and deq_cons: "contents s q (x # xs) \<Longrightarrow>
      \<exists>s'. deq q s = Some (elem x, s') \<and> contents s' q xs \<and> prio s' = prio s"
begin

lemma enq_all:
  assumes "contents s q ys" and "distinct (ys @ xs)" and "\<forall>x\<in>set xs. ok x"
    and "sorted_wrt (\<lambda>a b. prio s b \<le> prio s a) ys"
  shows "\<exists>s' zs. for_each xs (\<lambda>x. enq q (elem x)) s = Some s' \<and> contents s' q zs \<and>
    prio s' = prio s \<and> mset zs = mset (ys @ xs) \<and> sorted_wrt (\<lambda>a b. prio s b \<le> prio s a) zs \<and>
    (\<forall>k. filter (\<lambda>x. prio s x = k) zs = filter (\<lambda>x. prio s x = k) (ys @ xs))"
  using assms
proof (induction xs arbitrary: s ys)
  case Nil
  then show ?case by auto
next
  case (Cons x xs)
  obtain s1 where s1: "enq q (elem x) s = Some s1" "contents s1 q (prio_insert (prio s) x ys)"
      "prio s1 = prio s"
    using enq_contents [OF Cons.prems(1), of x] Cons.prems by auto
  have "mset (prio_insert (prio s) x ys @ xs) = mset (ys @ x # xs)" by simp
  then have "distinct (prio_insert (prio s) x ys @ xs)"
    using Cons.prems(2) by (metis mset_eq_imp_distinct_iff)
  then obtain s' zs where "for_each xs (\<lambda>x. enq q (elem x)) s1 = Some s'" "contents s' q zs"
      "prio s' = prio s" "mset zs = mset (prio_insert (prio s) x ys @ xs)"
      "sorted_wrt (\<lambda>a b. prio s b \<le> prio s a) zs"
      "\<forall>k. filter (\<lambda>x. prio s x = k) zs = filter (\<lambda>x. prio s x = k) (prio_insert (prio s) x ys @ xs)"
    using Cons.IH [OF s1(2)] Cons.prems s1(3) by (auto simp: prio_insert_sorted)
  then show ?case
    using s1 by (auto simp: prio_insert_stable [OF Cons.prems(4)])
qed

lemma drain_contents:
  "contents s q zs \<Longrightarrow>
   \<exists>s'. drain (length zs) (deq q) s = Some (map elem zs, s') \<and> contents s' q []"
proof (induction zs arbitrary: s)
  case Nil
  then show ?case by auto
next
  case (Cons z zs)
  obtain s1 where s1: "deq q s = Some (elem z, s1)" "contents s1 q zs"
    using deq_cons [OF Cons.prems] by auto
  with Cons.IH [OF s1(2)] show ?case by auto
qed

lemma dispatch_order:
  assumes "contents s q []" and "distinct xs" and "\<forall>x\<in>set xs. ok x"
  shows "\<exists>s' s''. for_each xs (\<lambda>x. enq q (elem x)) s = Some s' \<and>
    drain (length xs) (deq q) s' = Some (map elem (sort_key (\<lambda>x. - prio s x) xs), s'') \<and>
    deq q s'' = Some (none, s'') \<and> contents s'' q []"
proof -
  obtain s' zs where z: "for_each xs (\<lambda>x. enq q (elem x)) s = Some s'" "contents s' q zs"
      "mset zs = mset xs" "sorted_wrt (\<lambda>a b. prio s b \<le> prio s a) zs"
      "\<forall>k. filter (\<lambda>x. prio s x = k) zs = filter (\<lambda>x. prio s x = k) xs"
    using enq_all [OF assms(1), of xs] assms(2,3) by auto
  have "sort_key (\<lambda>x. - prio s x) xs = zs"
  proof (rule properties_for_sort_key)
    show "mset zs = mset xs" by (rule z(3))
    show "filter (\<lambda>x. - prio s k = - prio s x) zs = filter (\<lambda>x. - prio s k = - prio s x) xs"
      if "k \<in> set zs" for k using z(5) by (simp add: eq_commute [of "prio s k"])
    show "sorted (map (\<lambda>x. - prio s x) zs)" using z(4) by (simp add: sorted_wrt_map)
  qed
  moreover obtain s'' where "drain (length zs) (deq q) s' = Some (map elem zs, s'')" "contents s'' q []"
    using drain_contents [OF z(2)] by auto
  moreover have "length zs = length xs" using z(3) by (metis size_mset)
  ultimately show ?thesis using z(1) deq_nil by auto
qed

end

interpretation pcbq: prio_queue Ptr Null pcb_insert_in_queue pcb_remove_from_queue
  "\<lambda>s head ps. queue_at s head ps \<and> is_queue_head head" prio "\<lambda>p. p < MAXPROC"
proof (unfold_locales, goal_cases)
  case (1 s q xs x)
  then obtain s' where "pcb_insert_in_queue q (Ptr x) s = Some s'"
      "queue_at s' q (prio_insert (prio s) x xs)" "frame (set (q # map P_next (x # xs))) s s'"
    using pcb_insert_in_queue_spec by blast
  then show ?case using 1 prio_frame by blast
next
  case (2 s q)
  then show ?case using pcb_remove_from_queue_empty by auto
next
  case (3 s q x xs)
  then obtain s' where "pcb_remove_from_queue q s = Some (Ptr x, s')" "queue_at s' q xs"
      "frame (set (q # map P_next xs)) s s'"
    using pcb_remove_from_queue_spec by blast
  then show ?case using 3 prio_frame by blast
qed

section \<open>Properties\<close>

text \<open>
  C13. Dispatch order: processes put one by one on an empty queue come off it in order of decreasing
  priority, first come first served among equals (a stable sort), and then the queue is empty again.
\<close>

theorem pcb_dispatch_order:
  assumes "queue_at s head []" and "is_queue_head head" and "distinct ps" and "\<forall>p\<in>set ps. p < MAXPROC"
  shows "\<exists>s' s''. for_each ps (\<lambda>p. pcb_insert_in_queue head (Ptr p)) s = Some s' \<and>
    drain (length ps) (pcb_remove_from_queue head) s' = Some (map Ptr (sort_key (\<lambda>p. - prio s p) ps), s'') \<and>
    pcb_remove_from_queue head s'' = Some (Null, s'')"
  using pcbq.dispatch_order [of s head ps] assms by blast

definition demo_prios :: store where
  "demo_prios = (static_store UMPS)\<lparr>pcbTable := (\<lambda>i. (pcbTable (static_store UMPS) i)\<lparr>priority := (if i = 2 then 7 else 1)\<rparr>)\<rparr>"

theorem pcb_dispatch_order_witness:
  "\<exists>s' s''. for_each [5, 2, 3] (\<lambda>p. pcb_insert_in_queue ReadyQueue (Ptr p)) demo_prios = Some s' \<and>
    drain 3 (pcb_remove_from_queue ReadyQueue) s' = Some ([Ptr 2, Ptr 5, Ptr 3], s'') \<and>
    pcb_remove_from_queue ReadyQueue s'' = Some (Null, s'')"
proof -
  have q: "queue_at demo_prios ReadyQueue []" using static_heads(4) [of UMPS] by (simp add: demo_prios_def)
  have e: "map Ptr (sort_key (\<lambda>p. - prio demo_prios p) [5, 2, 3]) = [Ptr 2, Ptr 5, Ptr 3]"
    by (simp add: prio_def demo_prios_def)
  have n: "length [5, 2, 3 :: nat] = 3" by simp
  show ?thesis by (rule pcb_dispatch_order [OF q, of "[5, 2, 3]", unfolded e n]) (simp_all add: MAXPROC_def)
qed

text \<open>
  \<open>pcb_alloc\<close> returns \<open>NULL\<close> exactly when the free list is empty; otherwise it takes its first
  entry, returns it zeroed with its three lists empty, and changes no other entry.
\<close>

lemma pcb_alloc_result:
  assumes "queue_at s PcbFree fs"
  shows "case fs of
      [] \<Rightarrow> pcb_alloc s = Some (Null, s)
    | p # ps \<Rightarrow> \<exists>s'. pcb_alloc s = Some (Ptr p, s') \<and> queue_at s' PcbFree ps \<and> fresh_pcb s' p \<and>
        (\<forall>i. i \<noteq> p \<longrightarrow> pcbTable s' i = pcbTable s i) \<and> pcbTable s' p = zero_pcb (pcbTable s p)"
  using pcb_alloc_empty pcb_alloc_spec assms by (cases fs) (simp, fastforce)

lemma pcb_alloc_result_example:
  "\<exists>s s'. pcb_init (static_store UARM) = Some s \<and> pcb_alloc s = Some (Ptr (MAXPROC - 1), s') \<and> fresh_pcb s' (MAXPROC - 1)"
proof -
  obtain s where s: "pcb_init (static_store UARM) = Some s" "queue_at s PcbFree (rev [0..<MAXPROC])"
    using pcb_init_spec [of "static_store UARM"] static_heads(1) by auto
  have "rev [0..<MAXPROC] = (MAXPROC - 1) # rev [0..<MAXPROC - 1]" by (simp add: MAXPROC_def upt_rec)
  then show ?thesis using pcb_alloc_result [OF s(2)] s(1) by auto
qed

text \<open>
  Freed entries are reused last in, first out: \<open>pcb_alloc\<close> after \<open>pcb_free(p)\<close> returns \<open>p\<close>,
  zeroed, and the free list is as before.
\<close>

lemma pcb_free_alloc:
  assumes "queue_at s PcbFree fs" and "p < MAXPROC" and "p \<notin> set fs"
  shows "\<exists>s1 s2. pcb_free (Ptr p) s = Some s1 \<and> pcb_alloc s1 = Some (Ptr p, s2) \<and>
    queue_at s2 PcbFree fs \<and> fresh_pcb s2 p \<and> (\<forall>i. i \<noteq> p \<longrightarrow> pcbTable s2 i = pcbTable s i)"
proof -
  obtain s1 where s1: "pcb_free (Ptr p) s = Some s1" "queue_at s1 PcbFree (p # fs)"
      "frame (set (PcbFree # map P_next (p # fs))) s s1"
    using pcb_free_spec [OF assms] by blast
  show ?thesis using pcb_alloc_spec [OF s1(2)] s1(1) frameD(2) [OF s1(3)] by auto
qed

lemma pcb_free_alloc_example:
  "\<exists>s1 s2. pcb_free (Ptr 4) (static_store UMPS) = Some s1 \<and> pcb_alloc s1 = Some (Ptr 4, s2) \<and>
    queue_at s2 PcbFree [] \<and> fresh_pcb s2 4"
  using pcb_free_alloc [of "static_store UMPS" "[]" 4] static_heads(1) by (auto simp: MAXPROC_def)

text \<open>
  The children of a process are a queue of their own: \<open>pcb_insert_child\<close> appends, sets the parent
  and is undone by \<open>pcb_find_and_remove_child\<close>, which clears the parent and keeps the other children
  in order; \<open>pcb_remove_child\<close> takes the oldest child.
\<close>

lemma pcb_children:
  assumes "children_at s p cs" and "c < MAXPROC" and "c \<notin> set cs"
  shows "\<exists>s1 s2 s3. pcb_insert_child (Ptr p) (Ptr c) s = Some s1 \<and> children_at s1 p (cs @ [c]) \<and>
    p_parent (pcbTable s1 c) = Ptr p \<and>
    pcb_find_and_remove_child (Ptr c) s1 = Some (Ptr c, s2) \<and> children_at s2 p cs \<and>
    p_parent (pcbTable s2 c) = Null \<and>
    pcb_remove_child (Ptr p) s1 = Some (Ptr (hd (cs @ [c])), s3) \<and> children_at s3 p (tl (cs @ [c]))"
proof -
  obtain s1 where s1: "pcb_insert_child (Ptr p) (Ptr c) s = Some s1" "children_at s1 p (cs @ [c])"
      "pcbTable s1 = (pcbTable s)(c := (pcbTable s c)\<lparr>p_parent := Ptr p\<rparr>)"
    using pcb_insert_child_spec [OF assms] by blast
  have f: "filter (\<lambda>d. d \<noteq> c) (cs @ [c]) = cs" using assms(3) by (auto simp: filter_id_conv)
  obtain s2 where s2: "pcb_find_and_remove_child (Ptr c) s1 = Some (Ptr c, s2)" "children_at s2 p cs"
      "p_parent (pcbTable s2 c) = Null"
    using pcb_find_and_remove_child_spec [OF s1(2), of c] s1(3) f by auto
  have "children_at s1 p (hd (cs @ [c]) # tl (cs @ [c]))" using s1(2) by (cases cs) auto
  from pcb_remove_child_spec [OF this] s1 s2 show ?thesis by auto
qed

lemma pcb_children_example:
  "\<exists>s s1 s2 s3. on_cells (INIT_LIST_HEAD (P_child 0)) (static_store UMPS) = Some s \<and>
    pcb_insert_child (Ptr 0) (Ptr 1) s = Some s1 \<and> children_at s1 0 [1] \<and>
    pcb_find_and_remove_child (Ptr 1) s1 = Some (Ptr 1, s2) \<and> children_at s2 0 [] \<and>
    pcb_remove_child (Ptr 0) s1 = Some (Ptr 1, s3) \<and> children_at s3 0 []"
proof -
  obtain h where h: "INIT_LIST_HEAD (P_child 0) (cells (static_store UMPS)) = Some h" "is_list h (P_child 0) []"
    using INIT_LIST_HEAD_is_list [of "P_child 0" "cells (static_store UMPS)"] by (auto simp: MAXPROC_def)
  then have "children_at ((static_store UMPS)\<lparr>cells := h\<rparr>) 0 []" by simp
  from pcb_children [OF this, of 1] h(1) show ?thesis by (auto simp: on_cells_def MAXPROC_def)
qed

end
