(* ===== verification/AslModel.thy ===== *)
theory AslModel
  imports Pcb
begin

text \<open>
  \<open>src/asl.c\<close>: the active semaphore list. A semaphore descriptor is taken from \<open>semdFree\<close> when
  the first process blocks on a key and goes back when its queue becomes empty.

  \<open>asl_at\<close> relates the cells to the list of active descriptors, the free descriptors and the queue
  of every descriptor; \<open>asl_rel s m\<close> hides the descriptors: \<open>m k\<close> is the queue of processes
  blocked on key \<open>k\<close>, empty when no descriptor has that key. The header \<open>include/asl.h\<close> specifies
  the operations in these terms, and the lemmas say that the code implements it: blocking inserts
  into \<open>m k\<close> by priority, unblocking takes its head, and only that queue changes.
\<close>

section \<open>Operations\<close>

fun s_next :: "semd_ptr \<Rightarrow> node" where
  "s_next Null = NodeNull"
| "s_next (Ptr i) = S_next i"

fun s_procQ :: "semd_ptr \<Rightarrow> node" where
  "s_procQ Null = NodeNull"
| "s_procQ (Ptr i) = S_procQ i"

fun container_of_s_next :: "node \<Rightarrow> semd_ptr option" where
  "container_of_s_next (S_next i) = Some (Ptr i)"
| "container_of_s_next NodeNull = Some Null"
| "container_of_s_next _ = None"

definition get_semd :: "semd_ptr \<Rightarrow> store \<Rightarrow> semd_t option" where
  "get_semd p s = do { i \<leftarrow> deref p; Some (semdTable s i) }"

definition upd_semd :: "semd_ptr \<Rightarrow> (semd_t \<Rightarrow> semd_t) \<Rightarrow> store \<Rightarrow> store option" where
  "upd_semd p f s = do {
     i \<leftarrow> deref p;
     Some (s\<lparr>semdTable := (semdTable s)(i := f (semdTable s i))\<rparr>) }"

definition asl_semd :: "u32 \<Rightarrow> store \<Rightarrow> semd_ptr option" where
  "asl_semd key s = do {
     it \<leftarrow> list_find (\<lambda>n. do {
         q \<leftarrow> container_of_s_next n;
         d \<leftarrow> get_semd q s;
         Some (s_key d = key) }) Asl (cells s);
     container_of_s_next it }"

definition asl_init :: "store \<Rightarrow> store option" where
  "asl_init s = for_each [0..<MAXPROC] (\<lambda>i s. do {
     s \<leftarrow> upd_semd (Ptr i) (\<lambda>d. d\<lparr>s_key := 0\<rparr>) s;
     s \<leftarrow> on_cells (INIT_LIST_HEAD (S_procQ i)) s;
     on_cells (list_add (S_next i) SemdFree) s }) s"

text \<open>The part of \<open>asl_insert_blocked\<close> after the descriptor has been found or taken.\<close>

definition asl_block_on :: "semd_ptr \<Rightarrow> u32 \<Rightarrow> pcb_ptr \<Rightarrow> store \<Rightarrow> (bool \<times> store) option" where
  "asl_block_on semd key p s = do {
     s \<leftarrow> pcb_insert_in_queue (s_procQ semd) p s;
     s \<leftarrow> upd_semd semd (\<lambda>d. d\<lparr>s_key := key\<rparr>) s;
     s \<leftarrow> upd_pcb p (\<lambda>q. q\<lparr>p_semkey := key\<rparr>) s;
     Some (False, s) }"

definition asl_insert_blocked :: "u32 \<Rightarrow> pcb_ptr \<Rightarrow> store \<Rightarrow> (bool \<times> store) option" where
  "asl_insert_blocked key p s = do {
     semd \<leftarrow> asl_semd key s;
     if semd = Null then do {
       e \<leftarrow> list_empty SemdFree (cells s);
       if e then Some (True, s)
       else do {
         n \<leftarrow> list_next SemdFree (cells s);
         semd \<leftarrow> container_of_s_next n;
         s \<leftarrow> on_cells (list_del (s_next semd)) s;
         s \<leftarrow> on_cells (list_add (s_next semd) Asl) s;
         asl_block_on semd key p s } }
     else asl_block_on semd key p s }"

text \<open>The descriptor goes back to the free list if its queue is empty.\<close>

definition asl_release_if_empty :: "semd_ptr \<Rightarrow> store \<Rightarrow> store option" where
  "asl_release_if_empty semd s = do {
     e \<leftarrow> list_empty (s_procQ semd) (cells s);
     if e then do {
       s \<leftarrow> on_cells (list_del (s_next semd)) s;
       on_cells (list_add (s_next semd) SemdFree) s }
     else Some s }"

definition asl_remove_blocked :: "u32 \<Rightarrow> store \<Rightarrow> (pcb_ptr \<times> store) option" where
  "asl_remove_blocked key s = do {
     semd \<leftarrow> asl_semd key s;
     if semd = Null then Some (Null, s)
     else do {
       elem \<leftarrow> list_next (s_procQ semd) (cells s);
       pcb \<leftarrow> container_of_p_next elem;
       s \<leftarrow> on_cells (list_del elem) s;
       s \<leftarrow> asl_release_if_empty semd s;
       s \<leftarrow> upd_pcb pcb (\<lambda>q. q\<lparr>p_semkey := 0\<rparr>) s;
       Some (pcb, s) } }"

definition asl_find_and_remove_blocked :: "pcb_ptr \<Rightarrow> store \<Rightarrow> (pcb_ptr \<times> store) option" where
  "asl_find_and_remove_blocked p s = do {
     b \<leftarrow> get_pcb p s;
     semd \<leftarrow> asl_semd (p_semkey b) s;
     if semd = Null then Some (Null, s)
     else do {
       it \<leftarrow> list_find (\<lambda>n. do { q \<leftarrow> container_of_p_next n; Some (q = p) }) (s_procQ semd) (cells s);
       if it = NodeNull then Some (Null, s)
       else do {
         s \<leftarrow> on_cells (list_del it) s;
         s \<leftarrow> asl_release_if_empty semd s;
         Some (p, s) } } }"

definition asl_blocked_head :: "u32 \<Rightarrow> store \<Rightarrow> pcb_ptr option" where
  "asl_blocked_head key s = do {
     semd \<leftarrow> asl_semd key s;
     if semd = Null then Some Null
     else do {
       e \<leftarrow> list_empty (s_procQ semd) (cells s);
       if e then Some Null
       else do {
         n \<leftarrow> list_next (s_procQ semd) (cells s);
         container_of_p_next n } } }"

text \<open>
  The recursive removal and its loop over the children. Nothing in it changes a child list, so the
  fuel bounds the depth and the width of the tree; running out means a cyclic tree.
\<close>

fun asl_remove_tree :: "nat \<Rightarrow> pcb_ptr \<Rightarrow> store \<Rightarrow> store option"
  and asl_remove_kids :: "nat \<Rightarrow> node \<Rightarrow> node \<Rightarrow> store \<Rightarrow> store option" where
  "asl_remove_tree 0 p s = None"
| "asl_remove_tree (Suc fuel) p s = do {
     b \<leftarrow> get_pcb p s;
     semd \<leftarrow> asl_semd (p_semkey b) s;
     if semd = Null then Some s
     else do {
       first \<leftarrow> get_next (p_child p) (cells s);
       s \<leftarrow> asl_remove_kids fuel first (p_child p) s;
       (_, s) \<leftarrow> asl_find_and_remove_blocked p s;
       Some s } }"
| "asl_remove_kids 0 pos head s = None"
| "asl_remove_kids (Suc fuel) pos head s =
     (if pos = head then Some s
      else do {
        it \<leftarrow> container_of_p_sib pos;
        s \<leftarrow> asl_remove_tree fuel it s;
        nxt \<leftarrow> get_next pos (cells s);
        asl_remove_kids fuel nxt head s })"

definition TREE_FUEL :: nat where
  "TREE_FUEL = 2 * MAXPROC + 1"

definition asl_find_and_remove_blocked_child :: "pcb_ptr \<Rightarrow> store \<Rightarrow> store option" where
  "asl_find_and_remove_blocked_child p s = asl_remove_tree TREE_FUEL p s"

section \<open>Abstraction\<close>

definition asl_nodes :: "node set" where
  "asl_nodes = {Asl, SemdFree} \<union> range S_next \<union> range S_procQ"

definition asl_at :: "store \<Rightarrow> nat list \<Rightarrow> nat list \<Rightarrow> (nat \<Rightarrow> nat list) \<Rightarrow> bool" where
  "asl_at s act sf pq \<longleftrightarrow>
     is_list (cells s) Asl (map S_next act) \<and> is_list (cells s) SemdFree (map S_next sf) \<and>
     (\<forall>i<MAXPROC. queue_at s (S_procQ i) (pq i)) \<and>
     mset (act @ sf) = mset [0..<MAXPROC] \<and>
     (\<forall>i\<in>set act. pq i \<noteq> []) \<and> (\<forall>i\<in>set sf. pq i = []) \<and>
     inj_on (\<lambda>i. s_key (semdTable s i)) (set act) \<and>
     (\<forall>i\<in>set act. \<forall>p\<in>set (pq i). p_semkey (pcbTable s p) = s_key (semdTable s i))"

definition amap :: "store \<Rightarrow> nat list \<Rightarrow> (nat \<Rightarrow> nat list) \<Rightarrow> u32 \<Rightarrow> nat list" where
  "amap s act pq k = (case find (\<lambda>i. s_key (semdTable s i) = k) act of None \<Rightarrow> [] | Some i \<Rightarrow> pq i)"

definition asl_rel :: "store \<Rightarrow> (u32 \<Rightarrow> nat list) \<Rightarrow> bool" where
  "asl_rel s m \<longleftrightarrow> (\<exists>act sf pq. asl_at s act sf pq \<and> m = amap s act pq)"

definition blocked :: "(u32 \<Rightarrow> nat list) \<Rightarrow> nat set" where
  "blocked m = (\<Union>k. set (m k))"

lemma is_list_frameI:
  "is_list (cells s) head xs \<Longrightarrow> frame N s s' \<Longrightarrow> set (head # xs) \<inter> N = {} \<Longrightarrow> is_list (cells s') head xs"
  by (rule is_list_frame) auto

lemma inj_S_next [simp]: "inj S_next"
  by (auto intro: injI)

lemma asl_at_sets:
  assumes "asl_at s act sf pq"
  shows "distinct act" "distinct sf" "set act \<inter> set sf = {}" "set act \<union> set sf = {0..<MAXPROC}"
  using assms distinct_mset_upt [of "act @ sf" MAXPROC] by (auto simp: asl_at_def)

lemma asl_at_idx: "asl_at s act sf pq \<Longrightarrow> i < MAXPROC \<longleftrightarrow> i \<in> set act \<or> i \<in> set sf"
  by (drule asl_at_sets(4)) (simp add: set_eq_iff)

lemma asl_atD:
  assumes "asl_at s act sf pq"
  shows "is_list (cells s) Asl (map S_next act)" "is_list (cells s) SemdFree (map S_next sf)"
    "\<And>i. i < MAXPROC \<Longrightarrow> queue_at s (S_procQ i) (pq i)"
    "\<And>i. i \<in> set act \<Longrightarrow> pq i \<noteq> []" "\<And>i. i \<in> set sf \<Longrightarrow> pq i = []"
    "inj_on (\<lambda>i. s_key (semdTable s i)) (set act)"
    "\<And>i p. i \<in> set act \<Longrightarrow> p \<in> set (pq i) \<Longrightarrow> p_semkey (pcbTable s p) = s_key (semdTable s i)"
  using assms by (auto simp: asl_at_def)

lemma asl_at_disjoint:
  assumes "asl_at s act sf pq" and "i < MAXPROC" "j < MAXPROC" "i \<noteq> j"
  shows "set (pq i) \<inter> set (pq j) = {}"
proof -
  have "i \<in> set act \<or> pq i = []" "j \<in> set act \<or> pq j = []"
    using asl_at_idx [OF assms(1)] asl_atD(5) [OF assms(1)] assms(2,3) by blast+
  then show ?thesis
    using asl_atD(6,7) [OF assms(1)] assms(4) by (auto simp: inj_on_def) metis
qed

lemma amap_active:
  assumes "inj_on (\<lambda>i. s_key (semdTable s i)) (set act)" and "i \<in> set act"
  shows "amap s act pq (s_key (semdTable s i)) = pq i"
proof (cases "find (\<lambda>j. s_key (semdTable s j) = s_key (semdTable s i)) act")
  case None
  then show ?thesis using assms(2) by (auto simp: find_None_iff)
next
  case (Some j)
  then have "j \<in> set act" "s_key (semdTable s j) = s_key (semdTable s i)"
    by (auto simp: find_Some_iff)
  with assms have "j = i" by (auto simp: inj_on_def)
  with Some show ?thesis by (simp add: amap_def)
qed

lemma amap_inactive: "k \<notin> (\<lambda>i. s_key (semdTable s i)) ` set act \<Longrightarrow> amap s act pq k = []"
  by (auto simp: amap_def find_None_iff image_iff split: option.split dest!: find_Some_iff [THEN iffD1])

lemma amap_eqI:
  assumes "inj_on (\<lambda>i. s_key (semdTable s i)) (set act)"
    and "\<And>i. i \<in> set act \<Longrightarrow> m (s_key (semdTable s i)) = pq i"
    and "\<And>k. k \<notin> (\<lambda>i. s_key (semdTable s i)) ` set act \<Longrightarrow> m k = []"
  shows "m = amap s act pq"
proof
  fix k
  show "m k = amap s act pq k"
    using assms amap_active [OF assms(1), of _ pq] amap_inactive [of k s act pq]
    by (cases "k \<in> (\<lambda>i. s_key (semdTable s i)) ` set act") auto
qed

text \<open>
  Every key has its active descriptor or an empty queue: the form in which the operations use the
  relation.
\<close>

lemma asl_rel_cases:
  assumes "asl_at s act sf pq"
  obtains (active) i where "i \<in> set act" "s_key (semdTable s i) = k" "amap s act pq k = pq i"
      "asl_semd k s = Some (Ptr i)" "i < MAXPROC"
  | (inactive) "k \<notin> (\<lambda>i. s_key (semdTable s i)) ` set act" "amap s act pq k = []"
      "asl_semd k s = Some Null"
proof -
  let ?Q = "\<lambda>i. s_key (semdTable s i) = k"
  have lt: "i < MAXPROC" if "i \<in> set act" for i using asl_at_sets(4) [OF assms] that by auto
  have "list_find (\<lambda>n. do { q \<leftarrow> container_of_s_next n; d \<leftarrow> get_semd q s; Some (s_key d = k) }) Asl (cells s)
      = Some (case find (\<lambda>n. ?Q (case n of S_next i \<Rightarrow> i | _ \<Rightarrow> 0)) (map S_next act) of
          None \<Rightarrow> NodeNull | Some n \<Rightarrow> n)"
    using lt by (intro list_find_is_list asl_atD(1) [OF assms]) (auto simp: get_semd_def deref_def)
  then have semd: "asl_semd k s = Some (case find ?Q act of None \<Rightarrow> Null | Some i \<Rightarrow> Ptr i)"
    by (cases "find ?Q act") (simp_all add: asl_semd_def find_map comp_def)
  show thesis
  proof (cases "find ?Q act")
    case None
    then have "k \<notin> (\<lambda>i. s_key (semdTable s i)) ` set act" by (auto simp: find_None_iff)
    then show ?thesis using semd inactive None by (simp add: amap_def)
  next
    case (Some i)
    then have "i \<in> set act" "?Q i" by (auto simp: find_Some_iff)
    then show ?thesis using active semd Some lt by (auto simp: amap_def)
  qed
qed

lemma asl_relD:
  assumes "asl_rel s m" and "p \<in> set (m k)"
  shows "p < MAXPROC" "p_semkey (pcbTable s p) = k" "p \<in> blocked m"
proof -
  obtain act sf pq where a: "asl_at s act sf pq" and m: "m = amap s act pq"
    using assms(1) by (auto simp: asl_rel_def)
  show "p < MAXPROC" "p_semkey (pcbTable s p) = k"
    using asl_rel_cases [OF a, of k] assms(2) m asl_atD(3,7) [OF a] queue_atD(2)
    by (metis empty_iff empty_set)+
  show "p \<in> blocked m" using assms(2) by (auto simp: blocked_def)
qed

lemma asl_rel_distinct: "asl_rel s m \<Longrightarrow> distinct (m k)"
  by (metis asl_rel_def asl_rel_cases asl_atD(3) queue_atD(1) distinct.simps(1))

lemma blocked_iff: "asl_rel s m \<Longrightarrow> p \<in> blocked m \<longleftrightarrow> p \<in> set (m (p_semkey (pcbTable s p)))"
  by (auto simp: blocked_def dest: asl_relD(2))

lemma asl_at_blocked: "asl_at s act sf pq \<Longrightarrow> i < MAXPROC \<Longrightarrow> set (pq i) \<subseteq> blocked (amap s act pq)"
proof -
  assume a: "asl_at s act sf pq" and i: "i < MAXPROC"
  show ?thesis
  proof (cases "i \<in> set act")
    case True
    then have "pq i = amap s act pq (s_key (semdTable s i))"
      using amap_active [OF asl_atD(6) [OF a]] by simp
    then show ?thesis unfolding blocked_def by (metis UN_upper UNIV_I)
  next
    case False
    then have "i \<in> set sf" using i asl_at_idx [OF a] by blast
    then have "pq i = []" by (rule asl_atD(5) [OF a])
    then show ?thesis by simp
  qed
qed

lemma asl_rel_frame:
  assumes "asl_rel s m" and "\<forall>n\<in>asl_nodes \<union> P_next ` blocked m. cells s' n = cells s n"
    and "semdTable s' = semdTable s" and "\<forall>p\<in>blocked m. p_semkey (pcbTable s' p) = p_semkey (pcbTable s p)"
  shows "asl_rel s' m"
proof -
  obtain act sf pq where a: "asl_at s act sf pq" and m: "m = amap s act pq"
    using assms(1) by (auto simp: asl_rel_def)
  have sub: "i < MAXPROC \<Longrightarrow> set (pq i) \<subseteq> blocked m" for i using asl_at_blocked [OF a] m by simp
  have "is_list (cells s') Asl (map S_next act)" "is_list (cells s') SemdFree (map S_next sf)"
    by (rule is_list_frame [OF asl_atD(1) [OF a]] is_list_frame [OF asl_atD(2) [OF a]];
        use assms(2) in \<open>auto simp: asl_nodes_def\<close>)+
  moreover have "queue_at s' (S_procQ i) (pq i)" if "i < MAXPROC" for i
    by (rule is_list_frame [OF asl_atD(3) [OF a that]])
      (use assms(2) sub [OF that] in \<open>auto simp: asl_nodes_def\<close>)
  moreover have "p_semkey (pcbTable s' p) = s_key (semdTable s' i)" if "i \<in> set act" "p \<in> set (pq i)" for i p
    using asl_atD(7) [OF a that] assms(3,4) sub [of i] that asl_at_sets(4) [OF a] by force
  ultimately have "asl_at s' act sf pq"
    using a assms(3) by (simp add: asl_at_def)
  moreover have "m = amap s' act pq" using m assms(3) by (simp add: amap_def fun_eq_iff)
  ultimately show ?thesis by (auto simp: asl_rel_def)
qed

section \<open>The operations on the abstraction\<close>

lemma semd_move:
  assumes A: "is_list (cells s) A (map S_next (xs @ i # ys))" and B: "is_list (cells s) B (map S_next zs)"
    and AB: "{A, B} = {Asl, SemdFree}" and d: "set (xs @ i # ys) \<inter> set zs = {}"
  shows "\<exists>s1 s2. on_cells (list_del (S_next i)) s = Some s1 \<and> on_cells (list_add (S_next i) B) s1 = Some s2 \<and>
    is_list (cells s2) A (map S_next (xs @ ys)) \<and> is_list (cells s2) B (map S_next (i # zs)) \<and>
    frame ({Asl, SemdFree} \<union> range S_next) s s2"
proof -
  have AB': "A \<noteq> B" "A \<notin> range S_next" "B \<notin> range S_next" using AB by (auto simp: doubleton_eq_iff)
  have dist: "distinct (xs @ i # ys)" using is_listD(1) [OF A] by (simp add: distinct_map del: map_append)
  have vi: "valid_node (S_next i)" using is_listD(4) [OF A, of "S_next i"] by simp
  obtain h1 where h1: "list_del (S_next i) (cells s) = Some h1" "is_list h1 A (map S_next (xs @ ys))"
      "\<forall>n. n \<notin> set (A # map S_next (xs @ ys)) \<longrightarrow> h1 n = cells s n"
    using list_del_is_list [of "cells s" A "map S_next xs" "S_next i" "map S_next ys"] A by auto
  have "is_list h1 B (map S_next zs)"
  proof (rule is_list_frame [OF B], rule ballI)
    fix n assume "n \<in> set (B # map S_next zs)"
    then have "n \<notin> set (A # map S_next (xs @ ys))" using AB' d by auto
    then show "h1 n = cells s n" using h1(3) by blast
  qed
  then obtain h2 where h2: "list_add (S_next i) B h1 = Some h2" "is_list h2 B (map S_next (i # zs))"
      "\<forall>n. n \<notin> set (S_next i # B # map S_next zs) \<longrightarrow> h2 n = h1 n"
    using list_add_head [of h1 B "map S_next zs" "S_next i"] vi AB' d by auto
  have "is_list h2 A (map S_next (xs @ ys))"
  proof (rule is_list_frame [OF h1(2)], rule ballI)
    fix n assume "n \<in> set (A # map S_next (xs @ ys))"
    then have "n \<notin> set (S_next i # B # map S_next zs)" using AB' d dist by auto
    then show "h2 n = h1 n" using h2(3) by blast
  qed
  moreover have "\<forall>n. n \<notin> {Asl, SemdFree} \<union> range S_next \<longrightarrow> h2 n = cells s n"
  proof (intro allI impI)
    fix n assume n: "n \<notin> {Asl, SemdFree} \<union> range S_next"
    then have "n \<notin> set (A # map S_next (xs @ ys))" "n \<notin> set (S_next i # B # map S_next zs)"
      using AB by auto
    then show "h2 n = cells s n" using h1(3) h2(3) by metis
  qed
  ultimately show ?thesis using h1(1) h2(1,2) by (simp add: on_cells_def frame_def)
qed

text \<open>Queues whose members carry different keys have no member in common.\<close>

lemma keyed_queues_disjoint:
  assumes "inj_on K (set act)" and "\<forall>j\<in>set act. \<forall>q\<in>set (pq j). key q = K j" and "\<forall>j\<in>set sf. pq j = []"
    and "i \<in> set act" and "j \<in> set act \<union> set sf" and "j \<noteq> i"
  shows "set (pq j) \<inter> set (pq i) = {}"
proof (cases "j \<in> set act")
  case True
  then have "K j \<noteq> K i" using inj_onD [OF assms(1)] assms(4,6) by blast
  then show ?thesis using assms(2,4) True by (metis disjoint_iff)
qed (use assms(3,5) in auto)

lemma asl_block_on_spec:
  assumes lists: "is_list (cells s) Asl (map S_next act)" "is_list (cells s) SemdFree (map S_next sf)"
      "\<forall>j<MAXPROC. queue_at s (S_procQ j) (pq j)" "mset (act @ sf) = mset [0..<MAXPROC]"
    and i: "i \<in> set act" and ne: "\<forall>j\<in>set act - {i}. pq j \<noteq> []" "\<forall>j\<in>set sf. pq j = []"
    and keys: "inj_on ((\<lambda>j. s_key (semdTable s j))(i := k)) (set act)"
      "\<forall>j\<in>set act. \<forall>q\<in>set (pq j). p_semkey (pcbTable s q) = ((\<lambda>j. s_key (semdTable s j))(i := k)) j"
    and p: "p < MAXPROC" "\<forall>j<MAXPROC. p \<notin> set (pq j)"
  shows "\<exists>s'. asl_block_on (Ptr i) k (Ptr p) s = Some (False, s') \<and>
    asl_at s' act sf (pq(i := prio_insert (prio s) p (pq i))) \<and>
    pcbTable s' = (pcbTable s)(p := (pcbTable s p)\<lparr>p_semkey := k\<rparr>) \<and>
    semdTable s' = (semdTable s)(i := (semdTable s i)\<lparr>s_key := k\<rparr>) \<and>
    (\<forall>n. n \<notin> insert (S_procQ i) (P_next ` insert p (set (pq i))) \<longrightarrow> cells s' n = cells s n)"
proof -
  have sets: "set act \<union> set sf = {0..<MAXPROC}" "set act \<inter> set sf = {}"
    using distinct_mset_upt [OF lists(4)] by auto
  have im: "i < MAXPROC" using sets i by auto
  obtain s1 where s1: "pcb_insert_in_queue (S_procQ i) (Ptr p) s = Some s1"
      "queue_at s1 (S_procQ i) (prio_insert (prio s) p (pq i))"
      "frame (set (S_procQ i # map P_next (p # pq i))) s s1"
    using pcb_insert_in_queue_spec [of s "S_procQ i" "pq i" p] lists(3) im p by auto
  let ?s' = "s1\<lparr>semdTable := (semdTable s1)(i := (semdTable s1 i)\<lparr>s_key := k\<rparr>),
      pcbTable := (pcbTable s1)(p := (pcbTable s1 p)\<lparr>p_semkey := k\<rparr>)\<rparr>"
  let ?pq = "pq(i := prio_insert (prio s) p (pq i))"
  have run: "asl_block_on (Ptr i) k (Ptr p) s = Some (False, ?s')"
    using s1(1) im p(1) by (simp add: asl_block_on_def upd_semd_def upd_pcb_def deref_def)
  have disj: "set (pq j) \<inter> set (pq i) = {}" if "j < MAXPROC" "j \<noteq> i" for j
    by (rule keyed_queues_disjoint [OF keys(1,2) ne(2) i]) (use that sets in auto)
  have "queue_at ?s' (S_procQ j) (?pq j)" if j: "j < MAXPROC" for j
  proof (cases "j = i")
    case True
    then show ?thesis using s1(2) by simp
  next
    case False
    have "queue_at s1 (S_procQ j) (pq j)"
      by (rule is_list_frameI [OF _ s1(3)]) (use lists(3) j False disj [OF j False] p(2) in auto)
    then show ?thesis using False by simp
  qed
  moreover have "is_list (cells ?s') Asl (map S_next act)" "is_list (cells ?s') SemdFree (map S_next sf)"
    by (simp; rule is_list_frameI [OF lists(1) s1(3)] is_list_frameI [OF lists(2) s1(3)]; auto)+
  moreover have "\<forall>j\<in>set act. ?pq j \<noteq> []" using ne(1) by (auto simp: prio_insert_def)
  moreover have "\<forall>j\<in>set sf. ?pq j = []" using ne(2) i sets by auto
  moreover have "inj_on (\<lambda>j. s_key (semdTable ?s' j)) (set act)"
  proof -
    have "(\<lambda>j. s_key (semdTable ?s' j)) = (\<lambda>j. s_key (semdTable s j))(i := k)"
      using frameD(3) [OF s1(3)] by auto
    then show ?thesis using keys(1) by simp
  qed
  moreover have "\<forall>j\<in>set act. \<forall>q\<in>set (?pq j). p_semkey (pcbTable ?s' q) = s_key (semdTable ?s' j)"
  proof (intro ballI)
    fix j q assume j: "j \<in> set act" and q: "q \<in> set (?pq j)"
    have "j < MAXPROC" using sets j by auto
    then have "q = p \<Longrightarrow> j = i" using p(2) q by (auto split: if_splits)
    then show "p_semkey (pcbTable ?s' q) = s_key (semdTable ?s' j)"
      using keys(2) j q frameD(2,3) [OF s1(3)] by (auto split: if_splits)
  qed
  ultimately have "asl_at ?s' act sf ?pq" using lists(4) by (simp add: asl_at_def)
  then show ?thesis using run frameD [OF s1(3)] by (intro exI [of _ ?s']) auto
qed

lemma asl_full_blocked:
  assumes a: "asl_at s act [] pq"
  shows "{..<MAXPROC} \<subseteq> blocked (amap s act pq)"
proof -
  have act: "set act = {..<MAXPROC}" using asl_at_idx [OF a] by (simp add: set_eq_iff)
  let ?f = "\<lambda>i. hd (pq i)"
  have f: "?f i \<in> set (pq i)" if "i < MAXPROC" for i using asl_atD(4) [OF a, of i] act that by simp
  have sub: "?f ` {..<MAXPROC} \<subseteq> {..<MAXPROC}"
    using f queue_atD(2) [OF asl_atD(3) [OF a]] by blast
  have "inj_on ?f {..<MAXPROC}"
  proof (rule inj_onI)
    fix i j assume "i \<in> {..<MAXPROC}" "j \<in> {..<MAXPROC}" "?f i = ?f j"
    then show "i = j" using f asl_at_disjoint [OF a, of i j] by (metis disjoint_iff lessThan_iff)
  qed
  then have "?f ` {..<MAXPROC} = {..<MAXPROC}"
    using sub by (metis endo_inj_surj finite_lessThan)
  moreover have "?f ` {..<MAXPROC} \<subseteq> blocked (amap s act pq)"
    using f asl_at_blocked [OF a] by auto
  ultimately show ?thesis by simp
qed

lemma asl_insert_active:
  assumes a: "asl_at s act sf pq" and i: "i \<in> set act" and k: "s_key (semdTable s i) = k"
    and p: "p < MAXPROC" "p \<notin> blocked (amap s act pq)"
  shows "\<exists>s'. asl_block_on (Ptr i) k (Ptr p) s = Some (False, s') \<and>
    asl_rel s' ((amap s act pq)(k := prio_insert (prio s) p (pq i))) \<and>
    pcbTable s' = (pcbTable s)(p := (pcbTable s p)\<lparr>p_semkey := k\<rparr>) \<and>
    (\<forall>n. n \<notin> asl_nodes \<union> P_next ` insert p (blocked (amap s act pq)) \<longrightarrow> cells s' n = cells s n)"
proof -
  let ?m = "amap s act pq" and ?pq = "pq(i := prio_insert (prio s) p (pq i))"
  have im: "i < MAXPROC" using asl_at_sets(4) [OF a] i by auto
  have kk: "(\<lambda>j. s_key (semdTable s j))(i := k) = (\<lambda>j. s_key (semdTable s j))" using k by auto
  have pq: "\<forall>j<MAXPROC. p \<notin> set (pq j)" using asl_at_blocked [OF a] p(2) by blast
  have lists: "\<forall>j<MAXPROC. queue_at s (S_procQ j) (pq j)" "mset (act @ sf) = mset [0..<MAXPROC]"
    using a by (auto simp: asl_at_def)
  obtain s' where s': "asl_block_on (Ptr i) k (Ptr p) s = Some (False, s')" "asl_at s' act sf ?pq"
    "pcbTable s' = (pcbTable s)(p := (pcbTable s p)\<lparr>p_semkey := k\<rparr>)"
    "semdTable s' = (semdTable s)(i := (semdTable s i)\<lparr>s_key := k\<rparr>)"
    "\<forall>n. n \<notin> insert (S_procQ i) (P_next ` insert p (set (pq i))) \<longrightarrow> cells s' n = cells s n"
    using asl_block_on_spec [OF asl_atD(1,2) [OF a] lists i, of k p, unfolded kk]
      asl_atD(4,5,6,7) [OF a] p(1) pq by auto
  have keys: "s_key (semdTable s' j) = s_key (semdTable s j)" for j using s'(4) k by simp
  have "?m(k := prio_insert (prio s) p (pq i)) = amap s' act ?pq"
  proof (rule amap_eqI [OF asl_atD(6) [OF s'(2)]])
    fix j assume j: "j \<in> set act"
    then have "s_key (semdTable s j) = k \<longleftrightarrow> j = i"
      using i k asl_atD(6) [OF a] by (auto simp: inj_on_def)
    then show "(?m(k := prio_insert (prio s) p (pq i))) (s_key (semdTable s' j)) = ?pq j"
      using amap_active [OF asl_atD(6) [OF a] j] by (simp add: keys)
  next
    fix k' assume "k' \<notin> (\<lambda>i. s_key (semdTable s' i)) ` set act"
    then show "(?m(k := prio_insert (prio s) p (pq i))) k' = []"
      using i k amap_inactive [of k' s act pq] by (auto simp: keys)
  qed
  then have "asl_rel s' (?m(k := prio_insert (prio s) p (pq i)))" using s'(2) by (auto simp: asl_rel_def)
  moreover have "\<forall>n. n \<notin> asl_nodes \<union> P_next ` insert p (blocked ?m) \<longrightarrow> cells s' n = cells s n"
  proof (intro allI impI)
    fix n assume "n \<notin> asl_nodes \<union> P_next ` insert p (blocked ?m)"
    then have "n \<notin> insert (S_procQ i) (P_next ` insert p (set (pq i)))"
      using asl_at_blocked [OF a im] by (auto simp: asl_nodes_def)
    then show "cells s' n = cells s n" using s'(5) by blast
  qed
  ultimately show ?thesis using s'(1,3) by blast
qed

text \<open>A descriptor more, an empty one less, and another queue for one of them.\<close>

lemma amap_add:
  assumes inj: "inj_on (\<lambda>j. s_key (semdTable s j)) (set act)" "inj_on (\<lambda>j. s_key (semdTable s' j)) (set (i # act))"
    and t: "semdTable s' = (semdTable s)(i := (semdTable s i)\<lparr>s_key := k\<rparr>)"
    and i: "i \<notin> set act" and k: "k \<notin> (\<lambda>j. s_key (semdTable s j)) ` set act"
  shows "(amap s act pq)(k := xs) = amap s' (i # act) (pq(i := xs))"
proof (rule amap_eqI [OF inj(2)])
  fix j assume "j \<in> set (i # act)"
  then show "((amap s act pq)(k := xs)) (s_key (semdTable s' j)) = (pq(i := xs)) j"
    using amap_active [OF inj(1), of j pq] k i t by (cases "j = i") auto
next
  fix k' assume "k' \<notin> (\<lambda>i. s_key (semdTable s' i)) ` set (i # act)"
  then show "((amap s act pq)(k := xs)) k' = []"
    using amap_inactive [of k' s act pq] t i by (force simp: image_iff split: if_splits)
qed

lemma amap_drop:
  assumes inj: "inj_on (\<lambda>j. s_key (semdTable s j)) (set act)" and act: "act = xs @ i # ys" and e: "pq i = []"
    and t: "semdTable s' = semdTable s"
  shows "amap s act pq = amap s' (xs @ ys) pq"
proof (rule amap_eqI)
  show "inj_on (\<lambda>j. s_key (semdTable s' j)) (set (xs @ ys))" using inj by (auto simp: act t inj_on_def)
next
  fix j assume "j \<in> set (xs @ ys)"
  then show "amap s act pq (s_key (semdTable s' j)) = pq j"
    using amap_active [OF inj, of j pq] act t by auto
next
  fix k assume k: "k \<notin> (\<lambda>i. s_key (semdTable s' i)) ` set (xs @ ys)"
  have "amap s act pq (s_key (semdTable s i)) = []" using amap_active [OF inj, of i pq] e act by simp
  then show "amap s act pq k = []" using k act t amap_inactive [of k s act pq]
    by (cases "k = s_key (semdTable s i)") auto
qed

lemma amap_upd:
  assumes inj: "inj_on (\<lambda>j. s_key (semdTable s j)) (set act)" and i: "i \<in> set act" and t: "semdTable s' = semdTable s"
  shows "(amap s act pq)(s_key (semdTable s i) := xs) = amap s' act (pq(i := xs))"
proof (rule amap_eqI)
  show "inj_on (\<lambda>j. s_key (semdTable s' j)) (set act)" using inj t by simp
next
  fix j assume j: "j \<in> set act"
  then have "s_key (semdTable s j) = s_key (semdTable s i) \<longleftrightarrow> j = i" using i inj by (auto simp: inj_on_def)
  then show "((amap s act pq)(s_key (semdTable s i) := xs)) (s_key (semdTable s' j)) = (pq(i := xs)) j"
    using amap_active [OF inj j] t by simp
next
  fix k assume "k \<notin> (\<lambda>i. s_key (semdTable s' i)) ` set act"
  then show "((amap s act pq)(s_key (semdTable s i) := xs)) k = []"
    using amap_inactive [of k s act pq] i t by auto
qed

text \<open>The first process on a key: the first free descriptor becomes active, at the head of the list.\<close>

lemma asl_insert_new:
  assumes a: "asl_at s act (i # sf) pq" and k: "k \<notin> (\<lambda>j. s_key (semdTable s j)) ` set act"
    and p: "p < MAXPROC" "p \<notin> blocked (amap s act pq)"
  shows "\<exists>s1 s2 s'. on_cells (list_del (S_next i)) s = Some s1 \<and>
    on_cells (list_add (S_next i) Asl) s1 = Some s2 \<and> asl_block_on (Ptr i) k (Ptr p) s2 = Some (False, s') \<and>
    asl_rel s' ((amap s act pq)(k := [p])) \<and>
    pcbTable s' = (pcbTable s)(p := (pcbTable s p)\<lparr>p_semkey := k\<rparr>) \<and>
    (\<forall>n. n \<notin> asl_nodes \<union> P_next ` insert p (blocked (amap s act pq)) \<longrightarrow> cells s' n = cells s n)"
proof -
  let ?m = "amap s act pq" and ?pq = "pq(i := [p])"
  note sets = asl_at_sets [OF a]
  have i: "i < MAXPROC" "i \<notin> set act" "pq i = []" using sets asl_atD(5) [OF a] by auto
  have pq: "\<forall>j<MAXPROC. p \<notin> set (pq j)" using asl_at_blocked [OF a] p(2) by blast
  have l: "is_list (cells s) SemdFree (map S_next ([] @ i # sf))" using asl_atD(2) [OF a] by simp
  have dj: "set ([] @ i # sf) \<inter> set act = {}" using sets(3) by auto
  obtain s1 s2 where s12: "on_cells (list_del (S_next i)) s = Some s1"
      "on_cells (list_add (S_next i) Asl) s1 = Some s2"
      "is_list (cells s2) SemdFree (map S_next sf)" "is_list (cells s2) Asl (map S_next (i # act))"
      "frame ({Asl, SemdFree} \<union> range S_next) s s2"
    using semd_move [OF l asl_atD(1) [OF a] _ dj] by auto
  have tab: "pcbTable s2 = pcbTable s" "semdTable s2 = semdTable s" using frameD [OF s12(5)] by auto
  have q2: "\<forall>j<MAXPROC. queue_at s2 (S_procQ j) (pq j)"
    using asl_atD(3) [OF a] by (auto intro: is_list_frameI [OF _ s12(5)])
  have inj: "inj_on ((\<lambda>j. s_key (semdTable s2 j))(i := k)) (set (i # act))"
    using asl_atD(6) [OF a] k i(2) tab by (auto simp: inj_on_def image_iff)
  have ms: "mset ((i # act) @ sf) = mset [0..<MAXPROC]" using a by (simp add: asl_at_def)
  have keys: "\<forall>j\<in>set (i # act). \<forall>q\<in>set (pq j). p_semkey (pcbTable s2 q) =
      ((\<lambda>j. s_key (semdTable s2 j))(i := k)) j"
    using asl_atD(7) [OF a] i tab by auto
  obtain s' where s': "asl_block_on (Ptr i) k (Ptr p) s2 = Some (False, s')" "asl_at s' (i # act) sf ?pq"
    "pcbTable s' = (pcbTable s)(p := (pcbTable s p)\<lparr>p_semkey := k\<rparr>)"
    "semdTable s' = (semdTable s)(i := (semdTable s i)\<lparr>s_key := k\<rparr>)"
    "\<forall>n. n \<notin> insert (S_procQ i) (P_next ` insert p (set (pq i))) \<longrightarrow> cells s' n = cells s2 n"
    using asl_block_on_spec [OF s12(4,3) q2 ms _ _ _ inj keys p(1) pq] asl_atD(4,5) [OF a] tab i(3)
    by (auto simp: prio_insert_def)
  have "?m(k := [p]) = amap s' (i # act) ?pq"
    by (rule amap_add [OF asl_atD(6) [OF a] asl_atD(6) [OF s'(2)] s'(4) i(2) k])
  then have "asl_rel s' (?m(k := [p]))" using s'(2) by (auto simp: asl_rel_def)
  moreover have "\<forall>n. n \<notin> asl_nodes \<union> P_next ` insert p (blocked ?m) \<longrightarrow> cells s' n = cells s n"
  proof (intro allI impI)
    fix n assume "n \<notin> asl_nodes \<union> P_next ` insert p (blocked ?m)"
    then have "n \<notin> insert (S_procQ i) (P_next ` insert p (set (pq i)))"
        "n \<notin> {Asl, SemdFree} \<union> range S_next"
      using i(3) by (auto simp: asl_nodes_def)
    then show "cells s' n = cells s n" using s'(5) frameD(1) [OF s12(5)] by metis
  qed
  ultimately show ?thesis using s12(1,2) s'(1,3) by blast
qed

text \<open>
  Blocking. A process that is on no semaphore is always inserted: at most \<open>MAXPROC - 1\<close> others can
  be blocked, so there are at most that many active descriptors and one is free.
\<close>

lemma asl_insert_blocked_spec:
  assumes r: "asl_rel s m" and p: "p < MAXPROC" "p \<notin> blocked m"
  shows "\<exists>s'. asl_insert_blocked k (Ptr p) s = Some (False, s') \<and>
    asl_rel s' (m(k := prio_insert (prio s) p (m k))) \<and>
    pcbTable s' = (pcbTable s)(p := (pcbTable s p)\<lparr>p_semkey := k\<rparr>) \<and>
    (\<forall>n. n \<notin> asl_nodes \<union> P_next ` insert p (blocked m) \<longrightarrow> cells s' n = cells s n)"
proof -
  obtain act sf pq where a: "asl_at s act sf pq" and m: "m = amap s act pq"
    using r by (auto simp: asl_rel_def)
  show ?thesis
  proof (cases rule: asl_rel_cases [OF a, of k, case_names active inactive])
    case (active i)
    then show ?thesis
      using asl_insert_active [OF a active(1,2) p(1)] p(2) m by (auto simp: asl_insert_blocked_def)
  next
    case inactive
    obtain i sf' where sf: "sf = i # sf'"
      using asl_full_blocked a m p by (cases sf) auto
    have l: "is_list (cells s) SemdFree (map S_next (i # sf'))" using asl_atD(2) [OF a] sf by simp
    obtain s1 s2 s' where s': "on_cells (list_del (S_next i)) s = Some s1"
      "on_cells (list_add (S_next i) Asl) s1 = Some s2" "asl_block_on (Ptr i) k (Ptr p) s2 = Some (False, s')"
      "asl_rel s' (m(k := [p]))" "pcbTable s' = (pcbTable s)(p := (pcbTable s p)\<lparr>p_semkey := k\<rparr>)"
      "\<forall>n. n \<notin> asl_nodes \<union> P_next ` insert p (blocked m) \<longrightarrow> cells s' n = cells s n"
      using asl_insert_new [OF a [unfolded sf] inactive(1) p(1)] p(2) m by auto
    have "prio_insert (prio s) p (m k) = [p]" using inactive(2) m by (simp add: prio_insert_def)
    moreover have "asl_insert_blocked k (Ptr p) s = Some (False, s')"
      using inactive(3) list_empty_is_list [OF l] list_next_is_list [OF l] s'(1-3)
      by (simp add: asl_insert_blocked_def)
    ultimately show ?thesis using s'(4-6) by auto
  qed
qed

lemma asl_release_spec:
  assumes lists: "is_list (cells s) Asl (map S_next act)" "is_list (cells s) SemdFree (map S_next sf)"
      "\<forall>j<MAXPROC. queue_at s (S_procQ j) (pq j)" "mset (act @ sf) = mset [0..<MAXPROC]"
    and i: "i \<in> set act" and ne: "\<forall>j\<in>set act - {i}. pq j \<noteq> []" "\<forall>j\<in>set sf. pq j = []"
    and keys: "inj_on (\<lambda>j. s_key (semdTable s j)) (set act)"
      "\<forall>j\<in>set act. \<forall>q\<in>set (pq j). p_semkey (pcbTable s q) = s_key (semdTable s j)"
  shows "\<exists>s'. asl_release_if_empty (Ptr i) s = Some s' \<and> asl_rel s' (amap s act pq) \<and>
    frame ({Asl, SemdFree} \<union> range S_next) s s'"
proof -
  have set: "set act \<union> set sf = {0..<MAXPROC}" "set act \<inter> set sf = {}" "distinct act"
    using distinct_mset_upt [OF lists(4)] by auto
  have im: "i < MAXPROC" using set(1) i by (simp add: set_eq_iff) blast
  have e: "list_empty (S_procQ i) (cells s) = Some (pq i = [])"
    using list_empty_is_list lists(3) im by fastforce
  show ?thesis
  proof (cases "pq i = []")
    case False
    then have "asl_at s act sf pq" using lists ne keys by (auto simp: asl_at_def)
    then show ?thesis using e False by (auto simp: asl_release_if_empty_def frame_def asl_rel_def)
  next
    case True
    obtain xs ys where act: "act = xs @ i # ys" using i by (meson split_list)
    obtain s1 s2 where s12: "on_cells (list_del (S_next i)) s = Some s1"
        "on_cells (list_add (S_next i) SemdFree) s1 = Some s2"
        "is_list (cells s2) Asl (map S_next (xs @ ys))" "is_list (cells s2) SemdFree (map S_next (i # sf))"
        "frame ({Asl, SemdFree} \<union> range S_next) s s2"
      using semd_move [OF lists(1) [unfolded act] lists(2)] set(2) act by auto
    have tab: "pcbTable s2 = pcbTable s" "semdTable s2 = semdTable s" using frameD [OF s12(5)] by auto
    have "\<forall>j<MAXPROC. queue_at s2 (S_procQ j) (pq j)"
      using lists(3) by (auto intro: is_list_frameI [OF _ s12(5)])
    then have at: "asl_at s2 (xs @ ys) (i # sf) pq"
      using s12(3,4) lists(4) ne keys True set(3) tab act
      by (auto simp: asl_at_def inj_on_def)
    have "amap s act pq = amap s2 (xs @ ys) pq"
      by (rule amap_drop [OF keys(1) act _ tab(2)]) (rule True)
    then have "asl_rel s2 (amap s act pq)" using at by (auto simp: asl_rel_def)
    then show ?thesis using e True s12(1,2,5) by (auto simp: asl_release_if_empty_def)
  qed
qed

text \<open>Taking one process out of the queue of an active descriptor, which may free the descriptor.\<close>

lemma asl_unblock:
  assumes a: "asl_at s act sf pq" and i: "i \<in> set act" and q: "pq i = xs @ p # ys"
  shows "\<exists>s1 s2. on_cells (list_del (P_next p)) s = Some s1 \<and> asl_release_if_empty (Ptr i) s1 = Some s2 \<and>
    asl_rel s2 ((amap s act pq)(s_key (semdTable s i) := xs @ ys)) \<and>
    frame (asl_nodes \<union> P_next ` (blocked (amap s act pq) - {p})) s s2"
proof -
  let ?m = "amap s act pq" and ?pq = "pq(i := xs @ ys)"
  have im: "i < MAXPROC" using asl_at_idx [OF a] i by blast
  have qi: "queue_at s (S_procQ i) (xs @ p # ys)" using asl_atD(3) [OF a im] q by simp
  obtain s1 where s1: "on_cells (list_del (P_next p)) s = Some s1" "queue_at s1 (S_procQ i) (xs @ ys)"
      "frame (set (S_procQ i # map P_next (xs @ ys))) s s1"
    using list_del_queue [OF qi] by auto
  have tab: "pcbTable s1 = pcbTable s" "semdTable s1 = semdTable s" using frameD [OF s1(3)] by auto
  have lists: "is_list (cells s1) Asl (map S_next act)" "is_list (cells s1) SemdFree (map S_next sf)"
    by (rule is_list_frameI [OF asl_atD(1) [OF a] s1(3)] is_list_frameI [OF asl_atD(2) [OF a] s1(3)]; auto)+
  have qs: "\<forall>j<MAXPROC. queue_at s1 (S_procQ j) (?pq j)"
  proof (intro allI impI)
    fix j assume j: "j < MAXPROC"
    show "queue_at s1 (S_procQ j) (?pq j)"
    proof (cases "j = i")
      case False
      then have "set (pq j) \<inter> set (xs @ ys) = {}" using asl_at_disjoint [OF a j im False] q by auto
      then have "queue_at s1 (S_procQ j) (pq j)"
        using False by (intro is_list_frameI [OF asl_atD(3) [OF a j] s1(3)]) auto
      then show ?thesis using False by simp
    qed (use s1(2) in simp)
  qed
  have "\<exists>s'. asl_release_if_empty (Ptr i) s1 = Some s' \<and> asl_rel s' (amap s1 act ?pq) \<and>
      frame ({Asl, SemdFree} \<union> range S_next) s1 s'"
    using a asl_atD(4-7) [OF a] asl_at_sets(3) [OF a] i q tab
    by (intro asl_release_spec [OF lists qs]) (auto simp: asl_at_def)
  then obtain s2 where s2: "asl_release_if_empty (Ptr i) s1 = Some s2" "asl_rel s2 (amap s1 act ?pq)"
      "frame ({Asl, SemdFree} \<union> range S_next) s1 s2" by auto
  have "?m(s_key (semdTable s i) := xs @ ys) = amap s1 act ?pq"
    by (rule amap_upd [OF asl_atD(6) [OF a] i tab(2)])
  moreover have "set (xs @ ys) \<subseteq> blocked ?m - {p}"
    using asl_at_blocked [OF a im] queue_atD(1) [OF qi] q by auto
  then have "frame (asl_nodes \<union> P_next ` (blocked ?m - {p})) s s2"
    using frame_trans [OF s1(3) s2(3)] by (rule_tac frame_mono) (auto simp: asl_nodes_def)
  ultimately show ?thesis using s1(1) s2(1,2) by auto
qed

lemma asl_remove_blocked_spec:
  assumes r: "asl_rel s m" and mk: "m k = p # ps"
  shows "\<exists>s'. asl_remove_blocked k s = Some (Ptr p, s') \<and> asl_rel s' (m(k := ps)) \<and>
    pcbTable s' = (pcbTable s)(p := (pcbTable s p)\<lparr>p_semkey := 0\<rparr>) \<and>
    (\<forall>n. n \<notin> asl_nodes \<union> P_next ` (blocked m - {p}) \<longrightarrow> cells s' n = cells s n)"
proof -
  obtain act sf pq where a: "asl_at s act sf pq" and m: "m = amap s act pq"
    using r by (auto simp: asl_rel_def)
  show ?thesis
  proof (cases rule: asl_rel_cases [OF a, of k, case_names active inactive])
    case (active i)
    have q: "pq i = [] @ p # ps" using active(3) m mk by simp
    obtain s1 s2 where s12: "on_cells (list_del (P_next p)) s = Some s1"
        "asl_release_if_empty (Ptr i) s1 = Some s2" "asl_rel s2 (m(k := ps))"
        "frame (asl_nodes \<union> P_next ` (blocked m - {p})) s s2"
      using asl_unblock [OF a active(1) q] m active(2) by auto
    let ?s' = "s2\<lparr>pcbTable := (pcbTable s2)(p := (pcbTable s2 p)\<lparr>p_semkey := 0\<rparr>)\<rparr>"
    have p: "p < MAXPROC" "p \<notin> set ps" using asl_relD(1) [OF r, of p k] asl_rel_distinct [OF r, of k] mk by auto
    have "list_next (S_procQ i) (cells s) = Some (P_next p)"
      using list_next_is_list [OF asl_atD(3) [OF a active(5)]] q by simp
    then have "asl_remove_blocked k s = Some (Ptr p, ?s')"
      using active(4) s12(1,2) p(1) by (simp add: asl_remove_blocked_def upd_pcb_def deref_def)
    moreover have "x = k" if "p \<in> set (m x)" for x
      using asl_relD(2) [OF r that] asl_relD(2) [OF r, of p k] mk by simp
    then have "p \<notin> blocked (m(k := ps))" using p(2) by (auto simp: blocked_def split: if_splits)
    then have "asl_rel ?s' (m(k := ps))" by (intro asl_rel_frame [OF s12(3)]) auto
    ultimately show ?thesis using frameD [OF s12(4)] by (intro exI [of _ ?s']) simp
  qed (use m mk in simp)
qed

lemma asl_remove_blocked_none:
  assumes "asl_rel s m" and "m k = []"
  shows "asl_remove_blocked k s = Some (Null, s)" "asl_semd k s = Some Null"
proof -
  obtain act sf pq where a: "asl_at s act sf pq" and m: "m = amap s act pq"
    using assms(1) by (auto simp: asl_rel_def)
  show "asl_semd k s = Some Null"
    by (cases rule: asl_rel_cases [OF a, of k]) (use asl_atD(4) [OF a] assms(2) m in auto)
  then show "asl_remove_blocked k s = Some (Null, s)" by (simp add: asl_remove_blocked_def)
qed

lemma asl_semd_some:
  assumes "asl_rel s m" and "m k \<noteq> []"
  shows "\<exists>i. asl_semd k s = Some (Ptr i)"
proof -
  obtain act sf pq where a: "asl_at s act sf pq" and m: "m = amap s act pq"
    using assms(1) by (auto simp: asl_rel_def)
  show ?thesis by (cases rule: asl_rel_cases [OF a, of k]) (use assms(2) m in auto)
qed

lemma asl_find_and_remove_blocked_spec:
  assumes r: "asl_rel s m" and b: "p \<in> blocked m"
  defines "k \<equiv> p_semkey (pcbTable s p)"
  shows "\<exists>s'. asl_find_and_remove_blocked (Ptr p) s = Some (Ptr p, s') \<and>
    asl_rel s' (m(k := filter (\<lambda>q. q \<noteq> p) (m k))) \<and>
    frame (asl_nodes \<union> P_next ` (blocked m - {p})) s s'"
proof -
  obtain act sf pq where a: "asl_at s act sf pq" and m: "m = amap s act pq"
    using r by (auto simp: asl_rel_def)
  have pk: "p \<in> set (m k)" using blocked_iff [OF r] b by (simp add: k_def)
  have p: "p < MAXPROC" using asl_relD(1) [OF r pk] .
  show ?thesis
  proof (cases rule: asl_rel_cases [OF a, of k, case_names active inactive])
    case (active i)
    obtain xs ys where q: "pq i = xs @ p # ys" using pk active(3) m by (metis split_list)
    have f: "filter (\<lambda>q. q \<noteq> p) (m k) = xs @ ys"
      using asl_rel_distinct [OF r, of k] active(3) m q by (simp only: filter_neq_split)
    obtain s1 s2 where s12: "on_cells (list_del (P_next p)) s = Some s1"
        "asl_release_if_empty (Ptr i) s1 = Some s2" "asl_rel s2 (m(k := xs @ ys))"
        "frame (asl_nodes \<union> P_next ` (blocked m - {p})) s s2"
      using asl_unblock [OF a active(1) q] m active(2) by auto
    have "list_find (\<lambda>n. do { q \<leftarrow> container_of_p_next n; Some (q = Ptr p) }) (S_procQ i) (cells s)
        = Some (P_next p)"
      using queue_find_ptr [OF asl_atD(3) [OF a active(5)], of p] q by simp
    then have "asl_find_and_remove_blocked (Ptr p) s = Some (Ptr p, s2)"
      using active(4) s12(1,2) p
      by (simp add: asl_find_and_remove_blocked_def get_pcb_def deref_def flip: k_def)
    then show ?thesis using s12(3,4) f by auto
  qed (use m pk in simp)
qed

lemma asl_find_and_remove_blocked_none:
  assumes r: "asl_rel s m" and b: "p \<notin> blocked m" and p: "p < MAXPROC"
  shows "asl_find_and_remove_blocked (Ptr p) s = Some (Null, s)"
proof -
  obtain act sf pq where a: "asl_at s act sf pq" and m: "m = amap s act pq"
    using r by (auto simp: asl_rel_def)
  show ?thesis
  proof (cases rule: asl_rel_cases [OF a, of "p_semkey (pcbTable s p)", case_names active inactive])
    case (active i)
    have "p \<notin> set (pq i)" using asl_at_blocked [OF a active(5)] b m by blast
    then show ?thesis using active(4) p queue_find_ptr [OF asl_atD(3) [OF a active(5)], of p]
      by (simp add: asl_find_and_remove_blocked_def get_pcb_def deref_def)
  next
    case inactive
    then show ?thesis using p by (simp add: asl_find_and_remove_blocked_def get_pcb_def deref_def)
  qed
qed

lemma asl_blocked_head_spec:
  assumes "asl_rel s m"
  shows "asl_blocked_head k s = Some (case m k of [] \<Rightarrow> Null | p # _ \<Rightarrow> Ptr p)"
proof -
  obtain act sf pq where a: "asl_at s act sf pq" and m: "m = amap s act pq"
    using assms by (auto simp: asl_rel_def)
  show ?thesis
  proof (cases rule: asl_rel_cases [OF a, of k, case_names active inactive])
    case (active i)
    then show ?thesis
      using list_next_is_list [OF asl_atD(3) [OF a active(5)]]
        list_empty_is_list [OF asl_atD(3) [OF a active(5)]] asl_atD(4) [OF a active(1)] m
      by (auto simp: asl_blocked_head_def split: list.splits)
  next
    case inactive
    then show ?thesis using m by (simp add: asl_blocked_head_def)
  qed
qed

section \<open>Initialisation\<close>

lemma asl_init_loop:
  assumes "is_list (cells s) SemdFree []" and "n \<le> MAXPROC"
  shows "\<exists>s'. for_each [0..<n] (\<lambda>i s. do {
       s \<leftarrow> upd_semd (Ptr i) (\<lambda>d. d\<lparr>s_key := 0\<rparr>) s;
       s \<leftarrow> on_cells (INIT_LIST_HEAD (S_procQ i)) s;
       on_cells (list_add (S_next i) SemdFree) s }) s = Some s' \<and>
    is_list (cells s') SemdFree (map S_next (rev [0..<n])) \<and> (\<forall>i<n. queue_at s' (S_procQ i) []) \<and>
    pcbTable s' = pcbTable s \<and>
    (\<forall>x. x \<notin> insert SemdFree (range S_next \<union> range S_procQ) \<longrightarrow> cells s' x = cells s x)"
    (is "\<exists>s'. for_each _ ?body s = _ \<and> _")
  using assms(2)
proof (induction n)
  case 0
  then show ?case using assms(1) by simp
next
  case (Suc n)
  then obtain s1 where s1: "for_each [0..<n] ?body s = Some s1"
      "is_list (cells s1) SemdFree (map S_next (rev [0..<n]))" "\<forall>i<n. queue_at s1 (S_procQ i) []"
      "pcbTable s1 = pcbTable s"
      "\<forall>x. x \<notin> insert SemdFree (range S_next \<union> range S_procQ) \<longrightarrow> cells s1 x = cells s x"
    by auto
  obtain h2 where h2: "INIT_LIST_HEAD (S_procQ n) (cells s1) = Some h2" "is_list h2 (S_procQ n) []"
      "\<forall>x. x \<noteq> S_procQ n \<longrightarrow> h2 x = cells s1 x"
    using INIT_LIST_HEAD_is_list [of "S_procQ n" "cells s1"] Suc.prems by auto
  have "is_list h2 SemdFree (map S_next (rev [0..<n]))"
    by (rule is_list_frame [OF s1(2)]) (use h2(3) in auto)
  then obtain h3 where h3: "list_add (S_next n) SemdFree h2 = Some h3"
      "is_list h3 SemdFree (S_next n # map S_next (rev [0..<n]))"
      "\<forall>x. x \<notin> set (S_next n # SemdFree # map S_next (rev [0..<n])) \<longrightarrow> h3 x = h2 x"
    using list_add_head [of h2 SemdFree "map S_next (rev [0..<n])" "S_next n"] Suc.prems
    by (auto simp: image_iff)
  have "is_list h3 (S_procQ i) []" if "i < Suc n" for i
  proof (cases "i = n")
    case True
    have "is_list h3 (S_procQ n) []" by (rule is_list_frame [OF h2(2)]) (use h3(3) in auto)
    with True show ?thesis by simp
  next
    case False
    then have "is_list (cells s1) (S_procQ i) []" using s1(3) that by simp
    then show ?thesis by (rule is_list_frame) (use False h2(3) h3(3) in \<open>auto simp: image_iff\<close>)
  qed
  moreover have "h3 x = cells s x" if x: "x \<notin> insert SemdFree (range S_next \<union> range S_procQ)" for x
  proof -
    have "x \<notin> set (S_next n # SemdFree # map S_next (rev [0..<n]))" "x \<noteq> S_procQ n" using x by auto
    then show ?thesis using s1(5) h2(3) h3(3) x by metis
  qed
  ultimately show ?case
    using s1(1,4) h2(1) h3(1,2) Suc.prems
    by (simp add: for_each_append upd_semd_def deref_def on_cells_def)
qed

lemma asl_init_spec:
  assumes "is_list (cells s) SemdFree []" and "is_list (cells s) Asl []"
  shows "\<exists>s'. asl_init s = Some s' \<and> asl_rel s' (\<lambda>_. []) \<and> pcbTable s' = pcbTable s \<and>
    (\<forall>n. n \<notin> asl_nodes \<longrightarrow> cells s' n = cells s n)"
proof -
  obtain s' where s': "asl_init s = Some s'"
    "is_list (cells s') SemdFree (map S_next (rev [0..<MAXPROC]))"
    "\<forall>i<MAXPROC. queue_at s' (S_procQ i) []" "pcbTable s' = pcbTable s"
    "\<forall>n. n \<notin> insert SemdFree (range S_next \<union> range S_procQ) \<longrightarrow> cells s' n = cells s n"
    using asl_init_loop [OF assms(1), of MAXPROC] by (auto simp: asl_init_def)
  have "is_list (cells s') Asl []" by (rule is_list_frame [OF assms(2)]) (use s'(5) in auto)
  then have "asl_at s' [] (rev [0..<MAXPROC]) (\<lambda>_. [])"
    using s'(2,3) by (simp add: asl_at_def)
  then have "asl_rel s' (\<lambda>_. [])" unfolding asl_rel_def
    by (intro exI [of _ "[]"] exI [of _ "rev [0..<MAXPROC]"] exI [of _ "\<lambda>_. []"])
      (simp add: amap_def fun_eq_iff)
  then show ?thesis using s'(1,4,5) by (auto simp: asl_nodes_def)
qed

section \<open>The blocking contract\<close>

text \<open>
  What the scheduler, the system calls and the interrupt handler rely on: a process that is not
  blocked can always be blocked, it is queued by priority, and unblocking takes the first of the
  queue. While the other semaphores keep their processes \<open>rest\<close>, one of them is a process queue, so the
  contract of \<open>prio_queue\<close> follows for it.
\<close>

locale blocking =
  fixes block :: "u32 \<Rightarrow> ptr \<Rightarrow> 's \<Rightarrow> (bool \<times> 's) option"
    and unblock :: "u32 \<Rightarrow> 's \<Rightarrow> (ptr \<times> 's) option"
    and rel :: "'s \<Rightarrow> (u32 \<Rightarrow> nat list) \<Rightarrow> bool"
    and prio :: "'s \<Rightarrow> nat \<Rightarrow> int"
    and ok :: "nat \<Rightarrow> bool"
  assumes block_rel: "rel s m \<Longrightarrow> ok p \<Longrightarrow> p \<notin> blocked m \<Longrightarrow>
      \<exists>s'. block k (Ptr p) s = Some (False, s') \<and> rel s' (m(k := prio_insert (prio s) p (m k))) \<and> prio s' = prio s"
    and unblock_rel: "rel s m \<Longrightarrow> m k = p # ps \<Longrightarrow>
      \<exists>s'. unblock k s = Some (Ptr p, s') \<and> rel s' (m(k := ps)) \<and> prio s' = prio s"
    and unblock_none: "rel s m \<Longrightarrow> m k = [] \<Longrightarrow> unblock k s = Some (Null, s)"
begin

definition enqueue :: "u32 \<Rightarrow> ptr \<Rightarrow> 's \<Rightarrow> 's option" where
  "enqueue k p s = map_option snd (block k p s)"

lemma block_unblock:
  assumes "rel s m" and "m k = []" and "ok p" and "p \<notin> blocked m"
  shows "\<exists>s1 s2. block k (Ptr p) s = Some (False, s1) \<and> unblock k s1 = Some (Ptr p, s2) \<and> rel s2 m"
proof -
  obtain s1 where s1: "block k (Ptr p) s = Some (False, s1)" "rel s1 (m(k := [p]))"
    using block_rel [OF assms(1,3,4), of k] assms(2) by (auto simp: prio_insert_def)
  obtain s2 where "unblock k s1 = Some (Ptr p, s2)" "rel s2 (m(k := []))"
    using unblock_rel [OF s1(2), of k p "[]"] by auto
  then show ?thesis using s1(1) assms(2) by (auto simp: fun_upd_idem)
qed

end

locale blocking_beside = blocking +
  fixes rest :: "u32 \<Rightarrow> nat list"
begin

definition holds where
  "holds s k ps \<longleftrightarrow> rel s (rest(k := ps))"

definition free :: "nat \<Rightarrow> bool" where
  "free p \<longleftrightarrow> ok p \<and> p \<notin> blocked rest"

lemma blocked_holds: "blocked (rest(k := ps)) \<subseteq> blocked rest \<union> set ps"
  by (auto simp: blocked_def split: if_splits)

end

sublocale blocking_beside \<subseteq> one: prio_queue Ptr Null enqueue unblock holds prio free
proof (unfold_locales, goal_cases)
  case (1 s k ps p)
  then have "ok p" "p \<notin> blocked (rest(k := ps))" using blocked_holds [of k ps] by (auto simp: free_def)
  then show ?case using block_rel [of s "rest(k := ps)" p k] 1(1) by (auto simp: holds_def enqueue_def)
next
  case (2 s k)
  then show ?case using unblock_none by (auto simp: holds_def)
next
  case (3 s k p ps)
  then show ?case using unblock_rel [of s "rest(k := p # ps)" k p ps] by (auto simp: holds_def)
qed

interpretation aslq: blocking asl_insert_blocked asl_remove_blocked asl_rel prio "\<lambda>p. p < MAXPROC"
proof (unfold_locales, goal_cases)
  case (1 s m p k)
  then obtain s' where "asl_insert_blocked k (Ptr p) s = Some (False, s')"
      "asl_rel s' (m(k := prio_insert (prio s) p (m k)))"
      "pcbTable s' = (pcbTable s)(p := (pcbTable s p)\<lparr>p_semkey := k\<rparr>)"
    using asl_insert_blocked_spec by blast
  then show ?case by (auto simp: prio_def fun_eq_iff)
next
  case (2 s m k p ps)
  then obtain s' where "asl_remove_blocked k s = Some (Ptr p, s')" "asl_rel s' (m(k := ps))"
      "pcbTable s' = (pcbTable s)(p := (pcbTable s p)\<lparr>p_semkey := 0\<rparr>)"
    using asl_remove_blocked_spec by blast
  then show ?case by (auto simp: prio_def fun_eq_iff)
next
  case (3 s m k)
  then show ?case using asl_remove_blocked_none(1) by blast
qed

interpretation asl_beside: blocking_beside asl_insert_blocked asl_remove_blocked asl_rel prio "\<lambda>p. p < MAXPROC" rest
  for rest by unfold_locales

section \<open>Properties\<close>

lemma asl_init_static: "\<exists>s. asl_init (static_store ar) = Some s \<and> asl_rel s (\<lambda>_. [])"
  using asl_init_spec [OF static_heads(2,3)] by blast

text \<open>
  C12. \<open>asl_insert_blocked\<close> never fails on a process that is not blocked already: there are as many
  semaphore descriptors as processes and every active one has a process on its queue. The process is
  inserted by priority into the queue of its key, no other queue changes.
\<close>

theorem asl_insert_never_fails:
  assumes "asl_rel s m" and "p < MAXPROC" and "p \<notin> blocked m"
  shows "\<exists>s'. asl_insert_blocked key (Ptr p) s = Some (False, s') \<and>
    asl_rel s' (m(key := prio_insert (prio s) p (m key))) \<and> p_semkey (pcbTable s' p) = key"
  using asl_insert_blocked_spec [OF assms, of key] by auto

theorem asl_insert_never_fails_witness:
  "\<exists>s s'. asl_init (static_store UMPS) = Some s \<and> asl_insert_blocked 0x1000 (Ptr 7) s = Some (False, s') \<and>
     asl_rel s' ((\<lambda>_. [])(0x1000 := [7]))"
proof -
  obtain s where s: "asl_init (static_store UMPS) = Some s" "asl_rel s (\<lambda>_. [])" using asl_init_static by blast
  show ?thesis using asl_insert_never_fails [OF s(2), of 7 "0x1000"] s(1)
    by (auto simp: blocked_def MAXPROC_def prio_insert_def)
qed

text \<open>
  Unblocking: \<open>asl_remove_blocked\<close> returns the first process of the key's queue, with its
  semaphore key cleared, or \<open>NULL\<close> and an unchanged state if no process waits there;
  \<open>asl_blocked_head\<close> tells which it will be.
\<close>

lemma asl_remove_result:
  assumes "asl_rel s m"
  shows "case m key of
      [] \<Rightarrow> asl_blocked_head key s = Some Null \<and> asl_remove_blocked key s = Some (Null, s)
    | p # ps \<Rightarrow> asl_blocked_head key s = Some (Ptr p) \<and>
        (\<exists>s'. asl_remove_blocked key s = Some (Ptr p, s') \<and> asl_rel s' (m(key := ps)) \<and>
          p_semkey (pcbTable s' p) = 0)"
proof (cases "m key")
  case Nil
  then show ?thesis using asl_blocked_head_spec [OF assms, of key] asl_remove_blocked_none(1) [OF assms Nil] by simp
next
  case (Cons p ps)
  then show ?thesis using asl_blocked_head_spec [OF assms, of key] asl_remove_blocked_spec [OF assms Cons] by auto
qed

lemma asl_remove_result_example:
  "\<exists>s s1 s2. asl_init (static_store UMPS) = Some s \<and> asl_insert_blocked 8 (Ptr 3) s = Some (False, s1) \<and>
     asl_blocked_head 8 s1 = Some (Ptr 3) \<and> asl_remove_blocked 8 s1 = Some (Ptr 3, s2) \<and> asl_rel s2 ((\<lambda>_. [])(8 := []))"
proof -
  obtain s where s: "asl_init (static_store UMPS) = Some s" "asl_rel s (\<lambda>_. [])" using asl_init_static by blast
  obtain s1 where s1: "asl_insert_blocked 8 (Ptr 3) s = Some (False, s1)" "asl_rel s1 ((\<lambda>_. [])(8 := [3]))"
    using aslq.block_rel [OF s(2), of 3 8] by (auto simp: blocked_def MAXPROC_def prio_insert_def)
  show ?thesis using asl_remove_result [OF s1(2), of 8] s(1) s1(1) by auto
qed

text \<open>
  Blocking and unblocking on a free semaphore is the identity on the blocked processes: the
  process that was blocked is the one that comes back and the descriptor is released.
\<close>

lemma asl_block_unblock:
  assumes "asl_rel s m" and "m key = []" and "p < MAXPROC" and "p \<notin> blocked m"
  shows "\<exists>s1 s2. asl_insert_blocked key (Ptr p) s = Some (False, s1) \<and>
    asl_remove_blocked key s1 = Some (Ptr p, s2) \<and> asl_rel s2 m"
  using aslq.block_unblock assms by blast

lemma asl_block_unblock_example:
  "\<exists>s s1 s2. asl_init (static_store UARM) = Some s \<and> asl_insert_blocked 4 (Ptr 0) s = Some (False, s1) \<and>
     asl_remove_blocked 4 s1 = Some (Ptr 0, s2) \<and> asl_rel s2 (\<lambda>_. [])"
proof -
  obtain s where s: "asl_init (static_store UARM) = Some s" "asl_rel s (\<lambda>_. [])" using asl_init_static by blast
  show ?thesis using asl_block_unblock [OF s(2), of 0 4] s(1) by (auto simp: blocked_def MAXPROC_def)
qed

text \<open>
  C14. Wake order, whatever else is blocked: processes that block one after the other on a semaphore
  nobody waits on are woken in order of decreasing priority, first come first served among equals, and
  then the semaphore is empty again; the processes blocked on all other semaphores stay where they were.
\<close>

theorem asl_wake_order:
  assumes "asl_rel s m" and "m key = []" and "distinct ps" and "\<forall>p\<in>set ps. p < MAXPROC \<and> p \<notin> blocked m"
  shows "\<exists>s' s''. for_each ps (\<lambda>p s. map_option snd (asl_insert_blocked key (Ptr p) s)) s = Some s' \<and>
    drain (length ps) (asl_remove_blocked key) s' = Some (map Ptr (sort_key (\<lambda>p. - prio s p) ps), s'') \<and>
    asl_remove_blocked key s'' = Some (Null, s'') \<and> asl_rel s'' m"
proof -
  have m: "m(key := []) = m" using assms(2) by (simp add: fun_upd_idem)
  have "asl_beside.holds m s key []" "\<forall>p\<in>set ps. asl_beside.free m p"
    using assms(1,4) m by (simp_all add: asl_beside.holds_def asl_beside.free_def)
  from asl_beside.one.dispatch_order [OF this(1) assms(3) this(2)] show ?thesis
    by (simp add: aslq.enqueue_def [abs_def] asl_beside.holds_def m)
qed

text \<open>Processes 4 and 9 wait and wake on one semaphore while process 3 waits on another.\<close>

theorem asl_wake_order_witness:
  "\<exists>s1 s s' s''. asl_init (static_store UMPS) = Some s1 \<and> asl_insert_blocked 24 (Ptr 3) s1 = Some (False, s) \<and>
     for_each [4, 9] (\<lambda>p s. map_option snd (asl_insert_blocked 16 (Ptr p) s)) s = Some s' \<and>
     drain (length [4, 9 :: nat]) (asl_remove_blocked 16) s' = Some (map Ptr (sort_key (\<lambda>p. - prio s p) [4, 9]), s'') \<and>
     asl_blocked_head 24 s'' = Some (Ptr 3)"
proof -
  let ?m = "(\<lambda>_. [])(24 := [3]) :: u32 \<Rightarrow> nat list"
  obtain s1 where s1: "asl_init (static_store UMPS) = Some s1" "asl_rel s1 (\<lambda>_. [])" using asl_init_static by blast
  obtain s where s: "asl_insert_blocked 24 (Ptr 3) s1 = Some (False, s)" "asl_rel s ?m"
    using aslq.block_rel [OF s1(2), of 3 24] by (auto simp: blocked_def MAXPROC_def prio_insert_def)
  have "distinct [4, 9 :: nat]" "\<forall>p\<in>set [4, 9]. p < MAXPROC \<and> p \<notin> blocked ?m" by (simp_all add: MAXPROC_def blocked_def)
  from asl_wake_order [OF s(2) _ this, of 16] obtain s' s'' where
    "for_each [4, 9] (\<lambda>p s. map_option snd (asl_insert_blocked 16 (Ptr p) s)) s = Some s'"
    "drain (length [4, 9 :: nat]) (asl_remove_blocked 16) s' = Some (map Ptr (sort_key (\<lambda>p. - prio s p) [4, 9]), s'')"
    "asl_rel s'' ?m" by auto
  moreover from this(3) have "asl_blocked_head 24 s'' = Some (Ptr 3)" using asl_blocked_head_spec [of s'' ?m 24] by simp
  ultimately show ?thesis using s1(1) s(1) by blast
qed

end
