(* ===== verification/KernelStore.thy ===== *)
theory KernelStore
  imports AslModel
begin

text \<open>
  The invariant of the kernel's tables taken together, as a relation \<open>store_rel s a L\<close> between the
  concrete tables, an abstract view of them and the set \<open>L\<close> of processes that are on no list (the
  running process, and any process a handler is moving from one list to another).

  \<^item> Every entry of \<open>pcbTable\<close> is in exactly one place: on the free list, on the ready queue, on the
    queue of one semaphore, or in \<open>L\<close>.
  \<^item> The child lists and the parent pointers of the allocated entries agree and form a forest.

  The lemmas say how each operation of \<open>pcb.c\<close> and \<open>asl.c\<close> moves a process between these places.
\<close>

record proc_abs =
  a_free :: "nat list"
  a_ready :: "nat list"
  a_sem :: "u32 \<Rightarrow> nat list"
  a_kids :: "nat \<Rightarrow> nat list"

definition kid_rel :: "(nat \<Rightarrow> nat list) \<Rightarrow> (nat \<times> nat) set" where
  "kid_rel kids = {(p, c). c \<in> set (kids p)}"

definition tree_rel :: "store \<Rightarrow> nat set \<Rightarrow> (nat \<Rightarrow> nat list) \<Rightarrow> bool" where
  "tree_rel s F kids \<longleftrightarrow>
     (\<forall>p<MAXPROC. p \<notin> F \<longrightarrow> children_at s p (kids p)) \<and>
     (\<forall>p. p \<in> F \<or> MAXPROC \<le> p \<longrightarrow> kids p = []) \<and>
     (\<forall>p c. c \<in> set (kids p) \<longleftrightarrow> c < MAXPROC \<and> c \<notin> F \<and> p_parent (pcbTable s c) = Ptr p) \<and>
     acyclic (kid_rel kids)"

definition places :: "proc_abs \<Rightarrow> nat set \<Rightarrow> bool" where
  "places a L \<longleftrightarrow>
     set (a_free a) \<inter> set (a_ready a) = {} \<and> set (a_free a) \<inter> blocked (a_sem a) = {} \<and>
     set (a_free a) \<inter> L = {} \<and> set (a_ready a) \<inter> blocked (a_sem a) = {} \<and>
     set (a_ready a) \<inter> L = {} \<and> blocked (a_sem a) \<inter> L = {} \<and>
     set (a_free a) \<union> set (a_ready a) \<union> blocked (a_sem a) \<union> L = {..<MAXPROC}"

definition store_rel :: "store \<Rightarrow> proc_abs \<Rightarrow> nat set \<Rightarrow> bool" where
  "store_rel s a L \<longleftrightarrow>
     queue_at s PcbFree (a_free a) \<and> queue_at s ReadyQueue (a_ready a) \<and> asl_rel s (a_sem a) \<and>
     tree_rel s (set (a_free a)) (a_kids a) \<and> places a L"

section \<open>Consequences\<close>

lemma store_relD:
  assumes "store_rel s a L"
  shows "queue_at s PcbFree (a_free a)" "queue_at s ReadyQueue (a_ready a)" "asl_rel s (a_sem a)"
    "tree_rel s (set (a_free a)) (a_kids a)" "places a L"
  using assms by (auto simp: store_rel_def)

lemma places_lt: "places a L \<Longrightarrow> p \<in> L \<Longrightarrow> p < MAXPROC"
  by (auto simp: places_def)

lemma places_notin:
  assumes "places a L" and "p \<in> L"
  shows "p \<notin> set (a_free a)" "p \<notin> set (a_ready a)" "p \<notin> blocked (a_sem a)"
  using assms by (auto simp: places_def)

lemma tree_rel_cong:
  assumes "tree_rel s F kids" and "\<And>i. cells s' (P_child i) = cells s (P_child i)"
    and "\<And>i. cells s' (P_sib i) = cells s (P_sib i)"
    and "\<And>i. p_parent (pcbTable s' i) = p_parent (pcbTable s i)"
  shows "tree_rel s' F kids"
proof -
  have "children_at s' p (kids p)" if "p < MAXPROC" "p \<notin> F" for p
  proof -
    have "children_at s p (kids p)" using assms(1) that by (auto simp: tree_rel_def)
    then show ?thesis by (rule is_list_frame) (use assms(2,3) in auto)
  qed
  then show ?thesis using assms(1,4) by (simp add: tree_rel_def)
qed

lemma tree_relD:
  assumes "tree_rel s F kids"
  shows "p < MAXPROC \<Longrightarrow> p \<notin> F \<Longrightarrow> children_at s p (kids p)"
    "p \<in> F \<Longrightarrow> kids p = []" "c \<in> set (kids p) \<Longrightarrow> c < MAXPROC \<and> c \<notin> F \<and> p < MAXPROC \<and> p \<notin> F"
    "c \<in> set (kids p) \<Longrightarrow> p_parent (pcbTable s c) = Ptr p"
    "c < MAXPROC \<Longrightarrow> c \<notin> F \<Longrightarrow> p_parent (pcbTable s c) = Ptr p \<Longrightarrow> c \<in> set (kids p)"
    "acyclic (kid_rel kids)"
proof -
  show "p < MAXPROC \<Longrightarrow> p \<notin> F \<Longrightarrow> children_at s p (kids p)" "p \<in> F \<Longrightarrow> kids p = []"
    using assms by (auto simp: tree_rel_def)
  have "p \<in> F \<or> MAXPROC \<le> p \<Longrightarrow> kids p = []" using assms by (auto simp: tree_rel_def)
  moreover have "c \<in> set (kids p) \<Longrightarrow> c < MAXPROC \<and> c \<notin> F"
    using assms by (auto simp: tree_rel_def)
  ultimately show "c \<in> set (kids p) \<Longrightarrow> c < MAXPROC \<and> c \<notin> F \<and> p < MAXPROC \<and> p \<notin> F"
    by (metis empty_iff empty_set not_le)
  show "c \<in> set (kids p) \<Longrightarrow> p_parent (pcbTable s c) = Ptr p"
    "c < MAXPROC \<Longrightarrow> c \<notin> F \<Longrightarrow> p_parent (pcbTable s c) = Ptr p \<Longrightarrow> c \<in> set (kids p)"
    "acyclic (kid_rel kids)"
    using assms by (auto simp: tree_rel_def)
qed

text \<open>The rest of a table entry may change freely.\<close>

lemma store_rel_cong:
  assumes "store_rel s a L" and "cells s' = cells s" and "semdTable s' = semdTable s"
    and "\<And>i. p_parent (pcbTable s' i) = p_parent (pcbTable s i)"
    and "\<And>i. i \<in> blocked (a_sem a) \<Longrightarrow> p_semkey (pcbTable s' i) = p_semkey (pcbTable s i)"
  shows "store_rel s' a L"
  using assms asl_rel_frame [of s "a_sem a" s'] tree_rel_cong [of s _ _ s']
  by (auto simp: store_rel_def)

lemma asl_rel_frameI:
  assumes "asl_rel s m" and "frame N s s'" and "N \<inter> (asl_nodes \<union> P_next ` blocked m) = {}"
  shows "asl_rel s' m"
  using assms(2,3) by (intro asl_rel_frame [OF assms(1)]) (auto simp: frame_def)

lemma tree_rel_frameI:
  assumes "tree_rel s F kids" and "frame N s s'" and "N \<inter> (range P_child \<union> range P_sib) = {}"
  shows "tree_rel s' F kids"
  using assms(2,3) by (intro tree_rel_cong [OF assms(1)]) (auto simp: frame_def)

section \<open>Moving a process between lists\<close>

lemma store_rel_enqueue:
  assumes r: "store_rel s a L" and p: "p \<in> L"
  shows "\<exists>s'. pcb_insert_in_queue ReadyQueue (Ptr p) s = Some s' \<and>
    store_rel s' (a\<lparr>a_ready := prio_insert (prio s) p (a_ready a)\<rparr>) (L - {p}) \<and>
    pcbTable s' = pcbTable s"
proof -
  note d = store_relD [OF r] and pl = store_relD(5) [OF r]
  obtain s' where s': "pcb_insert_in_queue ReadyQueue (Ptr p) s = Some s'"
      "queue_at s' ReadyQueue (prio_insert (prio s) p (a_ready a))"
      "frame (set (ReadyQueue # map P_next (p # a_ready a))) s s'"
    using pcb_insert_in_queue_spec [OF d(2), of p] places_lt [OF pl p] places_notin [OF pl p] by auto
  have "queue_at s' PcbFree (a_free a)"
    by (rule is_list_frameI [OF d(1) s'(3)]) (use pl p in \<open>auto simp: places_def\<close>)
  moreover have "asl_rel s' (a_sem a)"
    by (rule asl_rel_frameI [OF d(3) s'(3)]) (use pl p in \<open>auto simp: places_def asl_nodes_def\<close>)
  moreover have "tree_rel s' (set (a_free a)) (a_kids a)"
    by (rule tree_rel_frameI [OF d(4) s'(3)]) auto
  moreover have "places (a\<lparr>a_ready := prio_insert (prio s) p (a_ready a)\<rparr>) (L - {p})"
    using pl p by (auto simp: places_def)
  ultimately show ?thesis using s'(1,2) frameD(2) [OF s'(3)] by (auto simp: store_rel_def)
qed

lemma store_rel_dequeue:
  assumes r: "store_rel s a L" and q: "a_ready a = p # rq"
  shows "\<exists>s'. pcb_remove_from_queue ReadyQueue s = Some (Ptr p, s') \<and>
    store_rel s' (a\<lparr>a_ready := rq\<rparr>) (insert p L) \<and> pcbTable s' = pcbTable s"
proof -
  note d = store_relD [OF r] and pl = store_relD(5) [OF r]
  obtain s' where s': "pcb_remove_from_queue ReadyQueue s = Some (Ptr p, s')" "queue_at s' ReadyQueue rq"
      "frame (set (ReadyQueue # map P_next rq)) s s'"
    using pcb_remove_from_queue_spec [of s ReadyQueue p rq] d(2) q by auto
  have "p \<notin> set rq" using queue_atD(1) [OF d(2)] q by simp
  have "queue_at s' PcbFree (a_free a)"
    by (rule is_list_frameI [OF d(1) s'(3)]) (use pl q in \<open>auto simp: places_def\<close>)
  moreover have "asl_rel s' (a_sem a)"
    by (rule asl_rel_frameI [OF d(3) s'(3)]) (use pl q in \<open>auto simp: places_def asl_nodes_def\<close>)
  moreover have "tree_rel s' (set (a_free a)) (a_kids a)"
    by (rule tree_rel_frameI [OF d(4) s'(3)]) auto
  moreover have "places (a\<lparr>a_ready := rq\<rparr>) (insert p L)"
    using pl q \<open>p \<notin> set rq\<close> by (auto simp: places_def)
  ultimately show ?thesis using s'(1,2) frameD(2) [OF s'(3)] by (auto simp: store_rel_def)
qed

lemma store_rel_unready:
  assumes r: "store_rel s a L" and p: "p < MAXPROC"
  shows "\<exists>s'. pcb_find_and_remove ReadyQueue (Ptr p) s =
      Some (if p \<in> set (a_ready a) then Ptr p else Null, s') \<and>
    store_rel s' (a\<lparr>a_ready := filter (\<lambda>q. q \<noteq> p) (a_ready a)\<rparr>) (L \<union> ({p} \<inter> set (a_ready a))) \<and>
    frame (set (ReadyQueue # map P_next (filter (\<lambda>q. q \<noteq> p) (a_ready a)))) s s'"
proof -
  note d = store_relD [OF r] and pl = store_relD(5) [OF r]
  obtain s' where s': "pcb_find_and_remove ReadyQueue (Ptr p) s =
        Some (if p \<in> set (a_ready a) then Ptr p else Null, s')"
      "queue_at s' ReadyQueue (filter (\<lambda>q. q \<noteq> p) (a_ready a))"
      "frame (set (ReadyQueue # map P_next (filter (\<lambda>q. q \<noteq> p) (a_ready a)))) s s'"
    using pcb_find_and_remove_spec [OF d(2), of p] by blast
  have "queue_at s' PcbFree (a_free a)"
    by (rule is_list_frameI [OF d(1) s'(3)]) (use pl in \<open>auto simp: places_def\<close>)
  moreover have "asl_rel s' (a_sem a)"
    by (rule asl_rel_frameI [OF d(3) s'(3)]) (use pl in \<open>auto simp: places_def asl_nodes_def\<close>)
  moreover have "tree_rel s' (set (a_free a)) (a_kids a)"
    by (rule tree_rel_frameI [OF d(4) s'(3)]) auto
  moreover have "places (a\<lparr>a_ready := filter (\<lambda>q. q \<noteq> p) (a_ready a)\<rparr>) (L \<union> ({p} \<inter> set (a_ready a)))"
    using pl by (auto simp: places_def)
  ultimately show ?thesis using s' by (auto simp: store_rel_def)
qed

text \<open>What the operations of \<open>asl.c\<close> leave to the rest of the tables.\<close>

lemma asl_op_rest:
  assumes r: "store_rel s a L" and c: "\<forall>n. n \<notin> asl_nodes \<union> P_next ` B \<longrightarrow> cells s' n = cells s n"
    and B: "B \<inter> set (a_free a) = {}" "B \<inter> set (a_ready a) = {}"
    and par: "\<And>i. p_parent (pcbTable s' i) = p_parent (pcbTable s i)"
  shows "queue_at s' PcbFree (a_free a) \<and> queue_at s' ReadyQueue (a_ready a) \<and>
    tree_rel s' (set (a_free a)) (a_kids a)"
proof -
  note d = store_relD [OF r]
  have c': "cells s' n = cells s n" if "n \<notin> asl_nodes" "n \<notin> P_next ` B" for n using c that by blast
  have "queue_at s' PcbFree (a_free a)"
    by (rule is_list_frame [OF d(1)]) (use B in \<open>auto intro!: c' simp: asl_nodes_def\<close>)
  moreover have "queue_at s' ReadyQueue (a_ready a)"
    by (rule is_list_frame [OF d(2)]) (use B in \<open>auto intro!: c' simp: asl_nodes_def\<close>)
  moreover have "tree_rel s' (set (a_free a)) (a_kids a)"
    by (rule tree_rel_cong [OF d(4)]) (use par in \<open>auto intro!: c' simp: asl_nodes_def\<close>)
  ultimately show ?thesis by blast
qed

lemma blocked_insert: "blocked (m(k := prio_insert f p (m k))) = insert p (blocked m)"
  by (auto simp: blocked_def split: if_splits)

lemma blocked_remove:
  assumes "asl_rel s m" and "p \<in> set (m k)"
  shows "blocked (m(k := filter (\<lambda>q. q \<noteq> p) (m k))) = blocked m - {p}"
proof -
  have "p \<in> set (m x) \<Longrightarrow> x = k" for x
    using asl_relD(2) [OF assms(1), of p x] asl_relD(2) [OF assms] by simp
  then have "set ((m(k := filter (\<lambda>q. q \<noteq> p) (m k))) x) = set (m x) - {p}" for x
    by auto
  then show ?thesis unfolding blocked_def by blast
qed

lemma store_rel_block:
  assumes r: "store_rel s a L" and p: "p \<in> L"
  shows "\<exists>s'. asl_insert_blocked k (Ptr p) s = Some (False, s') \<and>
    store_rel s' (a\<lparr>a_sem := (a_sem a)(k := prio_insert (prio s) p (a_sem a k))\<rparr>) (L - {p}) \<and>
    pcbTable s' = (pcbTable s)(p := (pcbTable s p)\<lparr>p_semkey := k\<rparr>)"
proof -
  note d = store_relD [OF r] and pl = store_relD(5) [OF r]
  obtain s' where s': "asl_insert_blocked k (Ptr p) s = Some (False, s')"
      "asl_rel s' ((a_sem a)(k := prio_insert (prio s) p (a_sem a k)))"
      "pcbTable s' = (pcbTable s)(p := (pcbTable s p)\<lparr>p_semkey := k\<rparr>)"
      "\<forall>n. n \<notin> asl_nodes \<union> P_next ` insert p (blocked (a_sem a)) \<longrightarrow> cells s' n = cells s n"
    using asl_insert_blocked_spec [OF d(3) places_lt [OF pl p] places_notin(3) [OF pl p]] by blast
  have "queue_at s' PcbFree (a_free a) \<and> queue_at s' ReadyQueue (a_ready a) \<and>
      tree_rel s' (set (a_free a)) (a_kids a)"
    by (rule asl_op_rest [OF r s'(4)]) (use pl p s'(3) in \<open>auto simp: places_def\<close>)
  moreover have "places (a\<lparr>a_sem := (a_sem a)(k := prio_insert (prio s) p (a_sem a k))\<rparr>) (L - {p})"
    using pl p by (auto simp: places_def blocked_insert)
  ultimately show ?thesis using s'(1-3) by (auto simp: store_rel_def)
qed

lemma store_rel_unblock:
  assumes r: "store_rel s a L" and q: "a_sem a k = p # ps"
  shows "\<exists>s'. asl_remove_blocked k s = Some (Ptr p, s') \<and>
    store_rel s' (a\<lparr>a_sem := (a_sem a)(k := ps)\<rparr>) (insert p L) \<and>
    pcbTable s' = (pcbTable s)(p := (pcbTable s p)\<lparr>p_semkey := 0\<rparr>)"
proof -
  note d = store_relD [OF r] and pl = store_relD(5) [OF r]
  obtain s' where s': "asl_remove_blocked k s = Some (Ptr p, s')" "asl_rel s' ((a_sem a)(k := ps))"
      "pcbTable s' = (pcbTable s)(p := (pcbTable s p)\<lparr>p_semkey := 0\<rparr>)"
      "\<forall>n. n \<notin> asl_nodes \<union> P_next ` (blocked (a_sem a) - {p}) \<longrightarrow> cells s' n = cells s n"
    using asl_remove_blocked_spec [OF d(3) q] by blast
  have pb: "p \<in> blocked (a_sem a)" using asl_relD(3) [OF d(3), of p k] q by simp
  have "ps = filter (\<lambda>x. x \<noteq> p) (a_sem a k)"
    using asl_rel_distinct [OF d(3), of k] q by (auto intro!: filter_True [symmetric])
  then have bl: "blocked ((a_sem a)(k := ps)) = blocked (a_sem a) - {p}"
    using blocked_remove [OF d(3), of p k] q by simp
  have "queue_at s' PcbFree (a_free a) \<and> queue_at s' ReadyQueue (a_ready a) \<and>
      tree_rel s' (set (a_free a)) (a_kids a)"
    by (rule asl_op_rest [OF r s'(4)]) (use pl s'(3) in \<open>auto simp: places_def\<close>)
  moreover have "places (a\<lparr>a_sem := (a_sem a)(k := ps)\<rparr>) (insert p L)"
    using pl pb by (auto simp: places_def bl)
  ultimately show ?thesis using s'(1-3) by (auto simp: store_rel_def)
qed

lemma store_rel_unblock_this:
  assumes r: "store_rel s a L" and p: "p \<in> blocked (a_sem a)"
  defines "k \<equiv> p_semkey (pcbTable s p)"
  shows "\<exists>s'. asl_find_and_remove_blocked (Ptr p) s = Some (Ptr p, s') \<and>
    store_rel s' (a\<lparr>a_sem := (a_sem a)(k := filter (\<lambda>q. q \<noteq> p) (a_sem a k))\<rparr>) (insert p L) \<and>
    frame (asl_nodes \<union> P_next ` (blocked (a_sem a) - {p})) s s'"
proof -
  note d = store_relD [OF r] and pl = store_relD(5) [OF r]
  let ?m = "(a_sem a)(k := filter (\<lambda>q. q \<noteq> p) (a_sem a k))"
  obtain s' where s': "asl_find_and_remove_blocked (Ptr p) s = Some (Ptr p, s')" "asl_rel s' ?m"
      "frame (asl_nodes \<union> P_next ` (blocked (a_sem a) - {p})) s s'"
    using asl_find_and_remove_blocked_spec [OF d(3) p] unfolding k_def by blast
  have bl: "blocked ?m = blocked (a_sem a) - {p}"
    using blocked_remove [OF d(3)] blocked_iff [OF d(3)] p by (simp add: k_def)
  have "queue_at s' PcbFree (a_free a) \<and> queue_at s' ReadyQueue (a_ready a) \<and>
      tree_rel s' (set (a_free a)) (a_kids a)"
    by (rule asl_op_rest [OF r, of "blocked (a_sem a) - {p}"])
      (use pl frameD [OF s'(3)] in \<open>auto simp: places_def\<close>)
  moreover have "places (a\<lparr>a_sem := ?m\<rparr>) (insert p L)"
    using pl p by (auto simp: places_def bl)
  ultimately show ?thesis using s' by (auto simp: store_rel_def)
qed

section \<open>Allocating, freeing and the tree\<close>

lemma store_rel_alloc:
  assumes r: "store_rel s a L" and f: "a_free a = p # fs"
  shows "\<exists>s'. pcb_alloc s = Some (Ptr p, s') \<and> store_rel s' (a\<lparr>a_free := fs\<rparr>) (insert p L) \<and>
    (\<forall>i. i \<noteq> p \<longrightarrow> pcbTable s' i = pcbTable s i) \<and> pcbTable s' p = zero_pcb (pcbTable s p)"
proof -
  note d = store_relD [OF r] and pl = store_relD(5) [OF r]
  obtain s' where s': "pcb_alloc s = Some (Ptr p, s')" "queue_at s' PcbFree fs" "fresh_pcb s' p"
      "\<forall>n. n \<notin> set (PcbFree # map P_next fs) \<union> {P_next p, P_child p, P_sib p} \<longrightarrow> cells s' n = cells s n"
      "\<forall>i. i \<noteq> p \<longrightarrow> pcbTable s' i = pcbTable s i" "pcbTable s' p = zero_pcb (pcbTable s p)"
      "semdTable s' = semdTable s"
    using pcb_alloc_spec [of s p fs] d(1) f by auto
  have p: "p < MAXPROC" "p \<notin> set fs" using queue_atD(1,2) [OF d(1)] f by auto
  have "queue_at s' ReadyQueue (a_ready a)"
    by (rule is_list_frame [OF d(2)]) (use pl f s'(4) in \<open>auto simp: places_def\<close>)
  moreover have "asl_rel s' (a_sem a)"
    by (rule asl_rel_frame [OF d(3)]) (use pl f s'(4,5,7) in \<open>auto simp: places_def asl_nodes_def\<close>)
  moreover have "tree_rel s' (set fs) (a_kids a)"
  proof -
    note t = tree_relD [OF d(4)]
    have "children_at s' q (a_kids a q)" if "q < MAXPROC" "q \<notin> set fs" for q
    proof (cases "q = p")
      case True
      then show ?thesis using s'(3) t(2) [of p] f by (simp add: fresh_pcb_def)
    next
      case False
      then have "children_at s q (a_kids a q)" using t(1) that f by simp
      then show ?thesis
        by (rule is_list_frame) (use False s'(4) t(3) [of _ q] f in auto)
    qed
    moreover have "\<forall>q. q \<in> set fs \<or> MAXPROC \<le> q \<longrightarrow> a_kids a q = []"
      using d(4) f by (simp add: tree_rel_def)
    moreover have "c \<in> set (a_kids a q) \<longleftrightarrow>
        c < MAXPROC \<and> c \<notin> set fs \<and> p_parent (pcbTable s' c) = Ptr q" for q c
      using t(3) [of c q] t(4) [of c q] t(5) [of c q] s'(5,6) f
      by (cases "c = p") (auto simp: zero_pcb_def)
    ultimately show ?thesis using t(6) by (simp add: tree_rel_def)
  qed
  moreover have "places (a\<lparr>a_free := fs\<rparr>) (insert p L)" using pl f p by (auto simp: places_def)
  ultimately show ?thesis using s'(1,2,5,6) by (auto simp: store_rel_def)
qed

lemma store_rel_free:
  assumes r: "store_rel s a L" and p: "p \<in> L" and k: "a_kids a p = []"
    and par: "p_parent (pcbTable s p) = Null"
  shows "\<exists>s'. pcb_free (Ptr p) s = Some s' \<and> store_rel s' (a\<lparr>a_free := p # a_free a\<rparr>) (L - {p}) \<and>
    frame (set (PcbFree # map P_next (p # a_free a))) s s'"
proof -
  note d = store_relD [OF r] and pl = store_relD(5) [OF r]
  obtain s' where s': "pcb_free (Ptr p) s = Some s'" "queue_at s' PcbFree (p # a_free a)"
      "frame (set (PcbFree # map P_next (p # a_free a))) s s'"
    using pcb_free_spec [OF d(1) places_lt [OF pl p] places_notin(1) [OF pl p]] by auto
  have "queue_at s' ReadyQueue (a_ready a)"
    by (rule is_list_frameI [OF d(2) s'(3)]) (use pl p in \<open>auto simp: places_def\<close>)
  moreover have "asl_rel s' (a_sem a)"
    by (rule asl_rel_frameI [OF d(3) s'(3)]) (use pl p in \<open>auto simp: places_def asl_nodes_def\<close>)
  moreover have "tree_rel s' (insert p (set (a_free a))) (a_kids a)"
  proof -
    have "tree_rel s' (set (a_free a)) (a_kids a)" by (rule tree_rel_frameI [OF d(4) s'(3)]) auto
    moreover have "p_parent (pcbTable s' p) = Null" using frameD(2) [OF s'(3)] par by simp
    ultimately show ?thesis using k unfolding tree_rel_def by auto
  qed
  moreover have "places (a\<lparr>a_free := p # a_free a\<rparr>) (L - {p})" using pl p by (auto simp: places_def)
  ultimately show ?thesis using s' by (auto simp: store_rel_def)
qed

lemma acyclic_new_leaf:
  assumes "acyclic (kid_rel kids)" and "kids c = []" and "c \<noteq> p"
  shows "acyclic (kid_rel (kids(p := kids p @ [c])))"
proof -
  have "kid_rel (kids(p := kids p @ [c])) = insert (p, c) (kid_rel kids)"
    by (auto simp: kid_rel_def split: if_splits)
  moreover have "(c, p) \<notin> (kid_rel kids)\<^sup>*"
  proof
    assume "(c, p) \<in> (kid_rel kids)\<^sup>*"
    then show False using assms(2,3) by (cases rule: converse_rtranclE) (auto simp: kid_rel_def)
  qed
  ultimately show ?thesis using assms(1) by (simp add: acyclic_insert)
qed

lemma store_rel_insert_child:
  assumes r: "store_rel s a L" and p: "p < MAXPROC" "p \<notin> set (a_free a)"
    and c: "c < MAXPROC" "c \<notin> set (a_free a)" "c \<noteq> p" "a_kids a c = []"
      "p_parent (pcbTable s c) = Null"
  shows "\<exists>s'. pcb_insert_child (Ptr p) (Ptr c) s = Some s' \<and>
    store_rel s' (a\<lparr>a_kids := (a_kids a)(p := a_kids a p @ [c])\<rparr>) L \<and>
    pcbTable s' = (pcbTable s)(c := (pcbTable s c)\<lparr>p_parent := Ptr p\<rparr>)"
proof -
  note d = store_relD [OF r] and t = tree_relD [OF store_relD(4) [OF r]]
  have nk: "c \<notin> set (a_kids a q)" for q using t(4) [of c q] c(5) by auto
  obtain s' where s': "pcb_insert_child (Ptr p) (Ptr c) s = Some s'" "children_at s' p (a_kids a p @ [c])"
      "\<forall>n. n \<notin> set (P_child p # map P_sib (c # a_kids a p)) \<longrightarrow> cells s' n = cells s n"
      "pcbTable s' = (pcbTable s)(c := (pcbTable s c)\<lparr>p_parent := Ptr p\<rparr>)" "semdTable s' = semdTable s"
    using pcb_insert_child_spec [OF t(1) [OF p] c(1) nk] by blast
  have "queue_at s' PcbFree (a_free a)" "queue_at s' ReadyQueue (a_ready a)"
    by (rule is_list_frame [OF d(1)] is_list_frame [OF d(2)]; use s'(3) in auto)+
  moreover have "asl_rel s' (a_sem a)"
    by (rule asl_rel_frame [OF d(3)]) (use s'(3,4,5) in \<open>auto simp: asl_nodes_def\<close>)
  moreover have "tree_rel s' (set (a_free a)) ((a_kids a)(p := a_kids a p @ [c]))"
  proof -
    have "children_at s' q (((a_kids a)(p := a_kids a p @ [c])) q)" if q: "q < MAXPROC" "q \<notin> set (a_free a)" for q
    proof (cases "q = p")
      case False
      have "x \<notin> set (a_kids a p)" if "x \<in> set (a_kids a q)" for x
        using t(4) [of x q] t(4) [of x p] that False by auto
      then have "children_at s' q (a_kids a q)"
        by (intro is_list_frameN [OF t(1) [OF q] s'(3)]) (use False nk in auto)
      then show ?thesis using False by simp
    qed (use s'(2) in simp)
    moreover have "\<forall>q. q \<in> set (a_free a) \<or> MAXPROC \<le> q \<longrightarrow> ((a_kids a)(p := a_kids a p @ [c])) q = []"
      using d(4) p by (auto simp: tree_rel_def)
    moreover have "x \<in> set (((a_kids a)(p := a_kids a p @ [c])) q) \<longleftrightarrow>
        x < MAXPROC \<and> x \<notin> set (a_free a) \<and> p_parent (pcbTable s' x) = Ptr q" for q x
    proof (cases "x = c")
      case True
      then show ?thesis using s'(4) c(1,2) nk [of q] by auto
    next
      case False
      then have "x \<in> set (((a_kids a)(p := a_kids a p @ [c])) q) \<longleftrightarrow> x \<in> set (a_kids a q)" by simp
      also have "\<dots> \<longleftrightarrow> x < MAXPROC \<and> x \<notin> set (a_free a) \<and> p_parent (pcbTable s x) = Ptr q"
        using d(4) unfolding tree_rel_def by blast
      finally show ?thesis using False s'(4) by simp
    qed
    ultimately show ?thesis using acyclic_new_leaf [OF t(6) c(4,3)] unfolding tree_rel_def by blast
  qed
  moreover have "places (a\<lparr>a_kids := (a_kids a)(p := a_kids a p @ [c])\<rparr>) L"
    using d(5) by (simp add: places_def)
  ultimately show ?thesis using s'(1,4) by (auto simp: store_rel_def)
qed

lemma kid_rel_subset_acyclic:
  assumes "acyclic (kid_rel kids)" and "\<And>q. set (kids' q) \<subseteq> set (kids q)"
  shows "acyclic (kid_rel kids')"
  using assms by (intro acyclic_subset [OF assms(1)]) (auto simp: kid_rel_def)

text \<open>
  \<open>pcb_find_and_remove_child\<close> makes a process a root. The \<open>p_sib\<close> cells that may change are those
  of its siblings, its own one stays as it was.
\<close>

text \<open>Taking a child out of the list of its parent keeps the forest.\<close>

lemma tree_rel_remove:
  assumes r: "tree_rel s F kids" and pq: "p \<in> set (kids q)" and parent: "p_parent (pcbTable s p) = Ptr q"
    and c: "children_at s' q (filter (\<lambda>c. c \<noteq> p) (kids q))"
      "\<forall>n. n \<notin> set (P_child q # map P_sib (filter (\<lambda>c. c \<noteq> p) (kids q))) \<longrightarrow> cells s' n = cells s n"
    and t: "pcbTable s' = (pcbTable s)(p := (pcbTable s p)\<lparr>p_parent := Null\<rparr>)"
  shows "tree_rel s' F (\<lambda>q. filter (\<lambda>c. c \<noteq> p) (kids q))"
proof -
  note d = tree_relD [OF r]
  let ?k = "\<lambda>q. filter (\<lambda>c. c \<noteq> p) (kids q)"
  have "children_at s' x (?k x)" if x: "x < MAXPROC" "x \<notin> F" for x
  proof (cases "x = q")
    case False
    have "b \<notin> set (kids q)" if "b \<in> set (kids x)" for b
      using d(4) [of b x] d(4) [of b q] that False by auto
    then have "children_at s' x (kids x)"
      by (intro is_list_frameN [OF d(1) [OF x] c(2)]) (use False in auto)
    moreover have "?k x = kids x" using d(4) [of p x] parent False by (intro filter_True) auto
    ultimately show ?thesis by simp
  qed (use c(1) in simp)
  moreover have "\<forall>x. x \<in> F \<or> MAXPROC \<le> x \<longrightarrow> ?k x = []"
    using r by (auto simp: tree_rel_def)
  moreover have "b \<in> set (?k x) \<longleftrightarrow> b < MAXPROC \<and> b \<notin> F \<and> p_parent (pcbTable s' b) = Ptr x" for b x
    using r t unfolding tree_rel_def by (cases "b = p") auto
  moreover have "acyclic (kid_rel ?k)" by (rule kid_rel_subset_acyclic [OF d(6)]) auto
  ultimately show ?thesis unfolding tree_rel_def by blast
qed

lemma store_rel_remove_child:
  assumes r: "store_rel s a L" and p: "p < MAXPROC" "p \<notin> set (a_free a)"
  shows "\<exists>x s'. pcb_find_and_remove_child (Ptr p) s = Some (x, s') \<and>
    store_rel s' (a\<lparr>a_kids := (\<lambda>q. filter (\<lambda>c. c \<noteq> p) (a_kids a q))\<rparr>) L \<and>
    pcbTable s' = (pcbTable s)(p := (pcbTable s p)\<lparr>p_parent := Null\<rparr>) \<and>
    semdTable s' = semdTable s \<and>
    (\<forall>x. x = p \<or> (\<forall>q. p \<in> set (a_kids a q) \<longrightarrow> x \<notin> set (a_kids a q)) \<longrightarrow>
       cells s' (P_sib x) = cells s (P_sib x))"
proof (cases "p_parent (pcbTable s p)")
  case Null
  note t = tree_relD [OF store_relD(4) [OF r]]
  have "p \<notin> set (a_kids a q)" for q using t(4) [of p q] Null by auto
  then have "(\<lambda>q. filter (\<lambda>c. c \<noteq> p) (a_kids a q)) = a_kids a"
    by (intro ext filter_True) metis
  then show ?thesis using pcb_find_and_remove_child_root [OF p(1) Null] r Null
    by (simp add: fun_upd_idem)
next
  case (Ptr q)
  note d = store_relD [OF r] and t = tree_relD [OF store_relD(4) [OF r]]
  let ?k = "\<lambda>q. filter (\<lambda>c. c \<noteq> p) (a_kids a q)"
  have pq: "p \<in> set (a_kids a q)" using t(5) [OF p Ptr] .
  have q: "q < MAXPROC" "q \<notin> set (a_free a)" using t(3) [OF pq] by auto
  have only: "x = q" if "p \<in> set (a_kids a x)" for x using t(4) [OF that] Ptr by simp
  obtain s' where s': "pcb_find_and_remove_child (Ptr p) s = Some (Ptr p, s')" "children_at s' q (?k q)"
      "\<forall>n. n \<notin> set (P_child q # map P_sib (?k q)) \<longrightarrow> cells s' n = cells s n"
      "pcbTable s' = (pcbTable s)(p := (pcbTable s p)\<lparr>p_parent := Null\<rparr>)" "semdTable s' = semdTable s"
    using pcb_find_and_remove_child_spec [OF t(1) [OF q] pq Ptr] by blast
  have "queue_at s' PcbFree (a_free a)" "queue_at s' ReadyQueue (a_ready a)"
    by (rule is_list_frame [OF d(1)] is_list_frame [OF d(2)]; use s'(3) in auto)+
  moreover have "asl_rel s' (a_sem a)"
    by (rule asl_rel_frame [OF d(3)]) (use s'(3,4,5) in \<open>auto simp: asl_nodes_def\<close>)
  moreover have "tree_rel s' (set (a_free a)) ?k" by (rule tree_rel_remove [OF d(4) pq Ptr s'(2,3,4)])
  moreover have "places (a\<lparr>a_kids := ?k\<rparr>) L" using d(5) by (simp add: places_def)
  moreover have "cells s' (P_sib x) = cells s (P_sib x)"
    if "x = p \<or> (\<forall>q. p \<in> set (a_kids a q) \<longrightarrow> x \<notin> set (a_kids a q))" for x
    using s'(3) that pq by auto
  ultimately show ?thesis using s'(1,4,5) by (auto simp: store_rel_def)
qed

section \<open>Initialisation\<close>

text \<open>\<open>pcb_init\<close> and \<open>asl_init\<close> on the static tables: every entry is free.\<close>

definition boot_abs :: proc_abs where
  "boot_abs = \<lparr>a_free = rev [0..<MAXPROC], a_ready = [], a_sem = (\<lambda>_. []), a_kids = (\<lambda>_. [])\<rparr>"

lemma boot_store:
  "\<exists>s1 s2. pcb_init (static_store ar) = Some s1 \<and> asl_init s1 = Some s2 \<and>
     store_rel s2 boot_abs {} \<and> pcbTable s2 = pcbTable (static_store ar)"
proof -
  let ?s = "static_store ar"
  obtain s1 where s1: "pcb_init ?s = Some s1" "queue_at s1 PcbFree (rev [0..<MAXPROC])"
      "frame (insert PcbFree (range P_next)) ?s s1"
    using pcb_init_spec [of ?s] static_heads(1) by auto
  have h: "is_list (cells s1) SemdFree []" "is_list (cells s1) Asl []" "queue_at s1 ReadyQueue []"
    using static_heads(2-4) by (auto intro!: is_list_frameI [OF _ s1(3)])
  obtain s2 where s2: "asl_init s1 = Some s2" "asl_rel s2 (\<lambda>_. [])" "pcbTable s2 = pcbTable s1"
      "\<forall>n. n \<notin> asl_nodes \<longrightarrow> cells s2 n = cells s1 n"
    using asl_init_spec [OF h(1,2)] by blast
  have "queue_at s2 PcbFree (rev [0..<MAXPROC])"
    by (rule is_list_frameN [OF s1(2) s2(4)]) (auto simp: asl_nodes_def)
  moreover have "queue_at s2 ReadyQueue []"
    by (rule is_list_frameN [OF h(3) s2(4)]) (auto simp: asl_nodes_def)
  moreover have "tree_rel s2 {0..<MAXPROC} (\<lambda>_. [])" by (auto simp: tree_rel_def kid_rel_def acyclic_def)
  moreover have "places boot_abs {}" by (auto simp: places_def boot_abs_def blocked_def)
  ultimately have "store_rel s2 boot_abs {}" using s2(2) by (simp add: store_rel_def boot_abs_def)
  moreover have "pcbTable s2 = pcbTable ?s" using s2(3) frameD(2) [OF s1(3)] by simp
  ultimately show ?thesis using s1(1) s2(1) by blast
qed

end
