(* ===== verification/KillTree.thy ===== *)
theory KillTree
  imports KernelStore
begin

text \<open>
  \<open>kill_tree\<close> of \<open>src/scheduler.c\<close>: a process and all its descendants leave the process tree, the
  semaphores and the ready queue, and go back to the free list, children before parents.

  The loop over the children reads \<open>it->p_sib.next\<close> after \<open>kill_tree(it)\<close> has unlinked and freed
  \<open>it\<close>. The proof shows that this is sound here: \<open>list_del\<close> and \<open>pcb_free\<close> leave the \<open>p_sib\<close>
  cell of a freed entry as it was, so the loop visits exactly the children. The fuel
  \<open>TREE_FUEL\<close> is enough for every forest on \<open>MAXPROC\<close> entries: two units per process.
\<close>

section \<open>The code\<close>

fun kill_tree :: "nat \<Rightarrow> pcb_ptr \<Rightarrow> store \<Rightarrow> store option"
  and kill_kids :: "nat \<Rightarrow> node \<Rightarrow> node \<Rightarrow> store \<Rightarrow> store option" where
  "kill_tree 0 pid s = None"
| "kill_tree (Suc fuel) pid s = do {
     first \<leftarrow> get_next (p_child pid) (cells s);
     s \<leftarrow> kill_kids fuel first (p_child pid) s;
     (_, s) \<leftarrow> pcb_find_and_remove_child pid s;
     (_, s) \<leftarrow> asl_find_and_remove_blocked pid s;
     (_, s) \<leftarrow> pcb_find_and_remove ReadyQueue pid s;
     pcb_free pid s }"
| "kill_kids 0 pos head s = None"
| "kill_kids (Suc fuel) pos head s =
     (if pos = head then Some s
      else do {
        it \<leftarrow> container_of_p_sib pos;
        s \<leftarrow> kill_tree fuel it s;
        nxt \<leftarrow> get_next pos (cells s);
        kill_kids fuel nxt head s })"

section \<open>Subtrees\<close>

definition subtree :: "proc_abs \<Rightarrow> nat \<Rightarrow> nat set" where
  "subtree a p = {c. (p, c) \<in> (kid_rel (a_kids a))\<^sup>*}"

lemma subtree_self [simp]: "p \<in> subtree a p"
  by (simp add: subtree_def)

lemma subtree_step: "c \<in> set (a_kids a p) \<Longrightarrow> subtree a c \<subseteq> subtree a p"
  by (auto simp: subtree_def kid_rel_def intro: converse_rtrancl_into_rtrancl)

lemma subtree_split: "subtree a p = insert p (\<Union>c\<in>set (a_kids a p). subtree a c)"
  by (auto simp: subtree_def kid_rel_def elim: converse_rtranclE intro: converse_rtrancl_into_rtrancl)

lemma kid_rel_single: "tree_rel s F (a_kids a) \<Longrightarrow> single_valued ((kid_rel (a_kids a))\<inverse>)"
  by (auto simp: single_valued_def kid_rel_def) (metis tree_relD(4) ptr.inject)

lemma kid_not_ancestor:
  assumes t: "tree_rel s F (a_kids a)" and c: "c \<in> set (a_kids a p)"
  shows "p \<notin> subtree a c"
proof
  assume "p \<in> subtree a c"
  then have "(p, p) \<in> (kid_rel (a_kids a))\<^sup>+"
    using c by (auto simp: subtree_def kid_rel_def intro: rtrancl_into_trancl2)
  then show False using tree_relD(6) [OF t] by (auto simp: acyclic_def)
qed

lemma sibling_not_below:
  assumes t: "tree_rel s F (a_kids a)"
    and cd: "c \<in> set (a_kids a p)" "d \<in> set (a_kids a p)" "c \<noteq> d"
  shows "d \<notin> subtree a c"
proof
  assume "d \<in> subtree a c"
  then have "(c, d) \<in> (kid_rel (a_kids a))\<^sup>+" using cd(3) by (auto simp: subtree_def rtrancl_eq_or_trancl)
  then obtain q where q: "(c, q) \<in> (kid_rel (a_kids a))\<^sup>*" "d \<in> set (a_kids a q)"
    by (auto simp: kid_rel_def dest: tranclD2)
  then have "q = p" using tree_relD(4) [OF t q(2)] tree_relD(4) [OF t cd(2)] by simp
  then show False using q(1) kid_not_ancestor [OF t cd(1)] by (simp add: subtree_def)
qed

lemma sibling_subtrees_disjoint:
  assumes t: "tree_rel s F (a_kids a)"
    and cd: "c \<in> set (a_kids a p)" "d \<in> set (a_kids a p)" "c \<noteq> d"
  shows "subtree a c \<inter> subtree a d = {}"
proof (rule ccontr)
  assume "subtree a c \<inter> subtree a d \<noteq> {}"
  then obtain x where "(x, c) \<in> ((kid_rel (a_kids a))\<inverse>)\<^sup>*" "(x, d) \<in> ((kid_rel (a_kids a))\<inverse>)\<^sup>*"
    by (auto simp: subtree_def rtrancl_converse)
  then have "(c, d) \<in> ((kid_rel (a_kids a))\<inverse>)\<^sup>* \<or> (d, c) \<in> ((kid_rel (a_kids a))\<inverse>)\<^sup>*"
    by (rule single_valued_confluent [OF kid_rel_single [OF t]])
  then have "c \<in> subtree a d \<or> d \<in> subtree a c" by (auto simp: subtree_def rtrancl_converse)
  then show False using sibling_not_below [OF t] cd by metis
qed

lemma subtree_bound:
  assumes t: "tree_rel s F (a_kids a)" and p: "p < MAXPROC" "p \<notin> F"
  shows "subtree a p \<subseteq> {..<MAXPROC} - F"
proof
  fix c assume "c \<in> subtree a p"
  then have "(p, c) \<in> (kid_rel (a_kids a))\<^sup>*" by (simp add: subtree_def)
  then show "c \<in> {..<MAXPROC} - F"
    by (induction rule: rtrancl_induct) (use p tree_relD(3) [OF t] in \<open>auto simp: kid_rel_def\<close>)
qed

section \<open>Removing a set of processes\<close>

text \<open>
  \<open>removed D\<close>: the tables with the processes of \<open>D\<close> taken off every list and freed, everything
  else in its place and order.
\<close>

definition removed :: "nat set \<Rightarrow> store \<Rightarrow> proc_abs \<Rightarrow> nat set \<Rightarrow> store \<Rightarrow> proc_abs \<Rightarrow> nat set \<Rightarrow> bool" where
  "removed D s a L s' a' L' \<longleftrightarrow> store_rel s' a' L' \<and>
     a_ready a' = filter (\<lambda>q. q \<notin> D) (a_ready a) \<and>
     (\<forall>k. a_sem a' k = filter (\<lambda>q. q \<notin> D) (a_sem a k)) \<and>
     (\<forall>q. a_kids a' q = (if q \<in> D then [] else filter (\<lambda>c. c \<notin> D) (a_kids a q))) \<and>
     (\<exists>ds. a_free a' = ds @ a_free a \<and> set ds = D) \<and> L' = L - D \<and>
     (\<forall>q. q \<notin> D \<longrightarrow> pcbTable s' q = pcbTable s q) \<and>
     (\<forall>q. \<exists>x. pcbTable s' q = (pcbTable s q)\<lparr>p_parent := x\<rparr>) \<and> semdTable s' = semdTable s"

lemma parent_self: "\<exists>x. b = b\<lparr>p_parent := x\<rparr>"
  by (rule exI [of _ "p_parent b"]) simp

lemma removed_none: "store_rel s a L \<Longrightarrow> removed {} s a L s a L"
  using parent_self by (auto simp: removed_def)

lemma removed_trans:
  assumes "removed D s a L s1 a1 L1" and "removed E s1 a1 L1 s2 a2 L2"
  shows "removed (D \<union> E) s a L s2 a2 L2"
proof -
  obtain ds where ds: "a_free a1 = ds @ a_free a" "set ds = D" using assms(1) by (auto simp: removed_def)
  obtain es where es: "a_free a2 = es @ a_free a1" "set es = E" using assms(2) by (auto simp: removed_def)
  have "\<exists>fs. a_free a2 = fs @ a_free a \<and> set fs = D \<union> E"
    using ds es by (intro exI [of _ "es @ ds"]) auto
  moreover have "\<exists>x. pcbTable s2 q = (pcbTable s q)\<lparr>p_parent := x\<rparr>" for q
  proof -
    obtain x y where "pcbTable s1 q = (pcbTable s q)\<lparr>p_parent := x\<rparr>"
        "pcbTable s2 q = (pcbTable s1 q)\<lparr>p_parent := y\<rparr>"
      using assms unfolding removed_def by blast
    then show ?thesis by auto
  qed
  ultimately show ?thesis using assms by (auto simp: removed_def conj_commute)
qed

lemma removed_kid_rel:
  assumes "removed D s a L s' a' L'"
  shows "kid_rel (a_kids a') = {(x, y) \<in> kid_rel (a_kids a). x \<notin> D \<and> y \<notin> D}"
  using assms by (auto simp: removed_def kid_rel_def split: if_splits)

lemma removed_subtree:
  assumes r: "removed D s a L s' a' L'" and d: "subtree a p \<inter> D = {}"
  shows "subtree a' p = subtree a p"
proof
  show "subtree a' p \<subseteq> subtree a p"
    unfolding subtree_def removed_kid_rel [OF r] by (auto elim: rtrancl_mono [THEN subsetD, rotated])
  show "subtree a p \<subseteq> subtree a' p"
  proof
    fix c assume "c \<in> subtree a p"
    then have "(p, c) \<in> (kid_rel (a_kids a))\<^sup>*" by (simp add: subtree_def)
    then have "(p, c) \<in> (kid_rel (a_kids a'))\<^sup>*"
    proof (induction rule: rtrancl_induct)
      case (step x y)
      have "x \<in> subtree a p" "y \<in> subtree a p"
        using step.hyps by (auto simp: subtree_def)
      then have "(x, y) \<in> kid_rel (a_kids a')"
        using step.hyps(2) d removed_kid_rel [OF r] by auto
      then show ?case using step.IH by simp
    qed simp
    then show "c \<in> subtree a' p" by (simp add: subtree_def)
  qed
qed

section \<open>One process\<close>

lemma store_rel_unblock_any:
  assumes r: "store_rel s a L" and p: "p < MAXPROC"
  shows "\<exists>x s'. asl_find_and_remove_blocked (Ptr p) s = Some (x, s') \<and>
    store_rel s' (a\<lparr>a_sem := (\<lambda>k. filter (\<lambda>q. q \<noteq> p) (a_sem a k))\<rparr>) (L \<union> ({p} \<inter> blocked (a_sem a))) \<and>
    frame (asl_nodes \<union> range P_next) s s'"
proof (cases "p \<in> blocked (a_sem a)")
  case True
  note d = store_relD(3) [OF r]
  let ?k = "p_semkey (pcbTable s p)"
  obtain s' where s': "asl_find_and_remove_blocked (Ptr p) s = Some (Ptr p, s')"
      "store_rel s' (a\<lparr>a_sem := (a_sem a)(?k := filter (\<lambda>q. q \<noteq> p) (a_sem a ?k))\<rparr>) (insert p L)"
      "frame (asl_nodes \<union> P_next ` (blocked (a_sem a) - {p})) s s'"
    using store_rel_unblock_this [OF r True] by blast
  have "filter (\<lambda>q. q \<noteq> p) (a_sem a k) = a_sem a k" if "k \<noteq> ?k" for k
    using asl_relD(2) [OF d, of p k] that by (intro filter_True) auto
  then have "(a_sem a)(?k := filter (\<lambda>q. q \<noteq> p) (a_sem a ?k)) = (\<lambda>k. filter (\<lambda>q. q \<noteq> p) (a_sem a k))"
    by (auto simp: fun_eq_iff)
  then show ?thesis using s' True frame_mono [OF s'(3), of "asl_nodes \<union> range P_next"] by auto
next
  case False
  then have "(\<lambda>k. filter (\<lambda>q. q \<noteq> p) (a_sem a k)) = a_sem a"
    by (intro ext filter_True) (auto simp: blocked_def)
  then show ?thesis
    using asl_find_and_remove_blocked_none [OF store_relD(3) [OF r] False p] r False
    by (auto simp: frame_def)
qed

lemma kill_one:
  assumes r: "store_rel s a L" and p: "p < MAXPROC" "p \<notin> set (a_free a)" and k: "a_kids a p = []"
  shows "\<exists>s' a'. (do { (_, s) \<leftarrow> pcb_find_and_remove_child (Ptr p) s;
        (_, s) \<leftarrow> asl_find_and_remove_blocked (Ptr p) s;
        (_, s) \<leftarrow> pcb_find_and_remove ReadyQueue (Ptr p) s;
        pcb_free (Ptr p) s }) = Some s' \<and>
    removed {p} s a L s' a' (L - {p}) \<and>
    (\<forall>x. x = p \<or> (\<forall>q. p \<in> set (a_kids a q) \<longrightarrow> x \<notin> set (a_kids a q)) \<longrightarrow>
       cells s' (P_sib x) = cells s (P_sib x))"
proof -
  define a1 where "a1 = a\<lparr>a_kids := (\<lambda>q. filter (\<lambda>c. c \<noteq> p) (a_kids a q))\<rparr>"
  obtain x1 s1 where 1: "pcb_find_and_remove_child (Ptr p) s = Some (x1, s1)" "store_rel s1 a1 L"
      "pcbTable s1 = (pcbTable s)(p := (pcbTable s p)\<lparr>p_parent := Null\<rparr>)"
      "semdTable s1 = semdTable s"
      "\<forall>x. x = p \<or> (\<forall>q. p \<in> set (a_kids a q) \<longrightarrow> x \<notin> set (a_kids a q)) \<longrightarrow>
       cells s1 (P_sib x) = cells s (P_sib x)"
    using store_rel_remove_child [OF r p] unfolding a1_def by blast
  define a2 where "a2 = a1\<lparr>a_sem := (\<lambda>k. filter (\<lambda>q. q \<noteq> p) (a_sem a1 k))\<rparr>"
  obtain x2 s2 where 2: "asl_find_and_remove_blocked (Ptr p) s1 = Some (x2, s2)"
      "store_rel s2 a2 (L \<union> ({p} \<inter> blocked (a_sem a1)))" "frame (asl_nodes \<union> range P_next) s1 s2"
    using store_rel_unblock_any [OF 1(2) p(1)] unfolding a2_def by blast
  define a3 where "a3 = a2\<lparr>a_ready := filter (\<lambda>q. q \<noteq> p) (a_ready a2)\<rparr>"
  define L3 where "L3 = L \<union> ({p} \<inter> blocked (a_sem a1)) \<union> ({p} \<inter> set (a_ready a2))"
  obtain x3 s3 where 3: "pcb_find_and_remove ReadyQueue (Ptr p) s2 = Some (x3, s3)" "store_rel s3 a3 L3"
      "frame (set (ReadyQueue # map P_next (filter (\<lambda>q. q \<noteq> p) (a_ready a2)))) s2 s3"
    using store_rel_unready [OF 2(2) p(1)] unfolding a3_def L3_def by blast
  have pL: "p \<in> L3"
    using p store_relD(5) [OF r] by (auto simp: L3_def places_def a1_def a2_def)
  have par: "p_parent (pcbTable s3 p) = Null" using 1(3) frameD(2) [OF 2(3)] frameD(2) [OF 3(3)] by simp
  have k3: "a_kids a3 p = []" using k by (simp add: a1_def a2_def a3_def)
  obtain s4 where 4: "pcb_free (Ptr p) s3 = Some s4" "store_rel s4 (a3\<lparr>a_free := p # a_free a3\<rparr>) (L3 - {p})"
      "frame (set (PcbFree # map P_next (p # a_free a3))) s3 s4"
    using store_rel_free [OF 3(2) pL k3 par] by blast
  have "L3 - {p} = L - {p}" by (auto simp: L3_def)
  moreover have sib: "cells s4 (P_sib i) = cells s1 (P_sib i)" for i
    by (rule frameD(1) [OF frame_trans [OF frame_trans [OF 2(3) 3(3)] 4(3)]]) (auto simp: asl_nodes_def)
  moreover have "pcbTable s4 = pcbTable s1" "semdTable s4 = semdTable s1"
    using frameD(2,3) [OF 2(3)] frameD(2,3) [OF 3(3)] frameD(2,3) [OF 4(3)] by simp_all
  ultimately have "removed {p} s a L s4 (a3\<lparr>a_free := p # a_free a3\<rparr>) (L - {p})"
    using 4(2) 1(3,4) k parent_self by (auto simp: removed_def a1_def a2_def a3_def)
  then show ?thesis
    using 1(1,5) 2(1) 3(1) 4(1) sib by auto
qed

section \<open>The whole tree\<close>

text \<open>What the loop over the children of \<open>p\<close> does, and what \<open>kill_tree\<close> does, with enough fuel.\<close>

definition below :: "proc_abs \<Rightarrow> nat \<Rightarrow> nat set" where
  "below a p = (\<Union>c\<in>set (a_kids a p). subtree a c)"

lemma below_bound:
  assumes "tree_rel s F (a_kids a)"
  shows "below a p \<subseteq> {..<MAXPROC} - F" "p \<notin> below a p" "finite (below a p)"
proof -
  show b: "below a p \<subseteq> {..<MAXPROC} - F"
    using subtree_bound [OF assms] tree_relD(3) [OF assms] by (fastforce simp: below_def)
  show "p \<notin> below a p" using kid_not_ancestor [OF assms] by (auto simp: below_def)
  show "finite (below a p)" using b by (rule finite_subset) simp
qed

lemma subtree_below: "subtree a p = insert p (below a p)"
  unfolding below_def by (rule subtree_split)

lemma removed_first_kid:
  assumes t: "tree_rel s F (a_kids a)" and k: "a_kids a p = c # ds" and d: "distinct (c # ds)"
    and r: "removed (subtree a c) s a L s1 a1 L1"
  shows "a_kids a1 p = ds" "below a p = subtree a c \<union> below a1 p" "subtree a c \<inter> below a1 p = {}"
proof -
  have c: "c \<in> set (a_kids a p)" using k by simp
  have sib: "x \<noteq> c" "x \<in> set (a_kids a p)" if "x \<in> set ds" for x using k d that by auto
  have "x \<notin> subtree a c" if "x \<in> set ds" for x
    using sibling_not_below [OF t c sib(2) [OF that]] sib(1) [OF that] by blast
  then have "filter (\<lambda>x. x \<notin> subtree a c) ds = ds" by (intro filter_True) blast
  then show ds: "a_kids a1 p = ds" using r k kid_not_ancestor [OF t c] by (simp add: removed_def)
  have dis: "subtree a x \<inter> subtree a c = {}" if "x \<in> set ds" for x
    using sibling_subtrees_disjoint [OF t c sib(2) [OF that]] sib(1) [OF that] by blast
  have "below a1 p = (\<Union>x\<in>set ds. subtree a x)"
    unfolding below_def ds using removed_subtree [OF r dis] by simp
  then show "below a p = subtree a c \<union> below a1 p" "subtree a c \<inter> below a1 p = {}"
    using dis k by (auto simp: below_def)
qed

lemma kill_kids_step:
  assumes r: "store_rel s a L" and p: "p < MAXPROC" "p \<notin> set (a_free a)" and k: "a_kids a p = c # ds"
    and s1: "kill_tree f (Ptr c) s = Some s1" "cells s1 (P_sib c) = cells s (P_sib c)"
  shows "kill_kids (Suc f) (hd (map P_sib (a_kids a p) @ [P_child p])) (P_child p) s =
    kill_kids f (hd (map P_sib ds @ [P_child p])) (P_child p) s1"
proof -
  have "children_at s p (c # ds)" using tree_relD(1) [OF store_relD(4) [OF r] p] k by simp
  then have "lnext (cells s (P_sib c)) = hd (map P_sib ds @ [P_child p])" "c < MAXPROC"
    using is_list_at(1) [of "cells s" "P_child p" "[]" "P_sib c"] children_atD(2) [of s p "c # ds" c] by auto
  then show ?thesis using k s1 by (simp add: get_next_def)
qed

definition tree_killed :: "nat \<Rightarrow> bool" where
  "tree_killed fuel \<longleftrightarrow> (\<forall>s a L p. store_rel s a L \<longrightarrow> p < MAXPROC \<longrightarrow> p \<notin> set (a_free a) \<longrightarrow>
     2 * card (subtree a p) \<le> fuel \<longrightarrow>
     (\<exists>s' a' L'. kill_tree fuel (Ptr p) s = Some s' \<and> removed (subtree a p) s a L s' a' L' \<and>
       (\<forall>x. x = p \<or> x \<notin> subtree a p \<and> (\<forall>q. p \<in> set (a_kids a q) \<longrightarrow> x \<notin> set (a_kids a q)) \<longrightarrow>
         cells s' (P_sib x) = cells s (P_sib x))))"

definition kids_killed :: "nat \<Rightarrow> bool" where
  "kids_killed fuel \<longleftrightarrow> (\<forall>s a L p. store_rel s a L \<longrightarrow> p < MAXPROC \<longrightarrow> p \<notin> set (a_free a) \<longrightarrow>
     2 * card (below a p) + 1 \<le> fuel \<longrightarrow>
     (\<exists>s' a' L'. kill_kids fuel (hd (map P_sib (a_kids a p) @ [P_child p])) (P_child p) s = Some s' \<and>
       removed (below a p) s a L s' a' L' \<and>
       (\<forall>x. x \<notin> below a p \<longrightarrow> cells s' (P_sib x) = cells s (P_sib x))))"

lemma tree_killed_Suc:
  assumes "kids_killed f"
  shows "tree_killed (Suc f)"
  unfolding tree_killed_def
proof (intro allI impI, goal_cases)
  case (1 s a L p)
  note t = store_relD(4) [OF 1(1)]
  have "2 * card (below a p) + 1 \<le> f" using 1(4) below_bound(2,3) [OF t] by (simp add: subtree_below)
  then obtain s1 a1 L1 where s1: "kill_kids f (hd (map P_sib (a_kids a p) @ [P_child p])) (P_child p) s = Some s1"
      "removed (below a p) s a L s1 a1 L1" "\<forall>x. x \<notin> below a p \<longrightarrow> cells s1 (P_sib x) = cells s (P_sib x)"
    using assms 1(1-3) unfolding kids_killed_def by blast
  have pn: "p \<notin> below a p" by (rule below_bound(2) [OF t])
  have "store_rel s1 a1 L1" "p \<notin> set (a_free a1)" using s1(2) pn 1(3) by (auto simp: removed_def)
  moreover have "\<forall>c\<in>set (a_kids a p). c \<in> below a p" unfolding below_def by (blast intro: subtree_self)
  then have "a_kids a1 p = []" using s1(2) pn by (simp add: removed_def)
  ultimately obtain s' a' where s': "(do { (_, s) \<leftarrow> pcb_find_and_remove_child (Ptr p) s1;
        (_, s) \<leftarrow> asl_find_and_remove_blocked (Ptr p) s;
        (_, s) \<leftarrow> pcb_find_and_remove ReadyQueue (Ptr p) s; pcb_free (Ptr p) s }) = Some s'"
      "removed {p} s1 a1 L1 s' a' (L1 - {p})"
      "\<forall>x. x = p \<or> (\<forall>q. p \<in> set (a_kids a1 q) \<longrightarrow> x \<notin> set (a_kids a1 q)) \<longrightarrow>
        cells s' (P_sib x) = cells s1 (P_sib x)"
    using kill_one [OF _ 1(2)] by blast
  have "lnext (cells s (P_child p)) = hd (map P_sib (a_kids a p) @ [P_child p])"
    using is_list_first [OF tree_relD(1) [OF t 1(2,3)]] .
  then have "kill_tree (Suc f) (Ptr p) s = Some s'" using s1(1) s'(1) 1(2) by (simp add: get_next_def)
  moreover have "removed (subtree a p) s a L s' a' (L1 - {p})"
    using removed_trans [OF s1(2) s'(2)] by (simp add: subtree_below)
  moreover have sub: "set (a_kids a1 q) \<subseteq> set (a_kids a q)" for q using s1(2) by (auto simp: removed_def)
  have "cells s' (P_sib x) = cells s (P_sib x)"
    if "x = p \<or> x \<notin> subtree a p \<and> (\<forall>q. p \<in> set (a_kids a q) \<longrightarrow> x \<notin> set (a_kids a q))" for x
  proof -
    have "x \<notin> below a p" using that pn by (auto simp: subtree_below)
    then show ?thesis using that s1(3) s'(3) sub by (metis subsetD)
  qed
  ultimately show ?case by blast
qed

lemma kids_killed_Suc:
  assumes T: "tree_killed f" and K: "kids_killed f"
  shows "kids_killed (Suc f)"
  unfolding kids_killed_def
proof (intro allI impI, goal_cases)
  case (1 s a L p)
  note t = store_relD(4) [OF 1(1)]
  show ?case
  proof (cases "a_kids a p")
    case Nil
    then show ?thesis using removed_none [OF 1(1)] by (auto simp: below_def)
  next
    case (Cons c ds)
    have c: "c \<in> set (a_kids a p)" using Cons by simp
    have cl: "c < MAXPROC" "c \<notin> set (a_free a)" using tree_relD(3) [OF t c] by auto
    have cb: "subtree a c \<subseteq> below a p" using c by (auto simp: below_def)
    have "2 * card (subtree a c) \<le> f"
      using 1(4) card_mono [OF below_bound(3) [OF t] cb] by simp
    then obtain s1 a1 L1 where s1: "kill_tree f (Ptr c) s = Some s1" "removed (subtree a c) s a L s1 a1 L1"
        "\<forall>x. x = c \<or> x \<notin> subtree a c \<and> (\<forall>q. c \<in> set (a_kids a q) \<longrightarrow> x \<notin> set (a_kids a q)) \<longrightarrow>
          cells s1 (P_sib x) = cells s (P_sib x)"
      using T 1(1) cl unfolding tree_killed_def by blast
    have "distinct (c # ds)" using children_atD(1) [OF tree_relD(1) [OF t 1(2,3)]] Cons by simp
    note k1 = removed_first_kid [OF t Cons this s1(2)]
    have fin: "finite (subtree a c)" "finite (below a1 p)"
      using below_bound(3) [OF t, of p] k1(2) by auto
    have "card (below a p) = card (subtree a c) + card (below a1 p)"
      using fin k1(2,3) by (simp add: card_Un_disjoint)
    moreover have "card (subtree a c) > 0" using fin(1) subtree_self [of c a] card_gt_0_iff by blast
    ultimately have "2 * card (below a1 p) + 1 \<le> f" using 1(4) by simp
    moreover have "store_rel s1 a1 L1" "p \<notin> set (a_free a1)"
      using s1(2) 1(3) kid_not_ancestor [OF t c] by (auto simp: removed_def)
    ultimately obtain s' a' L' where s': "kill_kids f (hd (map P_sib ds @ [P_child p])) (P_child p) s1 = Some s'"
        "removed (below a1 p) s1 a1 L1 s' a' L'"
        "\<forall>x. x \<notin> below a1 p \<longrightarrow> cells s' (P_sib x) = cells s1 (P_sib x)"
      using K 1(2) k1(1) unfolding kids_killed_def by metis
    have "kill_kids (Suc f) (hd (map P_sib (a_kids a p) @ [P_child p])) (P_child p) s = Some s'"
      using kill_kids_step [OF 1(1-3) Cons s1(1)] s1(3) s'(1) by simp
    moreover have "removed (below a p) s a L s' a' L'"
      using removed_trans [OF s1(2) s'(2)] k1(2) by simp
    moreover have "cells s' (P_sib x) = cells s (P_sib x)" if x: "x \<notin> below a p" for x
    proof -
      have "x \<notin> set (a_kids a p)" using x by (auto simp: below_def)
      then have "x \<notin> set (a_kids a q)" if "c \<in> set (a_kids a q)" for q
        using tree_relD(4) [OF t c] tree_relD(4) [OF t that] by auto
      then show ?thesis using x k1(2) s1(3) s'(3) by simp
    qed
    ultimately show ?thesis by blast
  qed
qed

lemma tree_and_kids_killed: "tree_killed fuel \<and> kids_killed fuel"
proof (induction fuel)
  case 0
  have "card (subtree a p) > 0" if "store_rel s a L" for s a L p
    using below_bound(3) [OF store_relD(4) [OF that], of p] by (auto simp: subtree_below card_gt_0_iff)
  then have "tree_killed 0" unfolding tree_killed_def by (metis less_numeral_extra(3) le_zero_eq mult_is_0 zero_neq_numeral)
  then show ?case by (simp add: kids_killed_def)
qed (auto intro: tree_killed_Suc kids_killed_Suc)

lemma card_subtree: "tree_rel s F (a_kids a) \<Longrightarrow> p < MAXPROC \<Longrightarrow> p \<notin> F \<Longrightarrow> card (subtree a p) \<le> MAXPROC"
  using card_mono [of "{..<MAXPROC}" "subtree a p"] subtree_bound [of s F a p] by auto

lemma kill_tree_spec:
  assumes "store_rel s a L" and "p < MAXPROC" and "p \<notin> set (a_free a)"
  shows "\<exists>s' a'. kill_tree TREE_FUEL (Ptr p) s = Some s' \<and> removed (subtree a p) s a L s' a' (L - subtree a p)"
proof -
  have "2 * card (subtree a p) \<le> TREE_FUEL"
    using card_subtree [OF store_relD(4) [OF assms(1)] assms(2,3)] by (simp add: TREE_FUEL_def)
  then obtain s' a' L' where s': "kill_tree TREE_FUEL (Ptr p) s = Some s'" "removed (subtree a p) s a L s' a' L'"
    using tree_and_kids_killed assms unfolding tree_killed_def by blast
  then have "L' = L - subtree a p" by (simp add: removed_def)
  then show ?thesis using s' by blast
qed

section \<open>Properties\<close>

text \<open>
  C8. \<open>kill_tree\<close> ends, without following a pointer outside the tables, and kills exactly the process
  and its descendants: they leave the tree, the ready queue and every semaphore, in each of which the
  others keep their order, and they are all on the free list afterwards; no other table entry changes.
\<close>

theorem kill_tree_exact:
  assumes "store_rel s a L" and "p < MAXPROC" and "p \<notin> set (a_free a)"
  shows "\<exists>s' a'. kill_tree TREE_FUEL (Ptr p) s = Some s' \<and> store_rel s' a' (L - subtree a p) \<and>
    a_ready a' = filter (\<lambda>q. q \<notin> subtree a p) (a_ready a) \<and>
    (\<forall>k. a_sem a' k = filter (\<lambda>q. q \<notin> subtree a p) (a_sem a k)) \<and>
    set (a_free a') = set (a_free a) \<union> subtree a p \<and>
    (\<forall>q. q \<notin> subtree a p \<longrightarrow> pcbTable s' q = pcbTable s q \<and>
       a_kids a' q = filter (\<lambda>c. c \<notin> subtree a p) (a_kids a q))"
proof -
  obtain s' a' where s': "kill_tree TREE_FUEL (Ptr p) s = Some s'" "removed (subtree a p) s a L s' a' (L - subtree a p)"
    using kill_tree_spec [OF assms] by blast
  obtain ds where "a_free a' = ds @ a_free a" "set ds = subtree a p" using s'(2) by (auto simp: removed_def)
  then have "set (a_free a') = set (a_free a) \<union> subtree a p" by auto
  then show ?thesis using s' unfolding removed_def by (intro exI [of _ s'] exI [of _ a']) simp
qed

theorem kill_tree_exact_witness:
  "\<exists>s a p s' a'. pcb_alloc s = Some (Ptr p, s') \<and> store_rel s' a' {p} \<and>
     (\<exists>s'' a''. kill_tree TREE_FUEL (Ptr p) s' = Some s'' \<and> store_rel s'' a'' ({p} - subtree a' p) \<and> p \<in> set (a_free a''))"
proof -
  obtain s where s: "store_rel s boot_abs {}" using boot_store [of UMPS] by blast
  have f: "a_free boot_abs = 19 # rev [0..<19]" by (simp add: boot_abs_def MAXPROC_def upt_rec)
  obtain s' where s': "pcb_alloc s = Some (Ptr 19, s')" "store_rel s' (boot_abs\<lparr>a_free := rev [0..<19]\<rparr>) {19}"
    using store_rel_alloc [OF s f] by auto
  have "\<exists>s'' a''. kill_tree TREE_FUEL (Ptr 19) s' = Some s'' \<and>
      store_rel s'' a'' ({19} - subtree (boot_abs\<lparr>a_free := rev [0..<19]\<rparr>) 19) \<and> 19 \<in> set (a_free a'')"
    using kill_tree_exact [OF s'(2), of 19] subtree_self [of 19 "boot_abs\<lparr>a_free := rev [0..<19]\<rparr>"]
    by (fastforce simp: MAXPROC_def)
  then show ?thesis using s' by blast
qed

end
