(* ===== verification/Machine.thy ===== *)
theory Machine
  imports KillTree
begin

text \<open>
  The kernel's state as a whole and the machine around it.

  \<open>kst\<close> holds the kernel's static variables (the tables of \<open>pcb.c\<close> and \<open>asl.c\<close> in \<open>st\<close>, then
  those of \<open>scheduler.c\<close> and \<open>syscalls.c\<close>) and what the code reaches through pointers: processor
  states (\<open>areas\<close>), words (\<open>mem\<close>), bytes (\<open>bytes\<close>) and device registers (\<open>devs\<close>), each by
  address. Objects of different types, and the kernel's own tables, do not overlap in memory: that is
  the typed memory that C's aliasing rules assume. Address \<open>0\<close> is \<open>NULL\<close> and following it is
  \<open>None\<close>.

  The volatile inputs, the time of day and the processor's own state, are the sequences \<open>clock\<close> and
  \<open>cpu\<close> of which each access reads the next value; \<open>reads\<close> counts the accesses. The addresses the
  linker chooses are in \<open>linked\<close>. A kernel function that ends in \<open>LDST\<close> does not return: its value
  is the processor state that is loaded and the kernel state left behind.
\<close>

record linkage =
  pcbTable_addr :: u32
  devices_semkeys_addr :: u32
  idle_process_code :: u32
  interrupts_handler_code :: u32
  tlb_exception_handler_code :: u32
  trap_exception_handler_code :: u32
  syscall_handler_code :: u32
  test_code :: u32

record kst =
  target :: arch
  linked :: linkage
  st :: store
  current_proc :: pcb_ptr
  switch_tick :: u32
  idle_proc_state :: state_t
  old_state :: u32
  areas :: "u32 \<Rightarrow> state_t"
  mem :: "u32 \<Rightarrow> u32"
  bytes :: "u32 \<Rightarrow> u8"
  devs :: "u32 \<Rightarrow> devreg_t"
  timer :: u32
  clock :: "nat \<Rightarrow> u32"
  cpu :: "nat \<Rightarrow> state_t"
  reads :: nat

type_synonym outcome = "(state_t \<times> kst) option"

section \<open>Addresses of table entries\<close>

text \<open>
  \<open>sizeof(pcb_t)\<close> with the alignment of its \<open>uint64_t\<close> members. A word that is not the address of
  an entry of \<open>pcbTable\<close> is a wild pointer; it keeps its value as an index beyond the table.
\<close>

fun SIZEOF_PCB_T :: "arch \<Rightarrow> nat" where
  "SIZEOF_PCB_T UMPS = 232"
| "SIZEOF_PCB_T UARM = 176"

definition addr_of_pcb :: "kst \<Rightarrow> pcb_ptr \<Rightarrow> u32" where
  "addr_of_pcb k p = (case p of
     Null \<Rightarrow> 0
   | Ptr i \<Rightarrow> if i < MAXPROC then pcbTable_addr (linked k) + of_nat (i * SIZEOF_PCB_T (target k))
             else of_nat (i - MAXPROC))"

definition pcb_at_addr :: "kst \<Rightarrow> u32 \<Rightarrow> pcb_ptr" where
  "pcb_at_addr k w =
     (if w = 0 then Null
      else case find (\<lambda>i. addr_of_pcb k (Ptr i) = w) [0..<MAXPROC] of
        Some i \<Rightarrow> Ptr i
      | None \<Rightarrow> Ptr (MAXPROC + unat w))"

section \<open>Machine access\<close>

definition getTODLO :: "kst \<Rightarrow> u32 \<times> kst" where
  "getTODLO k = (clock k (reads k), k\<lparr>reads := Suc (reads k)\<rparr>)"

definition STST :: "kst \<Rightarrow> state_t \<times> kst" where
  "STST k = (cpu k (reads k), k\<lparr>reads := Suc (reads k)\<rparr>)"

definition setTIMER :: "u32 \<Rightarrow> kst \<Rightarrow> kst" where
  "setTIMER v k = k\<lparr>timer := v\<rparr>"

definition TIME_SLICE :: "kst \<Rightarrow> u32" where
  "TIME_SLICE k = 3 * 1000 * mem k (BUS_REG_TIME_SCALE (target k))"

definition TIMER_ACK :: u32 where "TIMER_ACK = 0xFFFFFFFF"

definition load_area :: "u32 \<Rightarrow> kst \<Rightarrow> state_t option" where
  "load_area p k = (if p = 0 then None else Some (areas k p))"

definition store_area :: "u32 \<Rightarrow> state_t \<Rightarrow> kst \<Rightarrow> kst option" where
  "store_area p v k = (if p = 0 then None else Some (k\<lparr>areas := (areas k)(p := v)\<rparr>))"

definition load_word :: "u32 \<Rightarrow> kst \<Rightarrow> u32 option" where
  "load_word p k = (if p = 0 then None else Some (mem k p))"

definition store_word :: "u32 \<Rightarrow> u32 \<Rightarrow> kst \<Rightarrow> kst option" where
  "store_word p v k = (if p = 0 then None else Some (k\<lparr>mem := (mem k)(p := v)\<rparr>))"

definition LDST :: "u32 \<Rightarrow> kst \<Rightarrow> outcome" where
  "LDST p k = do { v \<leftarrow> load_area p k; Some (v, k) }"

text \<open>An operation on the tables, run inside the kernel state.\<close>

definition on_st :: "(store \<Rightarrow> store option) \<Rightarrow> kst \<Rightarrow> kst option" where
  "on_st f k = do { s \<leftarrow> f (st k); Some (k\<lparr>st := s\<rparr>) }"

definition on_st_ret :: "(store \<Rightarrow> ('a \<times> store) option) \<Rightarrow> kst \<Rightarrow> ('a \<times> kst) option" where
  "on_st_ret f k = do { (r, s) \<leftarrow> f (st k); Some (r, k\<lparr>st := s\<rparr>) }"

definition upd_current :: "(pcb_t \<Rightarrow> pcb_t) \<Rightarrow> kst \<Rightarrow> kst option" where
  "upd_current f k = on_st (upd_pcb (current_proc k) f) k"

definition get_current :: "kst \<Rightarrow> pcb_t option" where
  "get_current k = get_pcb (current_proc k) (st k)"

lemmas machine_defs = getTODLO_def STST_def setTIMER_def load_area_def store_area_def load_word_def
  store_word_def LDST_def on_st_def on_st_ret_def upd_current_def get_current_def

section \<open>The kernel's view of a process identifier\<close>

text \<open>
  The table has an address range of its own: it is not at \<open>NULL\<close> and does not wrap around.
\<close>

definition linked_ok :: "kst \<Rightarrow> bool" where
  "linked_ok k \<longleftrightarrow> 0 < pcbTable_addr (linked k) \<and>
     unat (pcbTable_addr (linked k)) + MAXPROC * SIZEOF_PCB_T (target k) < 2 ^ 32"

lemma sizeof_pos: "0 < SIZEOF_PCB_T a"
  by (cases a) auto

lemma unat_add_of_nat:
  assumes "unat (b :: u32) + m < 2 ^ 32"
  shows "unat (b + of_nat m) = unat b + m"
proof -
  have "unat (of_nat m :: u32) = m" using assms by (simp add: unat_of_nat)
  then show ?thesis using assms by (simp add: unat_add_lem [THEN iffD1])
qed

lemma unat_addr_of_pcb:
  assumes "linked_ok k" and "i < MAXPROC"
  shows "unat (addr_of_pcb k (Ptr i)) = unat (pcbTable_addr (linked k)) + i * SIZEOF_PCB_T (target k)"
proof -
  let ?b = "unat (pcbTable_addr (linked k))" and ?z = "SIZEOF_PCB_T (target k)"
  have "i * ?z \<le> MAXPROC * ?z" using assms(2) by simp
  moreover have "?b + MAXPROC * ?z < 2 ^ 32" using assms(1) by (simp add: linked_ok_def)
  ultimately have "?b + i * ?z < 2 ^ 32" by (rule order_le_less_trans [OF add_left_mono])
  then show ?thesis using assms(2) unat_add_of_nat by (simp add: addr_of_pcb_def del: of_nat_mult)
qed

lemma addr_of_pcb_inj:
  assumes "linked_ok k" and "i < MAXPROC" "j < MAXPROC"
    and "addr_of_pcb k (Ptr i) = addr_of_pcb k (Ptr j)"
  shows "i = j"
proof -
  have "i * SIZEOF_PCB_T (target k) = j * SIZEOF_PCB_T (target k)"
    using unat_addr_of_pcb [OF assms(1)] assms(2-4) by (metis add_left_cancel)
  then show ?thesis using sizeof_pos [of "target k"] by simp
qed

lemma addr_of_pcb_nonzero: "linked_ok k \<Longrightarrow> i < MAXPROC \<Longrightarrow> addr_of_pcb k (Ptr i) \<noteq> 0"
proof
  assume k: "linked_ok k" "i < MAXPROC" "addr_of_pcb k (Ptr i) = 0"
  then have "unat (pcbTable_addr (linked k)) = 0" using unat_addr_of_pcb [OF k(1,2)] by simp
  then show False using k(1) by (simp add: linked_ok_def unat_eq_0)
qed

text \<open>The pointer a process gets as its identifier names the process again when it comes back.\<close>

lemma pcb_at_addr_of_pcb:
  assumes "linked_ok k" and "p = Null \<or> (\<exists>i<MAXPROC. p = Ptr i)"
  shows "pcb_at_addr k (addr_of_pcb k p) = p"
  using assms(2)
proof
  assume "\<exists>i<MAXPROC. p = Ptr i"
  then obtain i where i: "i < MAXPROC" "p = Ptr i" by blast
  have "find (\<lambda>j. addr_of_pcb k (Ptr j) = addr_of_pcb k (Ptr i)) [0..<MAXPROC] = Some i"
  proof (cases "find (\<lambda>j. addr_of_pcb k (Ptr j) = addr_of_pcb k (Ptr i)) [0..<MAXPROC]")
    case None
    then show ?thesis using i(1) by (auto simp: find_None_iff)
  next
    case (Some j)
    then have "j < MAXPROC" "addr_of_pcb k (Ptr j) = addr_of_pcb k (Ptr i)"
      by (auto simp: find_Some_iff)
    then show ?thesis using addr_of_pcb_inj [OF assms(1)] i(1) Some by metis
  qed
  then show ?thesis using addr_of_pcb_nonzero [OF assms(1) i(1)] i(2) by (simp add: pcb_at_addr_def)
qed (simp add: pcb_at_addr_def addr_of_pcb_def)

section \<open>Properties\<close>

text \<open>
  The identifier a process gets from \<open>CREATEPROCESS\<close> or \<open>GETPID\<close> names the same process when it
  passes it back to \<open>TERMINATEPROCESS\<close>, and different processes have different identifiers, provided
  the linker has placed the table away from \<open>NULL\<close> and below the end of memory.
\<close>

lemma pid_roundtrip:
  assumes "linked_ok k" and "p < MAXPROC"
  shows "pcb_at_addr k (addr_of_pcb k (Ptr p)) = Ptr p \<and> addr_of_pcb k (Ptr p) \<noteq> 0 \<and>
    (\<forall>q<MAXPROC. addr_of_pcb k (Ptr p) = addr_of_pcb k (Ptr q) \<longrightarrow> p = q)"
  using pcb_at_addr_of_pcb [OF assms(1)] addr_of_pcb_inj [OF assms] addr_of_pcb_nonzero [OF assms] assms(2) by auto

text \<open>A kernel before it boots: the static tables, and everything else zero.\<close>

definition demo_kst :: "arch \<Rightarrow> kst" where
  "demo_kst ar = \<lparr>target = ar,
     linked = \<lparr>pcbTable_addr = 0x20008000, devices_semkeys_addr = 0x20009400, idle_process_code = 0x20001000,
       interrupts_handler_code = 0x20001100, tlb_exception_handler_code = 0x20001200,
       trap_exception_handler_code = 0x20001300, syscall_handler_code = 0x20001400, test_code = 0x20001500\<rparr>,
     st = static_store ar, current_proc = Null, switch_tick = 0, idle_proc_state = bss_state ar, old_state = 0,
     areas = (\<lambda>_. bss_state ar), mem = (\<lambda>_. 0), bytes = (\<lambda>_. 0),
     devs = (\<lambda>_. \<lparr>dtp_status = 1, dtp_command = 0, dtp_data0 = 1, dtp_data1 = 0\<rparr>),
     timer = 0, clock = of_nat, cpu = (\<lambda>_. bss_state ar), reads = 0\<rparr>"

lemma pid_roundtrip_example:
  "pcb_at_addr (demo_kst UMPS) (addr_of_pcb (demo_kst UMPS) (Ptr 6)) = Ptr 6 \<and>
   addr_of_pcb (demo_kst UMPS) (Ptr 6) = 0x20008570"
proof -
  have "linked_ok (demo_kst UMPS)" by (simp add: linked_ok_def demo_kst_def MAXPROC_def)
  then show ?thesis using pid_roundtrip [of "demo_kst UMPS" 6]
    by (simp add: MAXPROC_def) (simp add: addr_of_pcb_def demo_kst_def MAXPROC_def)
qed

end
