(* ===== verification/Lifecycle.thy ===== *)
theory Lifecycle
  imports KillTree
begin

text \<open>
  The life of processes, as an abstract machine. A state is the running process, if there is one, and
  the abstract view of the tables: the free processes, the ready queue, the queue of every semaphore
  and the tree. The rules are the only ways a process moves: it is created, dispatched, preempted,
  blocked, woken or killed with its descendants. The kernel's handlers refine this machine: every run
  of a handler is a sequence of such moves.
\<close>

section \<open>The machine\<close>

text \<open>A process joins a queue somewhere, and the others keep their order.\<close>

definition inserted :: "'a \<Rightarrow> 'a list \<Rightarrow> 'a list \<Rightarrow> bool" where
  "inserted p xs ys \<longleftrightarrow> (\<exists>us vs. xs = us @ vs \<and> ys = us @ p # vs)"

definition killed :: "nat set \<Rightarrow> proc_abs \<Rightarrow> proc_abs \<Rightarrow> bool" where
  "killed D a a' \<longleftrightarrow> a_ready a' = filter (\<lambda>q. q \<notin> D) (a_ready a) \<and>
     (\<forall>x. a_sem a' x = filter (\<lambda>q. q \<notin> D) (a_sem a x)) \<and>
     (\<forall>q. a_kids a' q = (if q \<in> D then [] else filter (\<lambda>c. c \<notin> D) (a_kids a q))) \<and>
     (\<exists>ds. a_free a' = ds @ a_free a \<and> set ds = D)"

inductive astep :: "pcb_ptr \<times> proc_abs \<Rightarrow> pcb_ptr \<times> proc_abs \<Rightarrow> bool" where
  create: "a_free a = p # fs \<Longrightarrow> inserted p (a_ready a) rq \<Longrightarrow>
    astep (Ptr c, a) (Ptr c, a\<lparr>a_free := fs, a_ready := rq, a_kids := (a_kids a)(c := a_kids a c @ [p])\<rparr>)"
| dispatch: "a_ready a = p # rq \<Longrightarrow> astep (Null, a) (Ptr p, a\<lparr>a_ready := rq\<rparr>)"
| preempt: "inserted p (a_ready a) rq \<Longrightarrow> astep (Ptr p, a) (Null, a\<lparr>a_ready := rq\<rparr>)"
| block: "inserted p (a_sem a x) ps \<Longrightarrow> astep (Ptr p, a) (Null, a\<lparr>a_sem := (a_sem a)(x := ps)\<rparr>)"
| wake: "a_sem a x = p # ps \<Longrightarrow> inserted p (a_ready a) rq \<Longrightarrow>
    astep (c, a) (c, a\<lparr>a_sem := (a_sem a)(x := ps), a_ready := rq\<rparr>)"
| kill: "c = Ptr p \<or> (\<forall>q. c = Ptr q \<longrightarrow> q \<notin> subtree a p) \<Longrightarrow> killed (subtree a p) a a' \<Longrightarrow>
    astep (c, a) (if c = Ptr p then Null else c, a')"

abbreviation "asteps \<equiv> astep\<^sup>*\<^sup>*"

lemma inserted_prio [simp]: "inserted p xs (prio_insert f p xs)"
  unfolding inserted_def prio_insert_def by (metis takeWhile_dropWhile_id)

lemma inserted_set: "inserted p xs ys \<Longrightarrow> set ys = insert p (set xs)"
  by (auto simp: inserted_def)

lemma removed_killed: "removed D s a L s' a' L' \<Longrightarrow> killed D a a'"
  by (simp add: removed_def killed_def)

section \<open>Consequences\<close>

text \<open>
  Where a process can go in one move. A blocked process does not run before it has been ready, and
  a ready one is not blocked before it has run.
\<close>

definition is_blocked :: "u32 \<Rightarrow> nat \<Rightarrow> proc_abs \<Rightarrow> bool" where
  "is_blocked x p a \<longleftrightarrow> p \<in> set (a_sem a x)"

lemma blocked_move:
  assumes "astep (c, a) (c', a')" and "is_blocked x p a" and "c \<noteq> Ptr p" and "p \<notin> set (a_ready a)"
  shows "is_blocked x p a' \<and> c' \<noteq> Ptr p \<or> p \<in> set (a_ready a') \<or> p \<in> set (a_free a')"
  using assms
proof cases
  case (wake y q ps rq)
  then show ?thesis using assms(2,3) inserted_set [OF wake(4)]
    by (cases "x = y") (auto simp: is_blocked_def)
next
  case (kill q)
  then show ?thesis using assms(2,3) unfolding killed_def is_blocked_def
    by (cases "p \<in> subtree a q") auto
qed (auto simp: is_blocked_def dest: inserted_set)

lemma ready_move:
  assumes "astep (c, a) (c', a')" and "p \<in> set (a_ready a)" and "c \<noteq> Ptr p" and "p \<notin> blocked (a_sem a)"
  shows "p \<notin> blocked (a_sem a') \<and> (p \<in> set (a_ready a') \<or> c' = Ptr p \<or> p \<in> set (a_free a'))"
  using assms
proof cases
  case (kill q)
  then show ?thesis using assms(2,4) unfolding killed_def blocked_def
    by (cases "p \<in> subtree a q") auto
next
  case (wake x q ps rq)
  have "p \<notin> set ps" using assms(4) wake(3) unfolding blocked_def by (metis UN_I UNIV_I list.set_intros(2))
  then show ?thesis using assms(2,4) wake inserted_set [OF wake(4)] by (auto simp: blocked_def)
qed (auto simp: blocked_def dest: inserted_set split: if_splits)

end
