(* ===== verification/Scheduler.thy ===== *)
theory Scheduler
  imports Machine Lifecycle
begin

text \<open>
  \<open>src/scheduler.c\<close>: the ready queue, aging, the accounting of processor time, dispatching,
  blocking and killing.

  \<open>kernel_rel k a\<close> is the invariant between two entries to the kernel: the tables hold the abstract
  view \<open>a\<close>, and the running process, if there is one, is on no list. The lemmas give the exact
  effect of every function on the kernel state, branch by branch, and with it that each of them keeps
  the invariant.
\<close>

section \<open>The code\<close>

definition DEFAULT_PRIORITY :: s32 where "DEFAULT_PRIORITY = 1"

definition scheduler_enqueue_process :: "pcb_ptr \<Rightarrow> kst \<Rightarrow> kst option" where
  "scheduler_enqueue_process proc k = do {
     k \<leftarrow> on_st (upd_pcb proc (\<lambda>b. b\<lparr>priority := original_priority b\<rparr>)) k;
     on_st (pcb_insert_in_queue ReadyQueue proc) k }"

definition scheduler_init :: "u32 \<Rightarrow> kst \<Rightarrow> kst option" where
  "scheduler_init code k =
     (let (v, k) = STST k;
          v = set_PC (idle_process_code (linked k)) v;
          v = set_STATUS (KERNEL_MODE v) v;
          v = set_STATUS (ALL_INT_ENABLE v) v;
          v = set_VM (VM v AND VM_OFF (target k)) v;
          k = k\<lparr>idle_proc_state := v\<rparr>
      in do {
        (init_proc, k) \<leftarrow> on_st_ret pcb_alloc k;
        let (v, k) = STST k;
        k \<leftarrow> on_st (upd_pcb init_proc (\<lambda>b.
          let v = set_SP (RAM_TOP (target k) (mem k) - FRAME_SIZE) v;
              v = set_PC code v;
              v = set_STATUS (KERNEL_MODE v) v;
              v = set_STATUS (ALL_INT_ENABLE v) v;
              v = set_VM (VM v AND VM_OFF (target k)) v
          in b\<lparr>p_s := v, original_priority := DEFAULT_PRIORITY\<rparr>)) k;
        scheduler_enqueue_process init_proc k })"

text \<open>The loop of \<open>aging\<close> changes no cell, so the cells it visits are those at its start.\<close>

definition aging :: "kst \<Rightarrow> kst option" where
  "aging k = on_st (\<lambda>s. do {
     its \<leftarrow> list_for_each ReadyQueue (cells s);
     for_each its (\<lambda>n s. do {
       it \<leftarrow> container_of_p_next n;
       upd_pcb it (\<lambda>b. b\<lparr>priority := priority b + 1\<rparr>) s }) s }) k"

definition scheduler_account_time :: "bool \<Rightarrow> kst \<Rightarrow> kst option" where
  "scheduler_account_time for_kernel k = do {
     k \<leftarrow> (if current_proc k \<noteq> Null then
              (let (t, k) = getTODLO k; d = ucast (t - switch_tick k) in
               if for_kernel then upd_current (\<lambda>b. b\<lparr>kernel_tm := kernel_tm b + d\<rparr>) k
               else upd_current (\<lambda>b. b\<lparr>user_tm := user_tm b + d\<rparr>) k)
            else Some k);
     let (t, k) = getTODLO k;
     Some (k\<lparr>switch_tick := t\<rparr>) }"

definition scheduler_run :: "kst \<Rightarrow> outcome" where
  "scheduler_run k = do {
     (p, k) \<leftarrow> on_st_ret (pcb_remove_from_queue ReadyQueue) k;
     let k = k\<lparr>current_proc := p\<rparr>;
     b \<leftarrow> get_current k;
     k \<leftarrow> (if start_tm b = 0 then
              (let (t, k) = getTODLO k in upd_current (\<lambda>b. b\<lparr>start_tm := ucast t\<rparr>) k)
            else Some k);
     let (t, k) = getTODLO k;
     let k = k\<lparr>switch_tick := t\<rparr>;
     let k = setTIMER (TIME_SLICE k) k;
     b \<leftarrow> get_current k;
     Some (p_s b, k) }"

text \<open>\<open>scheduler_resume\<close> once no process keeps the processor: idle, or the next one.\<close>

definition scheduler_dispatch :: "kst \<Rightarrow> outcome" where
  "scheduler_dispatch k = do {
     e \<leftarrow> pcb_is_queue_empty ReadyQueue (st k);
     if e then Some (idle_proc_state k, k)
     else scheduler_run k }"

definition scheduler_resume :: "bool \<Rightarrow> u32 \<Rightarrow> kst \<Rightarrow> outcome" where
  "scheduler_resume time_slice_ended old k =
     (if current_proc k \<noteq> Null then do {
        k \<leftarrow> scheduler_account_time True k;
        if \<not> time_slice_ended then LDST old k
        else do {
          e \<leftarrow> pcb_is_queue_empty ReadyQueue (st k);
          k \<leftarrow> (if \<not> e then aging k else Some k);
          v \<leftarrow> load_area old k;
          k \<leftarrow> upd_current (\<lambda>b. b\<lparr>p_s := v\<rparr>) k;
          k \<leftarrow> scheduler_enqueue_process (current_proc k) k;
          scheduler_dispatch k } }
      else scheduler_dispatch k)"

definition scheduler_block_current :: "u32 \<Rightarrow> u32 \<Rightarrow> kst \<Rightarrow> kst option" where
  "scheduler_block_current semaddr proc_state k = do {
     v \<leftarrow> load_area proc_state k;
     k \<leftarrow> upd_current (\<lambda>b. b\<lparr>p_s := v\<rparr>) k;
     k \<leftarrow> scheduler_account_time True k;
     (_, k) \<leftarrow> on_st_ret (asl_insert_blocked semaddr (current_proc k)) k;
     Some (k\<lparr>current_proc := Null\<rparr>) }"

definition scheduler_kill_process :: "pcb_ptr \<Rightarrow> kst \<Rightarrow> kst option" where
  "scheduler_kill_process pid k =
     (let k = (if pid = current_proc k then k\<lparr>current_proc := Null\<rparr> else k)
      in on_st (kill_tree TREE_FUEL pid) k)"

definition scheduler_handle_exception :: "nat \<Rightarrow> u32 \<Rightarrow> kst \<Rightarrow> outcome" where
  "scheduler_handle_exception type old k = do {
     k \<leftarrow> scheduler_account_time False k;
     b \<leftarrow> get_current k;
     if \<not> (type < length (exc_new_areas b) \<and> type < length (exc_old_areas b)) then None
     else if exc_new_areas b ! type \<noteq> 0 then do {
       v \<leftarrow> load_area old k;
       k \<leftarrow> store_area (exc_old_areas b ! type) v k;
       k \<leftarrow> scheduler_account_time True k;
       b \<leftarrow> get_current k;
       LDST (exc_new_areas b ! type) k }
     else do {
       k \<leftarrow> scheduler_kill_process (current_proc k) k;
       scheduler_resume False 0 k } }"

section \<open>The invariant\<close>

fun running :: "pcb_ptr \<Rightarrow> nat set" where
  "running Null = {}"
| "running (Ptr p) = {p}"

definition areas_ok :: "store \<Rightarrow> bool" where
  "areas_ok s \<longleftrightarrow> (\<forall>p. length (exc_new_areas (pcbTable s p)) = 3 \<and> length (exc_old_areas (pcbTable s p)) = 3)"

definition kernel_rel :: "kst \<Rightarrow> proc_abs \<Rightarrow> bool" where
  "kernel_rel k a \<longleftrightarrow> store_rel (st k) a (running (current_proc k)) \<and> areas_ok (st k)"

lemma kernel_relD:
  assumes "kernel_rel k a"
  shows "store_rel (st k) a (running (current_proc k))" "areas_ok (st k)"
    "current_proc k = Ptr p \<Longrightarrow> p < MAXPROC"
    "current_proc k = Ptr p \<Longrightarrow> p \<notin> set (a_free a) \<and> p \<notin> set (a_ready a) \<and> p \<notin> blocked (a_sem a)"
  using assms by (auto simp: kernel_rel_def dest!: store_relD(5) simp: places_def)

text \<open>The kernel went from the view \<open>a\<close> to the view \<open>a'\<close> by moves of the abstract machine.\<close>

definition moves :: "kst \<Rightarrow> proc_abs \<Rightarrow> kst \<Rightarrow> proc_abs \<Rightarrow> bool" where
  "moves k a k' a' \<longleftrightarrow> asteps (current_proc k, a) (current_proc k', a')"

lemma moves_refl: "current_proc k' = current_proc k \<Longrightarrow> moves k a k' a"
  by (simp add: moves_def)

lemma moves_trans [trans]: "moves k a k1 a1 \<Longrightarrow> moves k1 a1 k2 a2 \<Longrightarrow> moves k a k2 a2"
  by (simp add: moves_def)

lemma moves_step: "astep (current_proc k, a) (current_proc k', a') \<Longrightarrow> moves k a k' a'"
  by (simp add: moves_def r_into_rtranclp)

lemma moves_from: "current_proc k1 = current_proc k \<Longrightarrow> moves k1 a k' a' = moves k a k' a'"
  by (simp add: moves_def)

lemma kernel_rel_cong:
  "kernel_rel k a \<Longrightarrow> st k' = st k \<Longrightarrow> current_proc k' = current_proc k \<Longrightarrow> kernel_rel k' a"
  by (simp add: kernel_rel_def)

text \<open>Members of a table entry that the lists and the tree do not depend on.\<close>

definition same_links :: "pcb_t \<Rightarrow> pcb_t \<Rightarrow> bool" where
  "same_links b b' \<longleftrightarrow> p_parent b' = p_parent b \<and> p_semkey b' = p_semkey b \<and>
     length (exc_new_areas b') = length (exc_new_areas b) \<and>
     length (exc_old_areas b') = length (exc_old_areas b)"

lemma store_rel_upd:
  assumes "store_rel s a L" and "areas_ok s" and "\<And>i. same_links (pcbTable s i) (t i)"
  shows "store_rel (s\<lparr>pcbTable := t\<rparr>) a L \<and> areas_ok (s\<lparr>pcbTable := t\<rparr>)"
  using store_rel_cong [OF assms(1), of "s\<lparr>pcbTable := t\<rparr>"] assms(2,3)
  by (simp add: same_links_def areas_ok_def)

lemma areas_ok_cong: "areas_ok s \<Longrightarrow> (\<And>i. same_links (pcbTable s i) (pcbTable s' i)) \<Longrightarrow> areas_ok s'"
  by (simp add: same_links_def areas_ok_def)

lemma areas_ok_same: "areas_ok s \<Longrightarrow> pcbTable s' = pcbTable s \<Longrightarrow> areas_ok s'"
  by (simp add: areas_ok_def)

section \<open>Accounting\<close>

definition charge :: "bool \<Rightarrow> u32 \<Rightarrow> pcb_t \<Rightarrow> pcb_t" where
  "charge for_kernel d b = (if for_kernel then b\<lparr>kernel_tm := kernel_tm b + ucast d\<rparr>
     else b\<lparr>user_tm := user_tm b + ucast d\<rparr>)"

lemma charge_simps [simp]:
  "p_parent (charge x d b) = p_parent b" "p_semkey (charge x d b) = p_semkey b"
  "priority (charge x d b) = priority b" "original_priority (charge x d b) = original_priority b"
  "p_s (charge x d b) = p_s b" "start_tm (charge x d b) = start_tm b"
  "exc_new_areas (charge x d b) = exc_new_areas b" "exc_old_areas (charge x d b) = exc_old_areas b"
  by (simp_all add: charge_def)

lemma same_links_refl [simp]: "same_links b b"
  by (simp add: same_links_def)

lemma same_links_charge [simp]: "same_links b (charge x d b)"
  by (simp add: same_links_def)

lemma account_time_idle:
  "current_proc k = Null \<Longrightarrow> scheduler_account_time x k =
   Some (k\<lparr>switch_tick := clock k (reads k), reads := Suc (reads k)\<rparr>)"
  by (simp add: scheduler_account_time_def machine_defs)

lemma account_time_running:
  "current_proc k = Ptr p \<Longrightarrow> p < MAXPROC \<Longrightarrow> scheduler_account_time x k =
   Some (k\<lparr>st := (st k)\<lparr>pcbTable := (pcbTable (st k))
             (p := charge x (clock k (reads k) - switch_tick k) (pcbTable (st k) p))\<rparr>,
           switch_tick := clock k (Suc (reads k)), reads := Suc (Suc (reads k))\<rparr>)"
  by (simp add: scheduler_account_time_def machine_defs upd_pcb_def deref_def charge_def Let_def)

text \<open>
  \<open>scheduler_account_time\<close> keeps everything but the times of the running process, the last switch
  and the number of clock reads.
\<close>

definition timed :: "kst \<Rightarrow> kst \<Rightarrow> bool" where
  "timed k k' \<longleftrightarrow> k' = k\<lparr>st := st k', switch_tick := switch_tick k', reads := reads k'\<rparr> \<and>
     (\<exists>t. st k' = (st k)\<lparr>pcbTable := t\<rparr>) \<and>
     (\<forall>i. \<exists>u v. pcbTable (st k') i = (pcbTable (st k) i)\<lparr>user_tm := u, kernel_tm := v\<rparr>)"

lemma timed_fields:
  assumes "timed k k'"
  shows "target k' = target k" "linked k' = linked k" "current_proc k' = current_proc k"
    "idle_proc_state k' = idle_proc_state k" "old_state k' = old_state k" "areas k' = areas k"
    "mem k' = mem k" "bytes k' = bytes k" "devs k' = devs k" "timer k' = timer k" "clock k' = clock k"
    "cpu k' = cpu k"
proof -
  have k: "k' = k\<lparr>st := st k', switch_tick := switch_tick k', reads := reads k'\<rparr>"
    using assms by (simp add: timed_def)
  show "target k' = target k" "linked k' = linked k" "current_proc k' = current_proc k"
    "idle_proc_state k' = idle_proc_state k" "old_state k' = old_state k" "areas k' = areas k"
    "mem k' = mem k" "bytes k' = bytes k" "devs k' = devs k" "timer k' = timer k" "clock k' = clock k"
    "cpu k' = cpu k"
    by (subst k, simp)+
qed

lemma timed_pcb:
  assumes "timed k k'"
  shows "p_parent (pcbTable (st k') i) = p_parent (pcbTable (st k) i)"
    "p_semkey (pcbTable (st k') i) = p_semkey (pcbTable (st k) i)"
    "p_s (pcbTable (st k') i) = p_s (pcbTable (st k) i)"
    "priority (pcbTable (st k') i) = priority (pcbTable (st k) i)"
    "original_priority (pcbTable (st k') i) = original_priority (pcbTable (st k) i)"
    "exc_new_areas (pcbTable (st k') i) = exc_new_areas (pcbTable (st k) i)"
    "exc_old_areas (pcbTable (st k') i) = exc_old_areas (pcbTable (st k) i)"
    "start_tm (pcbTable (st k') i) = start_tm (pcbTable (st k) i)"
proof -
  obtain u v where "pcbTable (st k') i = (pcbTable (st k) i)\<lparr>user_tm := u, kernel_tm := v\<rparr>"
    using assms unfolding timed_def by blast
  then show "p_parent (pcbTable (st k') i) = p_parent (pcbTable (st k) i)"
    "p_semkey (pcbTable (st k') i) = p_semkey (pcbTable (st k) i)"
    "p_s (pcbTable (st k') i) = p_s (pcbTable (st k) i)"
    "priority (pcbTable (st k') i) = priority (pcbTable (st k) i)"
    "original_priority (pcbTable (st k') i) = original_priority (pcbTable (st k) i)"
    "exc_new_areas (pcbTable (st k') i) = exc_new_areas (pcbTable (st k) i)"
    "exc_old_areas (pcbTable (st k') i) = exc_old_areas (pcbTable (st k) i)"
    "start_tm (pcbTable (st k') i) = start_tm (pcbTable (st k) i)"
    by simp_all
qed

lemma timed_store_rel:
  assumes "timed k k'" and "store_rel (st k) a L" and "areas_ok (st k)"
  shows "store_rel (st k') a L" "areas_ok (st k')"
proof -
  obtain t where t: "st k' = (st k)\<lparr>pcbTable := t\<rparr>" using assms(1) unfolding timed_def by blast
  have "same_links (pcbTable (st k) i) (t i)" for i
    using timed_pcb [OF assms(1), of i] t by (simp add: same_links_def)
  from store_rel_upd [OF assms(2,3) this] t
  show "store_rel (st k') a L" "areas_ok (st k')" by simp_all
qed

lemma timed_kernel_rel: "timed k k' \<Longrightarrow> kernel_rel k a \<Longrightarrow> kernel_rel k' a"
  using timed_store_rel timed_fields(3) by (auto simp: kernel_rel_def)

lemma times_self: "\<exists>u v. b = b\<lparr>user_tm := u, kernel_tm := v\<rparr>"
  by (rule exI [of _ "user_tm b"], rule exI [of _ "kernel_tm b"]) simp

lemma timed_trans_areas:
  assumes 1: "timed k k1" and 2: "timed (k1\<lparr>areas := ar\<rparr>) k2"
  shows "timed (k\<lparr>areas := ar\<rparr>) k2"
proof -
  have "\<exists>u v. pcbTable (st k2) i = (pcbTable (st k) i)\<lparr>user_tm := u, kernel_tm := v\<rparr>" for i
  proof -
    obtain u v where "pcbTable (st k1) i = (pcbTable (st k) i)\<lparr>user_tm := u, kernel_tm := v\<rparr>"
      using 1 unfolding timed_def by blast
    moreover obtain u' v' where "pcbTable (st k2) i = (pcbTable (st k1) i)\<lparr>user_tm := u', kernel_tm := v'\<rparr>"
      using 2 unfolding timed_def kst.simps by (metis kst.select_convs(3) kst.surjective kst.update_convs(8))
    ultimately show ?thesis by auto
  qed
  moreover have "\<exists>t. st k2 = (st k)\<lparr>pcbTable := t\<rparr>" using 1 2 unfolding timed_def by auto
  moreover have "k2 = k\<lparr>areas := ar, st := st k2, switch_tick := switch_tick k2, reads := reads k2\<rparr>"
    by (rule kst.equality) (simp_all add: timed_fields [OF 1] timed_fields [OF 2])
  ultimately show ?thesis by (simp add: timed_def)
qed

lemma charge_times: "\<exists>u v. charge x d b = b\<lparr>user_tm := u, kernel_tm := v\<rparr>"
proof (cases x)
  case True
  then show ?thesis
    by (intro exI [of _ "user_tm b"] exI [of _ "kernel_tm b + ucast d"]) (simp add: charge_def)
next
  case False
  then show ?thesis
    by (intro exI [of _ "user_tm b + ucast d"] exI [of _ "kernel_tm b"]) (simp add: charge_def)
qed

lemma account_time_spec:
  assumes "current_proc k = Null \<or> (\<exists>p<MAXPROC. current_proc k = Ptr p)"
  shows "\<exists>k'. scheduler_account_time x k = Some k' \<and> timed k k'"
  using assms
proof
  assume "current_proc k = Null"
  then show ?thesis unfolding account_time_idle [OF \<open>current_proc k = Null\<close>] timed_def
    by (auto intro: exI [of _ "pcbTable (st k)"] times_self)
next
  assume "\<exists>p<MAXPROC. current_proc k = Ptr p"
  then obtain p where p: "current_proc k = Ptr p" "p < MAXPROC" by blast
  show ?thesis unfolding account_time_running [OF p] timed_def
    using times_self charge_times by (auto intro: exI [of _ "(pcbTable (st k))(p := _)"])
qed

lemma kernel_rel_current: "kernel_rel k a \<Longrightarrow> current_proc k = Null \<or> (\<exists>p<MAXPROC. current_proc k = Ptr p)"
  using kernel_relD(3) by (cases "current_proc k") auto

section \<open>The ready queue\<close>

lemma enqueue_spec:
  assumes r: "store_rel (st k) a L" "areas_ok (st k)" and p: "p \<in> L"
  shows "\<exists>s'. scheduler_enqueue_process (Ptr p) k = Some (k\<lparr>st := s'\<rparr>) \<and>
    store_rel s' (a\<lparr>a_ready := prio_insert (prio s') p (a_ready a)\<rparr>) (L - {p}) \<and> areas_ok s' \<and>
    pcbTable s' = (pcbTable (st k))(p := (pcbTable (st k) p)\<lparr>priority := original_priority (pcbTable (st k) p)\<rparr>)"
proof -
  define t where "t = (pcbTable (st k))(p := (pcbTable (st k) p)\<lparr>priority := original_priority (pcbTable (st k) p)\<rparr>)"
  have pl: "p < MAXPROC" using places_lt [OF store_relD(5) [OF r(1)] p] .
  have 1: "store_rel ((st k)\<lparr>pcbTable := t\<rparr>) a L" "areas_ok ((st k)\<lparr>pcbTable := t\<rparr>)"
    using store_rel_upd [OF r, of t] by (auto simp: t_def same_links_def)
  obtain s' where s': "pcb_insert_in_queue ReadyQueue (Ptr p) ((st k)\<lparr>pcbTable := t\<rparr>) = Some s'"
      "store_rel s' (a\<lparr>a_ready := prio_insert (prio ((st k)\<lparr>pcbTable := t\<rparr>)) p (a_ready a)\<rparr>) (L - {p})"
      "pcbTable s' = t"
    using store_rel_enqueue [OF 1(1) p] by auto
  have "prio ((st k)\<lparr>pcbTable := t\<rparr>) = prio s'" using s'(3) by (simp add: prio_def fun_eq_iff)
  moreover have "areas_ok s'" using areas_ok_same [OF 1(2)] s'(3) by simp
  ultimately show ?thesis using s' pl
    by (auto simp: scheduler_enqueue_process_def on_st_def upd_pcb_def deref_def t_def)
qed

lemma for_each_upd:
  assumes "distinct ps" and "\<forall>p\<in>set ps. p < MAXPROC"
  shows "for_each (map P_next ps) (\<lambda>n s. do { it \<leftarrow> container_of_p_next n; upd_pcb it f s }) s =
    Some (s\<lparr>pcbTable := (\<lambda>i. if i \<in> set ps then f (pcbTable s i) else pcbTable s i)\<rparr>)"
  using assms by (induction ps arbitrary: s) (auto simp: upd_pcb_def deref_def fun_eq_iff intro!: store.equality)

definition older :: "pcb_t \<Rightarrow> pcb_t" where
  "older b = b\<lparr>priority := priority b + 1\<rparr>"

lemma aging_spec:
  assumes "queue_at (st k) ReadyQueue rq"
  shows "aging k = Some (k\<lparr>st := (st k)\<lparr>pcbTable :=
    (\<lambda>i. if i \<in> set rq then older (pcbTable (st k) i) else pcbTable (st k) i)\<rparr>\<rparr>)"
  using queue_atD(1,2) [OF assms]
  by (simp add: aging_def on_st_def list_for_each_is_list(1) [OF assms] for_each_upd older_def cong: if_cong)

lemma ready_empty: "store_rel s a L \<Longrightarrow> pcb_is_queue_empty ReadyQueue s = Some (a_ready a = [])"
  using list_empty_is_list [OF store_relD(2)] by (simp add: pcb_is_queue_empty_def)

section \<open>Dispatching\<close>

definition started :: "u32 \<Rightarrow> pcb_t \<Rightarrow> pcb_t" where
  "started t b = (if start_tm b = 0 then b\<lparr>start_tm := ucast t\<rparr> else b)"

lemma run_spec:
  assumes r: "store_rel (st k) a L" "areas_ok (st k)" and q: "a_ready a = p # rq"
  defines "n \<equiv> (if start_tm (pcbTable (st k) p) = 0 then Suc (reads k) else reads k)"
  shows "\<exists>s'. scheduler_run k = Some (p_s (pcbTable (st k) p), k\<lparr>st := s', current_proc := Ptr p,
      switch_tick := clock k n, timer := TIME_SLICE k, reads := Suc n\<rparr>) \<and>
    store_rel s' (a\<lparr>a_ready := rq\<rparr>) (insert p L) \<and> areas_ok s' \<and>
    pcbTable s' = (pcbTable (st k))(p := started (clock k (reads k)) (pcbTable (st k) p))"
proof -
  obtain s1 where s1: "pcb_remove_from_queue ReadyQueue (st k) = Some (Ptr p, s1)"
      "store_rel s1 (a\<lparr>a_ready := rq\<rparr>) (insert p L)" "pcbTable s1 = pcbTable (st k)"
    using store_rel_dequeue [OF r(1) q] by blast
  have p: "p < MAXPROC" using queue_atD(2) [OF store_relD(2) [OF r(1)]] q by simp
  let ?t = "(pcbTable (st k))(p := started (clock k (reads k)) (pcbTable (st k) p))"
  have "store_rel (s1\<lparr>pcbTable := ?t\<rparr>) (a\<lparr>a_ready := rq\<rparr>) (insert p L) \<and> areas_ok (s1\<lparr>pcbTable := ?t\<rparr>)"
    by (rule store_rel_upd [OF s1(2) areas_ok_same [OF r(2) s1(3)]])
      (auto simp: s1(3) started_def same_links_def)
  moreover have "scheduler_run k = Some (p_s (pcbTable (st k) p), k\<lparr>st := s1\<lparr>pcbTable := ?t\<rparr>,
      current_proc := Ptr p, switch_tick := clock k n, timer := TIME_SLICE k, reads := Suc n\<rparr>)"
    using s1(1,3) p
    by (auto simp: scheduler_run_def machine_defs get_pcb_def upd_pcb_def deref_def started_def n_def
        TIME_SLICE_def fun_upd_idem intro!: kst.equality store.equality)
  ultimately show ?thesis by auto
qed

lemma dispatch_spec:
  assumes r: "store_rel (st k) a L" "areas_ok (st k)"
  shows "a_ready a = [] \<Longrightarrow> scheduler_dispatch k = Some (idle_proc_state k, k)"
    "a_ready a \<noteq> [] \<Longrightarrow> scheduler_dispatch k = scheduler_run k"
  using ready_empty [OF r(1)] by (simp_all add: scheduler_dispatch_def)

text \<open>\<open>kernel_only k k'\<close>: nothing but the kernel's own variables and the timer has changed.\<close>

definition kernel_only :: "kst \<Rightarrow> kst \<Rightarrow> bool" where
  "kernel_only k k' \<longleftrightarrow> k' = k\<lparr>st := st k', current_proc := current_proc k',
     switch_tick := switch_tick k', timer := timer k', reads := reads k'\<rparr>"

lemma kernel_only_fields:
  assumes "kernel_only k k'"
  shows "target k' = target k" "linked k' = linked k" "idle_proc_state k' = idle_proc_state k"
    "old_state k' = old_state k" "areas k' = areas k" "mem k' = mem k" "bytes k' = bytes k"
    "devs k' = devs k" "clock k' = clock k" "cpu k' = cpu k"
proof -
  have k: "k' = k\<lparr>st := st k', current_proc := current_proc k', switch_tick := switch_tick k',
      timer := timer k', reads := reads k'\<rparr>"
    using assms by (simp add: kernel_only_def)
  show "target k' = target k" "linked k' = linked k" "idle_proc_state k' = idle_proc_state k"
    "old_state k' = old_state k" "areas k' = areas k" "mem k' = mem k" "bytes k' = bytes k"
    "devs k' = devs k" "clock k' = clock k" "cpu k' = cpu k"
    by (subst k, simp)+
qed

lemma kernel_onlyI: "k' = k\<lparr>st := s, current_proc := c\<rparr> \<Longrightarrow> kernel_only k k'"
  by (simp add: kernel_only_def)

lemma timed_kernel_only: "timed k k' \<Longrightarrow> kernel_only k k'"
  using timed_fields(3,10) [of k k'] by (simp add: timed_def kernel_only_def)

lemma kernel_only_trans: "kernel_only k k1 \<Longrightarrow> kernel_only k1 k2 \<Longrightarrow> kernel_only k k2"
  unfolding kernel_only_def
  by (erule ssubst [of k1 _ "\<lambda>x. k2 = x\<lparr>st := st k2, current_proc := current_proc k2, switch_tick := switch_tick k2,
      timer := timer k2, reads := reads k2\<rparr> \<longrightarrow> _", rule_format]) simp_all

lemma resume_idle: "current_proc k = Null \<Longrightarrow> scheduler_resume x old k = scheduler_dispatch k"
  by (simp add: scheduler_resume_def)

lemma resume_continue:
  assumes "current_proc k = Ptr p" and "p < MAXPROC" and "old \<noteq> 0"
  shows "\<exists>k'. scheduler_resume False old k = Some (areas k old, k') \<and> timed k k'"
proof -
  obtain k' where k': "scheduler_account_time True k = Some k'" "timed k k'"
    using account_time_spec [of k True] assms(1,2) by auto
  then show ?thesis using assms timed_fields(6) [OF k'(2)]
    by (simp add: scheduler_resume_def LDST_def load_area_def)
qed

text \<open>
  At the end of a time slice the processes that wait grow one step older, the one that ran goes back
  to its original priority, and the first of the resulting queue runs.
\<close>

definition aged_prio :: "store \<Rightarrow> nat list \<Rightarrow> nat \<Rightarrow> int" where
  "aged_prio s rq q = (if q \<in> set rq then sint (priority (pcbTable s q) + 1)
     else sint (original_priority (pcbTable s q)))"

definition next_queue :: "store \<Rightarrow> nat \<Rightarrow> nat list \<Rightarrow> nat list" where
  "next_queue s p rq = prio_insert (aged_prio s rq) p rq"

lemma prio_insert_cong:
  "(\<And>q. q \<in> insert p (set ps) \<Longrightarrow> f q = g q) \<Longrightarrow> prio_insert f p ps = prio_insert g p ps"
  unfolding prio_insert_def
  by (intro arg_cong2 [where f = append] arg_cong2 [where f = Cons] takeWhile_cong dropWhile_cong) auto

text \<open>The priority a process starts from does not change.\<close>

definition same_base :: "kst \<Rightarrow> kst \<Rightarrow> bool" where
  "same_base k k' \<longleftrightarrow> (\<forall>q. original_priority (pcbTable (st k') q) = original_priority (pcbTable (st k) q))"

lemma resume_requeue:
  assumes r: "kernel_rel k a" and c: "current_proc k = Ptr p" and old: "old \<noteq> 0"
  shows "\<exists>k1. scheduler_resume True old k = scheduler_dispatch k1 \<and> kernel_only k k1 \<and>
    timer k1 = timer k \<and> store_rel (st k1) (a\<lparr>a_ready := next_queue (st k) p (a_ready a)\<rparr>) {} \<and>
    areas_ok (st k1) \<and> p_s (pcbTable (st k1) p) = areas k old \<and>
    (\<forall>q. q \<noteq> p \<longrightarrow> pcbTable (st k1) q =
       (if q \<in> set (a_ready a) then older (pcbTable (st k) q) else pcbTable (st k) q)) \<and>
    (\<forall>q\<in>insert p (set (a_ready a)). prio (st k1) q = aged_prio (st k) (a_ready a) q) \<and>
    same_base k k1"
proof -
  let ?rq = "a_ready a" and ?b = "charge True (clock k (reads k) - switch_tick k) (pcbTable (st k) p)"
  have p: "p < MAXPROC" "p \<notin> set ?rq" using kernel_relD(3,4) [OF r c] by auto
  define t where "t = (\<lambda>q. if q \<in> set ?rq then older (pcbTable (st k) q) else pcbTable (st k) q)
    (p := ?b\<lparr>p_s := areas k old\<rparr>)"
  define k0 where "k0 = k\<lparr>st := (st k)\<lparr>pcbTable := t\<rparr>, switch_tick := clock k (Suc (reads k)),
    reads := Suc (Suc (reads k))\<rparr>"
  have st0: "st k0 = (st k)\<lparr>pcbTable := t\<rparr>" by (simp add: k0_def)
  have "store_rel (st k0) a {p} \<and> areas_ok (st k0)"
    unfolding st0 by (rule store_rel_upd)
      (use kernel_relD(1,2) [OF r] c in \<open>auto simp: t_def same_links_def older_def\<close>)
  then obtain s' where s': "scheduler_enqueue_process (Ptr p) k0 = Some (k0\<lparr>st := s'\<rparr>)"
      "store_rel s' (a\<lparr>a_ready := prio_insert (prio s') p ?rq\<rparr>) {}" "areas_ok s'"
      "pcbTable s' = t(p := (t p)\<lparr>priority := original_priority (t p)\<rparr>)"
    using enqueue_spec [of k0 a "{p}" p] by (auto simp: k0_def)
  have pr: "prio s' q = aged_prio (st k) ?rq q" if "q \<in> insert p (set ?rq)" for q
    using that p(2) s'(4) by (auto simp: prio_def aged_prio_def t_def older_def)
  then have "prio_insert (prio s') p ?rq = next_queue (st k) p ?rq"
    unfolding next_queue_def by (rule prio_insert_cong)
  moreover have "scheduler_resume True old k = scheduler_dispatch (k0\<lparr>st := s'\<rparr>)"
  proof -
    let ?k1 = "k\<lparr>st := (st k)\<lparr>pcbTable := (pcbTable (st k))(p := ?b)\<rparr>,
      switch_tick := clock k (Suc (reads k)), reads := Suc (Suc (reads k))\<rparr>"
    have q: "queue_at (st ?k1) ReadyQueue ?rq" using store_relD(2) [OF kernel_relD(1) [OF r]] by simp
    have "pcb_is_queue_empty ReadyQueue (st ?k1) = Some (?rq = [])"
      using list_empty_is_list [OF q] by (simp add: pcb_is_queue_empty_def)
    moreover have "\<exists>k2. (if ?rq \<noteq> [] then aging ?k1 else Some ?k1) = Some k2 \<and>
        upd_current (\<lambda>b. b\<lparr>p_s := areas k old\<rparr>) k2 = Some k0 \<and> areas k2 = areas k"
      using aging_spec [OF q] c p
      by (auto simp: upd_current_def on_st_def upd_pcb_def deref_def k0_def t_def fun_eq_iff
          intro!: kst.equality store.equality)
    ultimately show ?thesis
      using account_time_running [OF c p(1), of True] c old s'(1)
      by (auto simp: scheduler_resume_def load_area_def k0_def)
  qed
  moreover have "kernel_only k (k0\<lparr>st := s'\<rparr>)" by (simp add: kernel_only_def k0_def)
  ultimately show ?thesis using s'(2-4) pr
    by (intro exI [of _ "k0\<lparr>st := s'\<rparr>"]) (auto simp: k0_def t_def same_base_def older_def)
qed

lemma run_kernel_rel:
  assumes r: "store_rel (st k) a {}" "areas_ok (st k)" and q: "a_ready a = p # rq"
  shows "\<exists>k'. scheduler_run k = Some (p_s (pcbTable (st k) p), k') \<and> kernel_rel k' (a\<lparr>a_ready := rq\<rparr>) \<and>
    current_proc k' = Ptr p \<and> timer k' = TIME_SLICE k \<and> kernel_only k k' \<and>
    pcbTable (st k') = (pcbTable (st k))(p := started (clock k (reads k)) (pcbTable (st k) p))"
  using run_spec [OF r q] by (auto simp: kernel_rel_def kernel_only_def)

lemma started_simps [simp]:
  "p_s (started t b) = p_s b" "priority (started t b) = priority b"
  "original_priority (started t b) = original_priority b" "p_semkey (started t b) = p_semkey b"
  "exc_new_areas (started t b) = exc_new_areas b" "p_parent (started t b) = p_parent b"
  by (simp_all add: started_def)

lemma next_queue_Cons: "next_queue s p rq = hd (next_queue s p rq) # tl (next_queue s p rq)"
  by (simp add: next_queue_def prio_insert_def)

lemma hd_next_queue: "hd (next_queue s p rq) \<in> insert p (set rq)"
proof -
  have "hd (next_queue s p rq) \<in> set (next_queue s p rq)" by (subst (2) next_queue_Cons) simp
  then show ?thesis by (simp add: next_queue_def)
qed

lemma resume_preempt:
  assumes r: "kernel_rel k a" and c: "current_proc k = Ptr p" and old: "old \<noteq> 0"
  defines "nq \<equiv> next_queue (st k) p (a_ready a)"
  shows "\<exists>k'. scheduler_resume True old k =
      Some (if hd nq = p then areas k old else p_s (pcbTable (st k) (hd nq)), k') \<and>
    kernel_rel k' (a\<lparr>a_ready := tl nq\<rparr>) \<and> current_proc k' = Ptr (hd nq) \<and> timer k' = TIME_SLICE k \<and>
    kernel_only k k' \<and> p_s (pcbTable (st k') p) = areas k old \<and>
    (\<forall>q\<in>insert p (set (a_ready a)). prio (st k') q = aged_prio (st k) (a_ready a) q) \<and>
    same_base k k'"
proof -
  obtain k1 where k1: "scheduler_resume True old k = scheduler_dispatch k1" "kernel_only k k1"
      "store_rel (st k1) (a\<lparr>a_ready := nq\<rparr>) {}" "areas_ok (st k1)" "p_s (pcbTable (st k1) p) = areas k old"
      "\<forall>q. q \<noteq> p \<longrightarrow> pcbTable (st k1) q =
         (if q \<in> set (a_ready a) then older (pcbTable (st k) q) else pcbTable (st k) q)"
      "\<forall>q\<in>insert p (set (a_ready a)). prio (st k1) q = aged_prio (st k) (a_ready a) q"
      "same_base k k1"
    using resume_requeue [OF r c old] unfolding nq_def by blast
  have nq: "a_ready (a\<lparr>a_ready := nq\<rparr>) = hd nq # tl nq" unfolding nq_def using next_queue_Cons by simp
  obtain k' where k': "scheduler_run k1 = Some (p_s (pcbTable (st k1) (hd nq)), k')"
      "kernel_rel k' (a\<lparr>a_ready := tl nq\<rparr>)" "current_proc k' = Ptr (hd nq)" "timer k' = TIME_SLICE k1"
      "kernel_only k1 k'"
      "pcbTable (st k') = (pcbTable (st k1))(hd nq := started (clock k1 (reads k1)) (pcbTable (st k1) (hd nq)))"
    using run_kernel_rel [OF k1(3,4) nq] by auto
  have "p_s (pcbTable (st k1) (hd nq)) = (if hd nq = p then areas k old else p_s (pcbTable (st k) (hd nq)))"
    using k1(5,6) by (simp add: older_def)
  moreover have "TIME_SLICE k1 = TIME_SLICE k" using kernel_only_fields [OF k1(2)] by (simp add: TIME_SLICE_def)
  moreover have "p_s (pcbTable (st k') p) = areas k old" "prio (st k') = prio (st k1)"
    using k'(6) k1(5) by (auto simp: prio_def fun_eq_iff)
  moreover have "same_base k k'" using k1(8) k'(6) by (auto simp: same_base_def)
  ultimately show ?thesis
    using k1(1,7) k' dispatch_spec(2) [OF k1(3,4)] nq kernel_only_trans [OF k1(2) k'(5)] by auto
qed

lemma dispatch_kernel_rel:
  assumes r: "kernel_rel k a" and c: "current_proc k = Null"
  shows "\<exists>v k' a'. scheduler_dispatch k = Some (v, k') \<and> kernel_rel k' a' \<and> kernel_only k k' \<and>
    a' = a\<lparr>a_ready := tl (a_ready a)\<rparr> \<and>
    current_proc k' = (case a_ready a of [] \<Rightarrow> Null | p # _ \<Rightarrow> Ptr p) \<and>
    v = (case a_ready a of [] \<Rightarrow> idle_proc_state k | p # _ \<Rightarrow> p_s (pcbTable (st k) p)) \<and> moves k a k' a'"
proof (cases "a_ready a")
  case Nil
  have "a\<lparr>a_ready := []\<rparr> = a" using Nil by simp
  then have "kernel_rel k (a\<lparr>a_ready := []\<rparr>)" by (subst \<open>a\<lparr>a_ready := []\<rparr> = a\<close>) (rule r)
  moreover have "kernel_only k k" by (simp add: kernel_only_def)
  moreover have "moves k a k (a\<lparr>a_ready := []\<rparr>)" unfolding \<open>a\<lparr>a_ready := []\<rparr> = a\<close> by (rule moves_refl) simp
  ultimately show ?thesis using dispatch_spec(1) [OF kernel_relD(1,2) [OF r] Nil] r c Nil by simp
next
  case (Cons p rq)
  have r': "store_rel (st k) a {}" "areas_ok (st k)" using kernel_relD(1,2) [OF r] c by auto
  have "current_proc k' = Ptr p \<Longrightarrow> moves k a k' (a\<lparr>a_ready := rq\<rparr>)" for k'
    by (rule moves_step) (simp add: c astep.dispatch [OF Cons])
  then show ?thesis using run_kernel_rel [OF r' Cons] dispatch_spec(2) [OF r'] Cons by auto
qed

text \<open>The kernel always gives the processor away, to a process or to the idle state.\<close>

lemma resume_rel:
  assumes r: "kernel_rel k a" and old: "current_proc k \<noteq> Null \<Longrightarrow> old \<noteq> 0"
  shows "\<exists>v k' rq. scheduler_resume x old k = Some (v, k') \<and> kernel_rel k' (a\<lparr>a_ready := rq\<rparr>) \<and>
    kernel_only k k' \<and> moves k a k' (a\<lparr>a_ready := rq\<rparr>)"
proof (cases "current_proc k")
  case Null
  then show ?thesis using dispatch_kernel_rel [OF r Null] resume_idle [OF Null] by auto
next
  case (Ptr p)
  show ?thesis
  proof (cases x)
    case True
    have "old \<noteq> 0" using old Ptr by simp
    then obtain v k' where k': "scheduler_resume True old k = Some (v, k')"
        "kernel_rel k' (a\<lparr>a_ready := tl (next_queue (st k) p (a_ready a))\<rparr>)"
        "current_proc k' = Ptr (hd (next_queue (st k) p (a_ready a)))" "kernel_only k k'"
      using resume_preempt [OF r Ptr] by blast
    let ?nq = "next_queue (st k) p (a_ready a)"
    have "astep (Ptr p, a) (Null, a\<lparr>a_ready := ?nq\<rparr>)" by (rule astep.preempt) (simp add: next_queue_def)
    moreover have "astep (Null, a\<lparr>a_ready := ?nq\<rparr>) (Ptr (hd ?nq), a\<lparr>a_ready := ?nq, a_ready := tl ?nq\<rparr>)"
      using astep.dispatch [of "a\<lparr>a_ready := ?nq\<rparr>" "hd ?nq" "tl ?nq"] next_queue_Cons by simp
    ultimately have "moves k a k' (a\<lparr>a_ready := tl ?nq\<rparr>)"
      unfolding moves_def Ptr k'(3) by (simp add: rtranclp.rtrancl_into_rtrancl)
    then show ?thesis using k' True by auto
  next
    case False
    obtain k' where k': "scheduler_resume False old k = Some (areas k old, k')" "timed k k'"
      using resume_continue [OF Ptr kernel_relD(3) [OF r Ptr]] old Ptr by auto
    have "a\<lparr>a_ready := a_ready a\<rparr> = a" by simp
    then show ?thesis using k' False timed_kernel_rel [OF k'(2) r] timed_kernel_only [OF k'(2)]
        moves_refl [OF timed_fields(3) [OF k'(2)]] by metis
  qed
qed

text \<open>A process that was not running keeps its saved state, and continues in it when it is chosen.\<close>

lemma dispatch_saved:
  assumes r: "store_rel (st k) a {}" "areas_ok (st k)" and d: "scheduler_dispatch k = Some (v, k')"
  shows "p_s (pcbTable (st k') q) = p_s (pcbTable (st k) q)"
    "current_proc k = Null \<Longrightarrow> current_proc k' = Ptr q \<Longrightarrow> v = p_s (pcbTable (st k) q)"
proof -
  have "p_s (pcbTable (st k') q) = p_s (pcbTable (st k) q) \<and>
      (current_proc k = Null \<longrightarrow> current_proc k' = Ptr q \<longrightarrow> v = p_s (pcbTable (st k) q))"
  proof (cases "a_ready a")
    case Nil
    then show ?thesis using dispatch_spec(1) [OF r Nil] d by auto
  next
    case (Cons p rq)
    then show ?thesis using run_kernel_rel [OF r Cons] dispatch_spec(2) [OF r] d by auto
  qed
  then show "p_s (pcbTable (st k') q) = p_s (pcbTable (st k) q)"
    "current_proc k = Null \<Longrightarrow> current_proc k' = Ptr q \<Longrightarrow> v = p_s (pcbTable (st k) q)" by blast+
qed

lemma resume_saved:
  assumes r: "kernel_rel k a" and old: "current_proc k \<noteq> Null \<Longrightarrow> old \<noteq> 0"
    and d: "scheduler_resume x old k = Some (v, k')" and q: "current_proc k \<noteq> Ptr q"
  shows "p_s (pcbTable (st k') q) = p_s (pcbTable (st k) q)" "current_proc k' = Ptr q \<Longrightarrow> v = p_s (pcbTable (st k) q)"
proof -
  have "p_s (pcbTable (st k') q) = p_s (pcbTable (st k) q) \<and> (current_proc k' = Ptr q \<longrightarrow> v = p_s (pcbTable (st k) q))"
  proof (cases "current_proc k")
    case Null
    then show ?thesis using dispatch_saved [of k a v k' q] kernel_relD(1,2) [OF r] d resume_idle [OF Null] by auto
  next
    case (Ptr p)
    then have o: "old \<noteq> 0" and pq: "q \<noteq> p" using old q by auto
    show ?thesis
    proof (cases x)
      case True
      obtain k1 where k1: "scheduler_resume True old k = scheduler_dispatch k1"
          "store_rel (st k1) (a\<lparr>a_ready := next_queue (st k) p (a_ready a)\<rparr>) {}" "areas_ok (st k1)"
          "\<forall>q. q \<noteq> p \<longrightarrow> pcbTable (st k1) q = (if q \<in> set (a_ready a) then older (pcbTable (st k) q) else pcbTable (st k) q)"
        using resume_requeue [OF r Ptr o] by blast
      have d1: "scheduler_dispatch k1 = Some (v, k')" using d True k1(1) by simp
      have "a_ready (a\<lparr>a_ready := next_queue (st k) p (a_ready a)\<rparr>) =
          hd (next_queue (st k) p (a_ready a)) # tl (next_queue (st k) p (a_ready a))" using next_queue_Cons by simp
      from run_kernel_rel [OF k1(2,3) this] dispatch_spec(2) [OF k1(2,3)] this d1
      have "current_proc k' = Ptr q \<longrightarrow> v = p_s (pcbTable (st k1) q)" by auto
      then show ?thesis using dispatch_saved(1) [OF k1(2,3) d1, of q] k1(4) pq by (simp add: older_def)
    next
      case False
      obtain k1 where "scheduler_resume False old k = Some (areas k old, k1)" "timed k k1"
        using resume_continue [OF Ptr kernel_relD(3) [OF r Ptr] o] by blast
      then have "timed k k'" using d False by simp
      moreover from this obtain u w where "pcbTable (st k') q = (pcbTable (st k) q)\<lparr>user_tm := u, kernel_tm := w\<rparr>"
        unfolding timed_def by blast
      ultimately show ?thesis using timed_fields(3) q by auto
    qed
  qed
  then show "p_s (pcbTable (st k') q) = p_s (pcbTable (st k) q)" "current_proc k' = Ptr q \<Longrightarrow> v = p_s (pcbTable (st k) q)" by blast+
qed

section \<open>Blocking and killing\<close>

lemma block_spec:
  assumes r: "kernel_rel k a" and c: "current_proc k = Ptr p" and sp: "proc_state \<noteq> 0"
  shows "\<exists>k'. scheduler_block_current key proc_state k = Some k' \<and> current_proc k' = Null \<and>
    kernel_rel k' (a\<lparr>a_sem := (a_sem a)(key := prio_insert (prio (st k)) p (a_sem a key))\<rparr>) \<and>
    kernel_only k k' \<and> p_s (pcbTable (st k') p) = areas k proc_state \<and>
    (\<forall>q. q \<noteq> p \<longrightarrow> pcbTable (st k') q = pcbTable (st k) q)"
proof -
  have p: "p < MAXPROC" using kernel_relD(3) [OF r c] .
  define t where "t = (pcbTable (st k))(p := charge True (clock k (reads k) - switch_tick k)
    ((pcbTable (st k) p)\<lparr>p_s := areas k proc_state\<rparr>))"
  have "store_rel ((st k)\<lparr>pcbTable := t\<rparr>) a {p} \<and> areas_ok ((st k)\<lparr>pcbTable := t\<rparr>)"
    by (rule store_rel_upd) (use kernel_relD(1,2) [OF r] c in \<open>auto simp: t_def same_links_def\<close>)
  then have 1: "store_rel ((st k)\<lparr>pcbTable := t\<rparr>) a {p}" "areas_ok ((st k)\<lparr>pcbTable := t\<rparr>)" by auto
  obtain s' where s': "asl_insert_blocked key (Ptr p) ((st k)\<lparr>pcbTable := t\<rparr>) = Some (False, s')"
      "store_rel s' (a\<lparr>a_sem := (a_sem a)(key := prio_insert (prio ((st k)\<lparr>pcbTable := t\<rparr>)) p (a_sem a key))\<rparr>) {}"
      "pcbTable s' = t(p := (t p)\<lparr>p_semkey := key\<rparr>)"
    using store_rel_block [OF 1(1), of p key] by auto
  have "prio ((st k)\<lparr>pcbTable := t\<rparr>) = prio (st k)" by (simp add: prio_def t_def fun_eq_iff)
  moreover have "areas_ok s'" using 1(2) s'(3) by (simp add: areas_ok_def)
  moreover define k1 where "k1 = k\<lparr>st := (st k)\<lparr>pcbTable := (pcbTable (st k))(p := (pcbTable (st k) p)\<lparr>p_s := areas k proc_state\<rparr>)\<rparr>\<rparr>"
  have "scheduler_block_current key proc_state k = Some (k\<lparr>st := s', current_proc := Null,
      switch_tick := clock k (Suc (reads k)), reads := Suc (Suc (reads k))\<rparr>)"
    using s'(1) c p sp account_time_running [of k1 p True]
    by (simp add: scheduler_block_current_def machine_defs upd_pcb_def deref_def k1_def t_def)
  ultimately show ?thesis using s'(2,3) by (auto simp: kernel_rel_def kernel_only_def t_def)
qed

lemma block_moves:
  "current_proc k = Ptr p \<Longrightarrow> current_proc k' = Null \<Longrightarrow>
   moves k a k' (a\<lparr>a_sem := (a_sem a)(x := prio_insert f p (a_sem a x))\<rparr>)"
  by (rule moves_step) (simp add: astep.block)

lemma removed_areas_ok: "removed D s a L s' a' L' \<Longrightarrow> areas_ok s \<Longrightarrow> areas_ok s'"
proof -
  assume r: "removed D s a L s' a' L'" and s: "areas_ok s"
  have "\<exists>x. pcbTable s' q = (pcbTable s q)\<lparr>p_parent := x\<rparr>" for q using r by (simp add: removed_def)
  then show ?thesis using s unfolding areas_ok_def by (metis pcb_t.ext_inject pcb_t.surjective pcb_t.update_convs(1))
qed

lemma kill_process_spec:
  assumes r: "kernel_rel k a" and p: "p < MAXPROC" "p \<notin> set (a_free a)"
    and c: "current_proc k = Ptr p \<or> running (current_proc k) \<inter> subtree a p = {}"
  shows "\<exists>k' a'. scheduler_kill_process (Ptr p) k = Some k' \<and> kernel_rel k' a' \<and>
    removed (subtree a p) (st k) a (running (current_proc k)) (st k') a' (running (current_proc k')) \<and>
    current_proc k' = (if current_proc k = Ptr p then Null else current_proc k) \<and> moves k a k' a' \<and>
    k' = k\<lparr>st := st k', current_proc := current_proc k'\<rparr>"
proof -
  let ?L = "running (current_proc k)"
  obtain s' a' where s': "kill_tree TREE_FUEL (Ptr p) (st k) = Some s'"
      "removed (subtree a p) (st k) a ?L s' a' (?L - subtree a p)"
    using kill_tree_spec [OF kernel_relD(1) [OF r] p] by blast
  define k' where "k' = k\<lparr>st := s', current_proc := if current_proc k = Ptr p then Null else current_proc k\<rparr>"
  have L: "?L - subtree a p = running (current_proc k')"
    using c by (auto simp: k'_def)
  have "scheduler_kill_process (Ptr p) k = Some k'"
    using s'(1) by (auto simp: scheduler_kill_process_def on_st_def k'_def)
  moreover have "areas_ok s'" using removed_areas_ok [OF s'(2) kernel_relD(2) [OF r]] .
  moreover have "moves k a k' a'"
  proof (rule moves_step)
    have "current_proc k = Ptr p \<or> (\<forall>q. current_proc k = Ptr q \<longrightarrow> q \<notin> subtree a p)" using c by auto
    from astep.kill [OF this removed_killed [OF s'(2)]]
    show "astep (current_proc k, a) (current_proc k', a')" by (simp add: k'_def)
  qed
  ultimately show ?thesis using s'(2) L unfolding kernel_rel_def
    by (intro exI [of _ k'] exI [of _ a']) (auto simp: k'_def removed_def)
qed

section \<open>Passing an exception up\<close>

lemma handle_exception_pass:
  assumes r: "kernel_rel k a" and c: "current_proc k = Ptr p" and old: "old \<noteq> 0" and ty: "type < 3"
    and new: "exc_new_areas (pcbTable (st k) p) ! type \<noteq> 0"
    and oa: "exc_old_areas (pcbTable (st k) p) ! type \<noteq> 0"
  defines "ar \<equiv> (areas k)(exc_old_areas (pcbTable (st k) p) ! type := areas k old)"
  shows "\<exists>k'. scheduler_handle_exception type old k =
      Some (ar (exc_new_areas (pcbTable (st k) p) ! type), k') \<and>
    kernel_rel k' a \<and> timed (k\<lparr>areas := ar\<rparr>) k'"
proof -
  have p: "p < MAXPROC" using kernel_relD(3) [OF r c] .
  have len: "type < length (exc_new_areas (pcbTable (st k) p))" "type < length (exc_old_areas (pcbTable (st k) p))"
    using kernel_relD(2) [OF r] ty by (simp_all add: areas_ok_def)
  obtain k1 where k1: "scheduler_account_time False k = Some k1" "timed k k1"
    using account_time_spec [of k False] c p by auto
  note f = timed_fields [OF k1(2)] and g = timed_pcb [OF k1(2)]
  obtain k2 where k2: "scheduler_account_time True (k1\<lparr>areas := ar\<rparr>) = Some k2" "timed (k1\<lparr>areas := ar\<rparr>) k2"
    using account_time_spec [of "k1\<lparr>areas := ar\<rparr>" True] c p f(3) by auto
  note f2 = timed_fields [OF k2(2)] and g2 = timed_pcb [OF k2(2)]
  have "scheduler_handle_exception type old k = Some (ar (exc_new_areas (pcbTable (st k) p) ! type), k2)"
    using k1(1) k2(1) f f2 g g2 c p len new oa old
    by (simp add: scheduler_handle_exception_def get_current_def get_pcb_def deref_def load_area_def
        store_area_def LDST_def ar_def)
  moreover have "kernel_rel (k1\<lparr>areas := ar\<rparr>) a"
    using kernel_rel_cong [OF timed_kernel_rel [OF k1(2) r]] by simp
  then have "kernel_rel k2 a" by (rule timed_kernel_rel [OF k2(2)])
  moreover have "timed (k\<lparr>areas := ar\<rparr>) k2" by (rule timed_trans_areas [OF k1(2) k2(2)])
  ultimately show ?thesis by blast
qed

lemma handle_exception_kill:
  assumes r: "kernel_rel k a" and c: "current_proc k = Ptr p" and ty: "type < 3"
    and new: "exc_new_areas (pcbTable (st k) p) ! type = 0"
  shows "\<exists>k1 k2 a'. scheduler_handle_exception type old k = scheduler_dispatch k2 \<and> timed k k1 \<and>
    kernel_rel k2 a' \<and> current_proc k2 = Null \<and> kernel_only k k2 \<and>
    removed (subtree a p) (st k1) a {p} (st k2) a' {} \<and> moves k a k2 a'"
proof -
  have p: "p < MAXPROC" "p \<notin> set (a_free a)" using kernel_relD(3,4) [OF r c] by auto
  have len: "type < length (exc_new_areas (pcbTable (st k) p))" "type < length (exc_old_areas (pcbTable (st k) p))"
    using kernel_relD(2) [OF r] ty by (simp_all add: areas_ok_def)
  obtain k1 where k1: "scheduler_account_time False k = Some k1" "timed k k1"
    using account_time_spec [of k False] c p by auto
  note f = timed_fields [OF k1(2)] and g = timed_pcb [OF k1(2)]
  obtain k2 a' where k2: "scheduler_kill_process (Ptr p) k1 = Some k2" "kernel_rel k2 a'"
      "removed (subtree a p) (st k1) a (running (current_proc k1)) (st k2) a' (running (current_proc k2))"
      "current_proc k2 = Null" "k2 = k1\<lparr>st := st k2, current_proc := current_proc k2\<rparr>"
      "moves k1 a k2 a'"
    using kill_process_spec [OF timed_kernel_rel [OF k1(2) r] p] f(3) c by auto
  have "scheduler_handle_exception type old k = scheduler_dispatch k2"
    using k1(1) k2(1,4) f g c p len new
    by (simp add: scheduler_handle_exception_def get_current_def get_pcb_def deref_def resume_idle)
  moreover have "kernel_only k1 k2" using k2(5) by (rule kernel_onlyI)
  then have "kernel_only k k2" by (rule kernel_only_trans [OF timed_kernel_only [OF k1(2)]])
  ultimately show ?thesis using k1(2) k2(2-4,6) f(3) c by (auto simp: moves_from [OF f(3)])
qed

end
