(* ===== verification/Interrupts.thy ===== *)
theory Interrupts
  imports Scheduler
begin

text \<open>
  \<open>src/interrupts.c\<close>: the semaphore of each device, the waking of the process that waits for it and
  the interrupt handler.

  The lemmas show that the index arithmetic of \<open>interrupts_get_dev_key\<close> gives every device register
  its own entry of \<open>devices_semkeys\<close>, inside the array, and that handling an interrupt line wakes
  exactly the first process on the semaphore of each device whose bit is set, acknowledges those
  devices and keeps the kernel's invariant.
\<close>

section \<open>The code\<close>

text \<open>\<open>&devices_semkeys[row][col]\<close>; outside the array there is no such element.\<close>

definition devices_semkeys :: "u32 \<Rightarrow> u32 \<Rightarrow> kst \<Rightarrow> u32 option" where
  "devices_semkeys row col k =
     (if row < N_EXT_IL + 1 \<and> col < N_DEV_PER_IL
      then Some (devices_semkeys_addr (linked k) + WORD_SIZE * (row * N_DEV_PER_IL + col)) else None)"

definition interrupts_get_dev_key :: "u32 \<Rightarrow> u8 \<Rightarrow> kst \<Rightarrow> u32 option" where
  "interrupts_get_dev_key reg term_rcpt k =
     (let dev_abs_index = (reg - DEV_REG_START (target k)) div DEV_REG_SIZE;
          dev_rel_index = dev_abs_index mod N_DEV_PER_IL;
          dev_line = dev_abs_index div N_DEV_PER_IL
      in if DEV_IL_START + dev_line < IL_TERMINAL then devices_semkeys dev_line dev_rel_index k
         else devices_semkeys (dev_line + ucast term_rcpt) dev_rel_index k)"

definition unblock_process :: "u32 \<Rightarrow> u32 \<Rightarrow> kst \<Rightarrow> kst option" where
  "unblock_process semkey status k = do {
     (unblocked, k) \<leftarrow> on_st_ret (asl_remove_blocked semkey) k;
     k \<leftarrow> scheduler_enqueue_process unblocked k;
     on_st (upd_pcb unblocked (\<lambda>b. b\<lparr>p_s := set_SYSRETURN status (p_s b)\<rparr>)) k }"

definition upd_dev :: "u32 \<Rightarrow> (devreg_t \<Rightarrow> devreg_t) \<Rightarrow> kst \<Rightarrow> kst" where
  "upd_dev device f k = k\<lparr>devs := (devs k)(device := f (devs k device))\<rparr>"

definition handle_dtp :: "u32 \<Rightarrow> kst \<Rightarrow> kst option" where
  "handle_dtp device k = do {
     dev_sem_key \<leftarrow> interrupts_get_dev_key device 0 k;
     k \<leftarrow> unblock_process dev_sem_key (dtp_status (devs k device)) k;
     Some (upd_dev device (\<lambda>d. d\<lparr>dtp_command := CMD_ACK\<rparr>) k) }"

definition handle_term :: "u32 \<Rightarrow> kst \<Rightarrow> kst option" where
  "handle_term device k = do {
     k \<leftarrow> (if TX_STATUS (devs k device) = ST_TRANSMITTED then do {
              dev_sem_key \<leftarrow> interrupts_get_dev_key device 0 k;
              k \<leftarrow> unblock_process dev_sem_key (transm_status (devs k device)) k;
              Some (upd_dev device (\<lambda>d. d\<lparr>dtp_data1 := CMD_ACK\<rparr>) k) }
            else Some k);
     (if RX_STATUS (devs k device) = ST_RECEIVED then do {
        dev_sem_key \<leftarrow> interrupts_get_dev_key device 1 k;
        k \<leftarrow> unblock_process dev_sem_key (recv_status (devs k device)) k;
        Some (upd_dev device (\<lambda>d. d\<lparr>dtp_command := CMD_ACK\<rparr>) k) }
      else Some k) }"

definition handle_device :: "u32 \<Rightarrow> kst \<Rightarrow> kst option" where
  "handle_device device k =
     (if IS_TERMINAL (target k) device then handle_term device k else handle_dtp device k)"

definition handle_interrupt :: "u32 \<Rightarrow> kst \<Rightarrow> kst option" where
  "handle_interrupt line k = do {
     (_, k) \<leftarrow> for_each [0..<8] (\<lambda>i (bitmap, k). do {
         k \<leftarrow> (if bitmap mod 2 \<noteq> 0 then handle_device (DEV_REG_ADDR (target k) line (of_nat i)) k
                else Some k);
         Some (drop_bit 1 bitmap, k) })
       (bytes k (CDEV_BITMAP_ADDR (target k) line), k);
     Some k }"

definition handle_if_pending :: "arch \<Rightarrow> u32 \<Rightarrow> u32 \<Rightarrow> u32 \<Rightarrow> kst \<Rightarrow> kst option" where
  "handle_if_pending ar cause pending line k =
     (if INT_IS_PENDING ar cause pending then handle_interrupt line k else Some k)"

definition interrupts_handler :: "kst \<Rightarrow> outcome" where
  "interrupts_handler k = do {
     let ar = target k;
     k \<leftarrow> scheduler_account_time False k;
     let old = INT_OLDAREA ar;
     v \<leftarrow> load_area old k;
     let cause = CAUSE v;
     k \<leftarrow> (if ar = UARM then store_area old (set_PC (PC v - WORD_SIZE) v) k else Some k);
     let time_slice_ended = INT_IS_PENDING ar cause IL_TIMER;
     let k = (if time_slice_ended then setTIMER TIMER_ACK k else k);
     k \<leftarrow> handle_if_pending ar cause IL_DISK IL_DISK k;
     k \<leftarrow> handle_if_pending ar cause IL_TAPE IL_TAPE k;
     k \<leftarrow> handle_if_pending ar cause IL_ETHERNET IL_ETHERNET k;
     k \<leftarrow> handle_if_pending ar cause IL_PRINTER IL_ETHERNET k;
     k \<leftarrow> handle_if_pending ar cause IL_TERMINAL IL_TERMINAL k;
     scheduler_resume time_slice_ended old k }"

section \<open>Device semaphores\<close>

text \<open>The entry of \<open>devices_semkeys\<close> meant for a device: a row per line, and one more for reception.\<close>

definition dev_row :: "u32 \<Rightarrow> bool \<Rightarrow> u32" where
  "dev_row line rcpt = (line - DEV_IL_START) + (if rcpt \<and> line = IL_TERMINAL then 1 else 0)"

definition dev_key :: "kst \<Rightarrow> u32 \<Rightarrow> u32 \<Rightarrow> bool \<Rightarrow> u32" where
  "dev_key k line i rcpt =
     devices_semkeys_addr (linked k) + WORD_SIZE * (dev_row line rcpt * N_DEV_PER_IL + i)"

definition dev_lines :: "u32 list" where "dev_lines = [3, 4, 5, 6, 7]"
definition dev_nums :: "u32 list" where "dev_nums = [0, 1, 2, 3, 4, 5, 6, 7]"

lemma dev_offset: "DEV_REG_ADDR a line i - DEV_REG_START a = ((line - DEV_IL_START) * 8 + i) * 16"
  by (simp add: DEV_REG_ADDR_def il_defs algebra_simps)

lemma dev_index_arith:
  assumes "line \<in> set dev_lines" and "i \<in> set dev_nums"
  shows "((line - DEV_IL_START) * 8 + i) * 16 div 16 = (line - DEV_IL_START) * 8 + i"
    "((line - DEV_IL_START) * 8 + i) div 8 = line - DEV_IL_START"
    "((line - DEV_IL_START) * 8 + i) mod 8 = i"
  using assms unfolding dev_lines_def dev_nums_def list.set insert_iff empty_iff
  by (elim disjE; simp add: il_defs)+

lemma dev_row_arith:
  assumes "line \<in> set dev_lines"
  shows "DEV_IL_START + (line - DEV_IL_START) < IL_TERMINAL \<longleftrightarrow> line \<noteq> IL_TERMINAL"
    "line - DEV_IL_START < N_EXT_IL + 1" "IL_TERMINAL - DEV_IL_START + 1 < N_EXT_IL + 1"
  using assms unfolding dev_lines_def list.set insert_iff empty_iff
  by (elim disjE; simp add: il_defs)+

lemma dev_num_bound: "i \<in> set dev_nums \<Longrightarrow> i < N_DEV_PER_IL"
  unfolding dev_nums_def list.set insert_iff empty_iff by (elim disjE; simp add: il_defs)

lemma get_dev_key_row:
  assumes l: "line \<in> set dev_lines" and i: "i \<in> set dev_nums"
  shows "interrupts_get_dev_key (DEV_REG_ADDR (target k) line i) r k =
      (if line \<noteq> IL_TERMINAL then devices_semkeys (line - DEV_IL_START) i k
       else devices_semkeys (line - DEV_IL_START + ucast r) i k)"
proof -
  have n: "DEV_REG_SIZE = 16" "N_DEV_PER_IL = 8" by (simp_all add: il_defs)
  note a = dev_index_arith [OF l i] and b = dev_row_arith [OF l]
  show ?thesis unfolding interrupts_get_dev_key_def dev_offset n Let_def a b(1) by (rule refl)
qed

lemma get_dev_key_at:
  assumes l: "line \<in> set dev_lines" and i: "i \<in> set dev_nums"
  shows "interrupts_get_dev_key (DEV_REG_ADDR (target k) line i) (if rcpt then 1 else 0) k =
    Some (dev_key k line i rcpt)"
proof -
  note key = get_dev_key_row [OF l i] and b = dev_row_arith [OF l] and c = dev_num_bound [OF i]
  show ?thesis
  proof (cases "line = IL_TERMINAL")
    case True
    then show ?thesis using b(2,3) c unfolding key
      by (cases rcpt) (simp_all add: devices_semkeys_def dev_key_def dev_row_def)
  next
    case False
    have "devices_semkeys (line - DEV_IL_START) i k = Some (dev_key k line i rcpt)"
      using False by (simp only: devices_semkeys_def b(2) c dev_key_def dev_row_def simp_thms if_True if_False add_0_right)
    then show ?thesis using False unfolding key by (simp only: simp_thms if_True)
  qed
qed

lemma is_terminal_iff:
  assumes "line \<in> set dev_lines" and "i \<in> set dev_nums"
  shows "IS_TERMINAL a (DEV_REG_ADDR a line i) \<longleftrightarrow> line = IL_TERMINAL"
proof -
  have "(0x10000250 :: u32) \<le> 0x10000050 + ((line - 3) * 128 + i * 16) \<longleftrightarrow> line = 7"
    "(0x00000240 :: u32) \<le> 0x00000040 + ((line - 3) * 128 + i * 16) \<longleftrightarrow> line = 7"
    using assms unfolding dev_lines_def dev_nums_def list.set insert_iff empty_iff
    by (elim disjE; simp)+
  then show ?thesis
    by (cases a) (simp_all add: IS_TERMINAL_def DEV_REG_ADDR_def il_defs algebra_simps)
qed

lemma dev_key_arith:
  assumes "row \<in> {0, 1, 2, 3, 4, 5 :: u32}" and "i \<in> set dev_nums"
  shows "4 * (row * 8 + i) div 32 = row" "(4 * (row * 8 + i) div 4) mod 8 = i"
  using assms unfolding dev_nums_def list.set insert_iff empty_iff
  by (elim disjE; simp)+

lemma dev_row_range: "line \<in> set dev_lines \<Longrightarrow> dev_row line rcpt \<in> {0, 1, 2, 3, 4, 5}"
  unfolding dev_lines_def list.set insert_iff empty_iff by (elim disjE; simp add: dev_row_def il_defs)

lemma dev_row_inj:
  assumes "line \<in> set dev_lines" "line' \<in> set dev_lines" "dev_row line r = dev_row line' r'"
  shows "line = line' \<and> (line = IL_TERMINAL \<longrightarrow> r = r')"
  using assms unfolding dev_lines_def list.set insert_iff empty_iff
  by (elim disjE; simp add: dev_row_def il_defs split: if_splits)

lemma dev_key_inj:
  assumes "line \<in> set dev_lines" "line' \<in> set dev_lines" "i \<in> set dev_nums" "j \<in> set dev_nums"
    and "dev_key k line i r = dev_key k line' j r'"
  shows "line = line' \<and> i = j \<and> (line = IL_TERMINAL \<longrightarrow> r = r')"
proof -
  have e: "4 * (dev_row line r * 8 + i) = 4 * (dev_row line' r' * 8 + j)"
    using assms(5) by (simp add: dev_key_def il_defs)
  have "dev_row line r = dev_row line' r'"
    using dev_key_arith(1) [OF dev_row_range [OF assms(1)] assms(3), of r]
      dev_key_arith(1) [OF dev_row_range [OF assms(2)] assms(4), of r'] unfolding e by (rule box_equals [OF refl])
  moreover have "i = j"
    using dev_key_arith(2) [OF dev_row_range [OF assms(1)] assms(3), of r]
      dev_key_arith(2) [OF dev_row_range [OF assms(2)] assms(4), of r'] unfolding e by (rule box_equals [OF refl])
  ultimately show ?thesis using dev_row_inj [OF assms(1,2)] by blast
qed

lemma dev_addr_inj2:
  assumes "line \<in> set dev_lines" "line' \<in> set dev_lines" "i \<in> set dev_nums" "j \<in> set dev_nums"
    and "DEV_REG_ADDR a line i = DEV_REG_ADDR a line' j"
  shows "line = line' \<and> i = j"
proof -
  let ?m = "\<lambda>l i. (l - DEV_IL_START) * 8 + i"
  have "?m line i * 16 = ?m line' j * 16" using dev_offset assms(5) by metis
  then have "?m line i = ?m line' j" using dev_index_arith(1) assms(1-4) by metis
  then have "line - DEV_IL_START = line' - DEV_IL_START" "i = j" using dev_index_arith(2,3) assms(1-4) by metis+
  then show ?thesis by simp
qed

lemma of_nat_dev_num: "i < 8 \<Longrightarrow> of_nat i \<in> set dev_nums"
proof -
  assume "i < 8"
  then have "i \<in> set [0..<8]" by simp
  then show ?thesis by (simp add: upt_rec dev_nums_def) fastforce
qed

section \<open>Waking a process\<close>

lemma unblock_spec:
  assumes r: "kernel_rel k a" and q: "a_sem a key = p # ps"
  defines "b \<equiv> pcbTable (st k) p"
  shows "\<exists>s'. unblock_process key status k = Some (k\<lparr>st := s'\<rparr>) \<and>
    kernel_rel (k\<lparr>st := s'\<rparr>) (a\<lparr>a_sem := (a_sem a)(key := ps), a_ready := prio_insert (prio s') p (a_ready a)\<rparr>) \<and>
    pcbTable s' = (pcbTable (st k))(p := b\<lparr>p_semkey := 0, priority := original_priority b,
      p_s := set_SYSRETURN status (p_s b)\<rparr>)"
proof -
  let ?L = "running (current_proc k)"
  note d = kernel_relD(1,2) [OF r]
  have p: "p \<in> blocked (a_sem a)" "p < MAXPROC" using asl_relD [OF store_relD(3) [OF d(1)], of p key] q by auto
  have pL: "p \<notin> ?L" using store_relD(5) [OF d(1)] p(1) by (auto simp: places_def)
  obtain s1 where s1: "asl_remove_blocked key (st k) = Some (Ptr p, s1)"
      "store_rel s1 (a\<lparr>a_sem := (a_sem a)(key := ps)\<rparr>) (insert p ?L)"
      "pcbTable s1 = (pcbTable (st k))(p := b\<lparr>p_semkey := 0\<rparr>)"
    using store_rel_unblock [OF d(1) q] unfolding b_def by blast
  have a1: "areas_ok s1" using d(2) s1(3) by (simp add: areas_ok_def b_def)
  let ?a1 = "a\<lparr>a_sem := (a_sem a)(key := ps)\<rparr>"
  obtain s2 where s2: "scheduler_enqueue_process (Ptr p) (k\<lparr>st := s1\<rparr>) = Some (k\<lparr>st := s2\<rparr>)"
      "store_rel s2 (?a1\<lparr>a_ready := prio_insert (prio s2) p (a_ready a)\<rparr>) ?L" "areas_ok s2"
      "pcbTable s2 = (pcbTable (st k))(p := b\<lparr>p_semkey := 0, priority := original_priority b\<rparr>)"
    using enqueue_spec [of "k\<lparr>st := s1\<rparr>" ?a1 "insert p ?L" p] s1 a1 pL by auto
  define t where "t = (pcbTable (st k))(p := b\<lparr>p_semkey := 0, priority := original_priority b,
      p_s := set_SYSRETURN status (p_s b)\<rparr>)"
  have "store_rel (s2\<lparr>pcbTable := t\<rparr>) (?a1\<lparr>a_ready := prio_insert (prio s2) p (a_ready a)\<rparr>) ?L \<and>
      areas_ok (s2\<lparr>pcbTable := t\<rparr>)"
    by (rule store_rel_upd [OF s2(2,3)]) (simp add: s2(4) t_def same_links_def)
  moreover have "prio (s2\<lparr>pcbTable := t\<rparr>) = prio s2" by (simp add: prio_def t_def s2(4) fun_eq_iff)
  moreover have "unblock_process key status k = Some (k\<lparr>st := s2\<lparr>pcbTable := t\<rparr>\<rparr>)"
    using s1(1) s2(1,4) p(2)
    by (simp add: unblock_process_def on_st_ret_def on_st_def upd_pcb_def deref_def t_def)
  ultimately show ?thesis
    by (intro exI [of _ "s2\<lparr>pcbTable := t\<rparr>"]) (simp add: kernel_rel_def t_def)
qed

text \<open>With no process on the semaphore the code follows a \<open>NULL\<close> pointer.\<close>

lemma unblock_nobody:
  assumes "kernel_rel k a" and "a_sem a key = []"
  shows "unblock_process key status k = None"
  using asl_remove_blocked_none [OF store_relD(3) [OF kernel_relD(1) [OF assms(1)]] assms(2)]
  by (simp add: unblock_process_def on_st_ret_def scheduler_enqueue_process_def on_st_def upd_pcb_def deref_def)

section \<open>Handling a line\<close>

text \<open>
  The status and the command word of one side of a device: of a terminal, the receiver or the transmitter.
\<close>

definition dev_status :: "u32 \<Rightarrow> bool \<Rightarrow> devreg_t \<Rightarrow> u32" where
  "dev_status line rcpt d = (if line = IL_TERMINAL \<and> \<not> rcpt then transm_status d else dtp_status d)"

definition dev_command :: "u32 \<Rightarrow> bool \<Rightarrow> devreg_t \<Rightarrow> u32" where
  "dev_command line rcpt d = (if line = IL_TERMINAL \<and> \<not> rcpt then transm_command d else dtp_command d)"

definition ack :: "u32 \<Rightarrow> bool \<Rightarrow> devreg_t \<Rightarrow> devreg_t" where
  "ack line rcpt d = (if line = IL_TERMINAL \<and> \<not> rcpt then d\<lparr>dtp_data1 := CMD_ACK\<rparr> else d\<lparr>dtp_command := CMD_ACK\<rparr>)"

lemmas side_defs = dev_status_def dev_command_def ack_def

text \<open>
  \<open>served keys k a k'\<close>: the first process of each of the semaphores \<open>keys\<close>, on which some process waited, has
  the status of the device as the result of its call and the device is acknowledged; no other device
  command and no other saved state has changed, and no device status.
\<close>

definition served :: "u32 list \<Rightarrow> kst \<Rightarrow> proc_abs \<Rightarrow> kst \<Rightarrow> bool" where
  "served keys k a k' \<longleftrightarrow> kernel_rel k a \<and> (\<forall>x\<in>set keys. a_sem a x \<noteq> []) \<and>
     (\<forall>d. dtp_status (devs k' d) = dtp_status (devs k d) \<and> transm_status (devs k' d) = transm_status (devs k d)) \<and>
     (\<forall>q. (\<forall>x\<in>set keys. q \<noteq> hd (a_sem a x)) \<longrightarrow> p_s (pcbTable (st k') q) = p_s (pcbTable (st k) q)) \<and>
     (\<forall>line\<in>set dev_lines. \<forall>i\<in>set dev_nums. \<forall>r. let x = dev_key k line i r; d = DEV_REG_ADDR (target k) line i in
        dev_command line r (devs k' d) = (if x \<in> set keys then CMD_ACK else dev_command line r (devs k d)) \<and>
        (x \<in> set keys \<longrightarrow> p_s (pcbTable (st k') (hd (a_sem a x))) =
           set_SYSRETURN (dev_status line r (devs k d)) (p_s (pcbTable (st k) (hd (a_sem a x))))))"

lemma servedD:
  assumes "served keys k a k'"
  shows "kernel_rel k a" "x \<in> set keys \<Longrightarrow> a_sem a x \<noteq> []"
    "dtp_status (devs k' d) = dtp_status (devs k d)" "transm_status (devs k' d) = transm_status (devs k d)"
    "(\<And>x. x \<in> set keys \<Longrightarrow> q \<noteq> hd (a_sem a x)) \<Longrightarrow> p_s (pcbTable (st k') q) = p_s (pcbTable (st k) q)"
    "line \<in> set dev_lines \<Longrightarrow> i \<in> set dev_nums \<Longrightarrow> dev_command line r (devs k' (DEV_REG_ADDR (target k) line i)) =
       (if dev_key k line i r \<in> set keys then CMD_ACK else dev_command line r (devs k (DEV_REG_ADDR (target k) line i)))"
    "line \<in> set dev_lines \<Longrightarrow> i \<in> set dev_nums \<Longrightarrow> dev_key k line i r \<in> set keys \<Longrightarrow>
       p_s (pcbTable (st k') (hd (a_sem a (dev_key k line i r)))) =
       set_SYSRETURN (dev_status line r (devs k (DEV_REG_ADDR (target k) line i)))
         (p_s (pcbTable (st k) (hd (a_sem a (dev_key k line i r)))))"
  using assms unfolding served_def Let_def by blast+

lemma served_none: "kernel_rel k a \<Longrightarrow> served [] k a k"
  by (simp add: served_def)

lemma heads_apart:
  assumes "kernel_rel k a" and "a_sem a x \<noteq> []" "a_sem a y \<noteq> []" "x \<noteq> y"
  shows "hd (a_sem a x) \<noteq> hd (a_sem a y)"
  using asl_relD(2) [OF store_relD(3) [OF kernel_relD(1) [OF assms(1)]]] assms(2-4) hd_in_set by metis

lemma served_trans:
  assumes 1: "served ks k a k1" and 2: "served ls k1 a1 k2" and d: "set ks \<inter> set ls = {}"
    and same: "target k1 = target k" "linked k1 = linked k" and sem: "\<forall>x\<in>set ls. a_sem a1 x = a_sem a x"
  shows "served (ks @ ls) k a k2"
proof -
  note u = servedD [OF 1] and v = servedD [OF 2]
  have ne: "a_sem a x \<noteq> []" if "x \<in> set (ks @ ls)" for x using that u(2) v(2) sem by fastforce
  have key: "dev_key k1 line i r = dev_key k line i r" for line i r using same by (simp add: dev_key_def)
  have stat: "dev_status line r (devs k1 x) = dev_status line r (devs k x)" for line r x
    by (simp add: dev_status_def u(3,4))
  have ap: "hd (a_sem a x) \<noteq> hd (a_sem a y)" if "x \<in> set ks" "y \<in> set ls" for x y
    by (rule heads_apart [OF u(1)]) (use ne that d in auto)
  have "p_s (pcbTable (st k2) q) = p_s (pcbTable (st k) q)" if "\<forall>x\<in>set (ks @ ls). q \<noteq> hd (a_sem a x)" for q
    using u(5) [of q] v(5) [of q] that sem by auto
  moreover have "p_s (pcbTable (st k2) (hd (a_sem a x))) = set_SYSRETURN (dev_status line r (devs k (DEV_REG_ADDR (target k) line i)))
      (p_s (pcbTable (st k) (hd (a_sem a x))))"
    if l: "line \<in> set dev_lines" "i \<in> set dev_nums" and x: "x = dev_key k line i r" "x \<in> set (ks @ ls)" for line i r x
  proof (cases "x \<in> set ks")
    case True
    then have "p_s (pcbTable (st k2) (hd (a_sem a x))) = p_s (pcbTable (st k1) (hd (a_sem a x)))"
      using ap sem by (intro v(5)) auto
    then show ?thesis using u(7) [OF l, of r] True x(1) by simp
  next
    case False
    then have x': "x \<in> set ls" using x(2) by simp
    have "p_s (pcbTable (st k1) (hd (a_sem a x))) = p_s (pcbTable (st k) (hd (a_sem a x)))"
      using ap [OF _ x'] by (intro u(5)) metis
    then show ?thesis using v(7) [OF l, of r] x' sem x(1) by (simp add: key same(1) stat)
  qed
  moreover have "dev_command line r (devs k2 (DEV_REG_ADDR (target k) line i)) = (if dev_key k line i r \<in> set (ks @ ls) then CMD_ACK
      else dev_command line r (devs k (DEV_REG_ADDR (target k) line i)))" if "line \<in> set dev_lines" "i \<in> set dev_nums" for line i r
    using u(6) [OF that, of r] v(6) [OF that, of r] by (simp add: key same(1))
  ultimately show ?thesis using u(1,3,4) v(3,4) ne unfolding served_def Let_def by simp
qed

text \<open>
  \<open>woke keys ds k a k' a'\<close>: from \<open>k\<close> to \<open>k'\<close> the first process of each of the semaphores \<open>keys\<close>
  has moved to the ready queue with the priority it started from (\<open>rebased\<close>), which is still ordered if it was, and only the registers of the
  devices \<open>ds\<close> may have been written.
\<close>

definition ready_sorted :: "kst \<Rightarrow> proc_abs \<Rightarrow> bool" where
  "ready_sorted k a \<longleftrightarrow> sorted_wrt (\<lambda>p q. prio (st k) q \<le> prio (st k) p) (a_ready a)"

definition devices_only :: "kst \<Rightarrow> kst \<Rightarrow> bool" where
  "devices_only k k' \<longleftrightarrow> target k' = target k \<and> linked k' = linked k \<and>
     current_proc k' = current_proc k \<and> switch_tick k' = switch_tick k \<and>
     idle_proc_state k' = idle_proc_state k \<and> old_state k' = old_state k \<and> areas k' = areas k \<and>
     mem k' = mem k \<and> bytes k' = bytes k \<and> timer k' = timer k \<and> clock k' = clock k \<and>
     cpu k' = cpu k \<and> reads k' = reads k"

definition rebased :: "u32 list \<Rightarrow> kst \<Rightarrow> proc_abs \<Rightarrow> kst \<Rightarrow> bool" where
  "rebased keys k a k' \<longleftrightarrow> same_base k k' \<and> (\<forall>q. priority (pcbTable (st k') q) =
     (if \<exists>x\<in>set keys. q = hd (a_sem a x) then original_priority (pcbTable (st k) q) else priority (pcbTable (st k) q)))"

definition woke :: "u32 list \<Rightarrow> u32 set \<Rightarrow> kst \<Rightarrow> proc_abs \<Rightarrow> kst \<Rightarrow> proc_abs \<Rightarrow> bool" where
  "woke keys ds k a k' a' \<longleftrightarrow> kernel_rel k' a' \<and> a_free a' = a_free a \<and> a_kids a' = a_kids a \<and>
     (\<forall>x. a_sem a' x = (if x \<in> set keys then tl (a_sem a x) else a_sem a x)) \<and>
     mset (a_ready a') = mset (a_ready a) + mset (map (\<lambda>x. hd (a_sem a x)) keys) \<and>
     devices_only k k' \<and> (\<forall>d. d \<notin> ds \<longrightarrow> devs k' d = devs k d) \<and>
     (ready_sorted k a \<longrightarrow> ready_sorted k' a') \<and> rebased keys k a k' \<and> served keys k a k' \<and> moves k a k' a'"

lemma woke_none: "kernel_rel k a \<Longrightarrow> woke [] ds k a k a"
  by (simp add: woke_def devices_only_def rebased_def same_base_def served_none moves_refl)

lemma woke_fields:
  assumes "woke keys ds k a k' a'"
  shows "devices_only k k'" "kernel_rel k' a'" "x \<notin> set keys \<Longrightarrow> a_sem a' x = a_sem a x"
    "d \<notin> ds \<Longrightarrow> devs k' d = devs k d"
    "mset (a_ready a') = mset (a_ready a) + mset (map (\<lambda>x. hd (a_sem a x)) keys)" "served keys k a k'"
  using assms by (auto simp: woke_def)

lemma woke_trans:
  assumes 1: "woke ks ds k a k1 a1" and 2: "woke ls es k1 a1 k2 a2" and d: "set ks \<inter> set ls = {}"
  shows "woke (ks @ ls) (ds \<union> es) k a k2 a2"
proof -
  have "a_sem a1 x = a_sem a x" if "x \<in> set ls" for x
    by (rule woke_fields(3) [OF 1]) (use d that in blast)
  then have eq0: "\<forall>x\<in>set ls. a_sem a1 x = a_sem a x" by blast
  then have eq: "map (\<lambda>x. hd (a_sem a1 x)) ls = map (\<lambda>x. hd (a_sem a x)) ls" by simp
  have "mset (a_ready a2) = mset (a_ready a) + mset (map (\<lambda>x. hd (a_sem a x)) (ks @ ls))"
    unfolding woke_fields(5) [OF 2] woke_fields(5) [OF 1] eq by simp
  moreover have "devices_only k k2" using 1 2 by (simp add: woke_def devices_only_def)
  moreover have "a_sem a2 x = (if x \<in> set (ks @ ls) then tl (a_sem a x) else a_sem a x)" for x
    using 1 2 d by (auto simp: woke_def)
  moreover have "rebased (ks @ ls) k a k2"
    using 1 2 eq0 by (auto simp: woke_def rebased_def same_base_def)
  moreover have "served (ks @ ls) k a k2"
    by (rule served_trans [OF woke_fields(6) [OF 1] woke_fields(6) [OF 2] d]) (use woke_fields(1) [OF 1] eq0 in \<open>auto simp: devices_only_def\<close>)
  moreover have "moves k a k2 a2" using 1 2 moves_trans unfolding woke_def by blast
  ultimately show ?thesis using 1 2 by (simp add: woke_def)
qed

text \<open>One semaphore, and the acknowledgement that follows.\<close>

lemma unblock_served:
  assumes r: "kernel_rel k a" and l: "line \<in> set dev_lines" and i: "i \<in> set dev_nums"
    and p: "a_sem a (dev_key k line i rcpt) = p # ps"
    and t: "p_s (pcbTable s' p) = set_SYSRETURN (dev_status line rcpt (devs k (DEV_REG_ADDR (target k) line i))) (p_s (pcbTable (st k) p))"
      "\<forall>q. q \<noteq> p \<longrightarrow> p_s (pcbTable s' q) = p_s (pcbTable (st k) q)"
  shows "served [dev_key k line i rcpt] k a (upd_dev (DEV_REG_ADDR (target k) line i) (ack line rcpt) (k\<lparr>st := s'\<rparr>))"
proof -
  let ?key = "dev_key k line i rcpt" and ?d = "DEV_REG_ADDR (target k) line i"
  let ?k = "upd_dev ?d (ack line rcpt) (k\<lparr>st := s'\<rparr>)"
  have dv: "devs ?k = (devs k)(?d := ack line rcpt (devs k ?d))" "st ?k = s'" by (simp_all add: upd_dev_def)
  have side: "dev_command line' r (devs ?k (DEV_REG_ADDR (target k) line' j)) =
        (if dev_key k line' j r \<in> set [?key] then CMD_ACK else dev_command line' r (devs k (DEV_REG_ADDR (target k) line' j))) \<and>
      (dev_key k line' j r \<in> set [?key] \<longrightarrow> p_s (pcbTable (st ?k) (hd (a_sem a (dev_key k line' j r)))) =
        set_SYSRETURN (dev_status line' r (devs k (DEV_REG_ADDR (target k) line' j))) (p_s (pcbTable (st k) (hd (a_sem a (dev_key k line' j r))))))"
    if lj: "line' \<in> set dev_lines" "j \<in> set dev_nums" for line' j r
  proof (cases "dev_key k line' j r = ?key")
    case True
    then have e: "line' = line" "j = i" "line = IL_TERMINAL \<longrightarrow> r = rcpt" using dev_key_inj [OF lj(1) l lj(2) i True] by auto
    then have f: "dev_command line' r = dev_command line rcpt" "dev_status line' r = dev_status line rcpt"
      by (auto simp: side_defs fun_eq_iff)
    show ?thesis unfolding f unfolding e(1,2) dv using True p t(1) by (simp add: e(1,2) ack_def dev_command_def)
  next
    case False
    have "dev_command line' r (devs ?k (DEV_REG_ADDR (target k) line' j)) = dev_command line' r (devs k (DEV_REG_ADDR (target k) line' j))"
    proof (cases "DEV_REG_ADDR (target k) line' j = ?d")
      case True
      then have "line' = line" "j = i" using dev_addr_inj2 [OF lj(1) l lj(2) i] by auto
      then have "line = IL_TERMINAL" "r \<noteq> rcpt" using False by (auto simp: dev_key_def dev_row_def split: if_splits)
      then show ?thesis unfolding dv True using \<open>line' = line\<close> by (auto simp: side_defs)
    qed (simp add: dv)
    then show ?thesis using False by simp
  qed
  have "dtp_status (devs ?k x) = dtp_status (devs k x) \<and> transm_status (devs ?k x) = transm_status (devs k x)" for x
    by (simp add: dv ack_def)
  moreover have "p_s (pcbTable (st ?k) q) = p_s (pcbTable (st k) q)" if "\<forall>x\<in>set [?key]. q \<noteq> hd (a_sem a x)" for q
    using t(2) that p by (simp add: dv)
  ultimately show ?thesis using side r p unfolding served_def Let_def by simp
qed

lemma unblock_woke:
  assumes r: "kernel_rel k a" and l: "line \<in> set dev_lines" and i: "i \<in> set dev_nums" and q: "a_sem a (dev_key k line i rcpt) \<noteq> []"
  defines "d \<equiv> DEV_REG_ADDR (target k) line i" and "key \<equiv> dev_key k line i rcpt"
  shows "\<exists>k1 a'. unblock_process key (dev_status line rcpt (devs k d)) k = Some k1 \<and> devs k1 = devs k \<and>
    woke [key] {d} k a (upd_dev d (ack line rcpt) k1) a'"
proof -
  obtain p ps where p: "a_sem a key = p # ps" using q by (cases "a_sem a key") (auto simp: key_def)
  let ?status = "dev_status line rcpt (devs k d)"
  obtain s' where s': "unblock_process key ?status k = Some (k\<lparr>st := s'\<rparr>)"
      "kernel_rel (k\<lparr>st := s'\<rparr>) (a\<lparr>a_sem := (a_sem a)(key := ps), a_ready := prio_insert (prio s') p (a_ready a)\<rparr>)"
      "pcbTable s' = (pcbTable (st k))(p := (pcbTable (st k) p)\<lparr>p_semkey := 0,
        priority := original_priority (pcbTable (st k) p), p_s := set_SYSRETURN ?status (p_s (pcbTable (st k) p))\<rparr>)"
    using unblock_spec [OF r p] by blast
  let ?k = "upd_dev d (ack line rcpt) (k\<lparr>st := s'\<rparr>)"
  have "p \<in> blocked (a_sem a)" using p by (auto simp: blocked_def intro!: exI [of _ key])
  then have "p \<notin> set (a_ready a)"
    using store_relD(5) [OF kernel_relD(1) [OF r]] by (auto simp: places_def)
  then have same: "prio s' q = prio (st k) q" if "q \<in> set (a_ready a)" for q
    using that s'(3) by (auto simp: prio_def)
  have "ready_sorted k a \<Longrightarrow> sorted_wrt (\<lambda>p q. prio s' q \<le> prio s' p) (a_ready a)"
    unfolding ready_sorted_def by (erule sorted_wrt_mono_rel [rotated]) (simp add: same)
  then have "ready_sorted k a \<Longrightarrow> sorted_wrt (\<lambda>p q. prio s' q \<le> prio s' p) (prio_insert (prio s') p (a_ready a))"
    by (blast intro: prio_insert_sorted)
  moreover have "moves k a ?k (a\<lparr>a_sem := (a_sem a)(key := ps), a_ready := prio_insert (prio s') p (a_ready a)\<rparr>)"
    by (rule moves_step) (simp add: upd_dev_def astep.wake [OF p])
  moreover have "rebased [key] k a (k\<lparr>st := s'\<rparr>)" using s'(3) p by (simp add: rebased_def same_base_def)
  then have "rebased [key] k a ?k" by (simp add: rebased_def same_base_def upd_dev_def)
  moreover have "served [key] k a ?k"
    unfolding key_def d_def by (rule unblock_served [OF r l i p [unfolded key_def]]) (simp_all add: s'(3) d_def)
  ultimately show ?thesis using s'(1,2) p
    by (auto simp: woke_def devices_only_def ready_sorted_def upd_dev_def kernel_rel_def)
qed

definition dev_wakes :: "kst \<Rightarrow> u32 \<Rightarrow> u32 \<Rightarrow> u32 list" where
  "dev_wakes k line i = (let d = devs k (DEV_REG_ADDR (target k) line i) in
     if line = IL_TERMINAL then
       (if TX_STATUS d = ST_TRANSMITTED then [dev_key k line i False] else []) @
       (if RX_STATUS d = ST_RECEIVED then [dev_key k line i True] else [])
     else [dev_key k line i False])"

lemma dev_key_cong: "devices_only k k' \<Longrightarrow> dev_key k' line i r = dev_key k line i r"
  by (simp add: dev_key_def devices_only_def)

lemma dev_wakes_keys: "x \<in> set (dev_wakes k line i) \<Longrightarrow> \<exists>r. x = dev_key k line i r"
  by (auto simp: dev_wakes_def Let_def split: if_splits)

lemma side_woke:
  assumes r: "kernel_rel k a" and l: "line \<in> set dev_lines" and i: "i \<in> set dev_nums"
    and d: "d = DEV_REG_ADDR (target k) line i" and q: "c \<Longrightarrow> a_sem a (dev_key k line i rcpt) \<noteq> []"
  shows "\<exists>k' a'. (if c then do {
      dev_sem_key \<leftarrow> interrupts_get_dev_key d (if rcpt then 1 else 0) k;
      k \<leftarrow> unblock_process dev_sem_key (dev_status line rcpt (devs k d)) k;
      Some (upd_dev d (ack line rcpt) k) } else Some k) = Some k' \<and>
    woke (if c then [dev_key k line i rcpt] else []) {d} k a k' a' \<and> devs k' d = (if c then ack line rcpt (devs k d) else devs k d)"
proof (cases c)
  case True
  obtain k1 a' where "unblock_process (dev_key k line i rcpt) (dev_status line rcpt (devs k d)) k = Some k1" "devs k1 = devs k"
      "woke [dev_key k line i rcpt] {d} k a (upd_dev d (ack line rcpt) k1) a'"
    using unblock_woke [OF r l i q [OF True]] unfolding d by blast
  then show ?thesis using True get_dev_key_at [OF l i, of k rcpt] d by (auto simp: upd_dev_def)
qed (use woke_none [OF r] in auto)

lemma side_eqs:
  "dev_status IL_TERMINAL False = transm_status" "dev_status IL_TERMINAL True = recv_status"
  "ack IL_TERMINAL False = (\<lambda>d. d\<lparr>dtp_data1 := CMD_ACK\<rparr>)" "ack IL_TERMINAL True = (\<lambda>d. d\<lparr>dtp_command := CMD_ACK\<rparr>)"
  "line \<noteq> IL_TERMINAL \<Longrightarrow> dev_status line r = dtp_status" "line \<noteq> IL_TERMINAL \<Longrightarrow> ack line r = (\<lambda>d. d\<lparr>dtp_command := CMD_ACK\<rparr>)"
  by (simp_all add: side_defs fun_eq_iff)

lemma handle_dtp_eq:
  assumes "line \<noteq> IL_TERMINAL"
  shows "handle_dtp d k = (if True then do {
      dev_sem_key \<leftarrow> interrupts_get_dev_key d (if False then 1 else 0) k;
      k \<leftarrow> unblock_process dev_sem_key (dev_status line False (devs k d)) k;
      Some (upd_dev d (ack line False) k) } else Some k)"
  using assms by (simp add: handle_dtp_def side_eqs)

lemma handle_dtp_woke:
  assumes r: "kernel_rel k a" and l: "line \<in> set dev_lines" "line \<noteq> IL_TERMINAL" and i: "i \<in> set dev_nums"
    and q: "a_sem a (dev_key k line i False) \<noteq> []"
  defines "d \<equiv> DEV_REG_ADDR (target k) line i"
  shows "\<exists>k' a'. handle_dtp d k = Some k' \<and> woke [dev_key k line i False] {d} k a k' a'"
  using side_woke [OF r l(1) i, of d True False] q unfolding handle_dtp_eq [OF l(2)] d_def by auto

lemma handle_term_eq:
  "handle_term d k = do {
     k \<leftarrow> (if TX_STATUS (devs k d) = ST_TRANSMITTED then do {
         dev_sem_key \<leftarrow> interrupts_get_dev_key d (if False then 1 else 0) k;
         k \<leftarrow> unblock_process dev_sem_key (dev_status IL_TERMINAL False (devs k d)) k;
         Some (upd_dev d (ack IL_TERMINAL False) k) } else Some k);
     (if RX_STATUS (devs k d) = ST_RECEIVED then do {
         dev_sem_key \<leftarrow> interrupts_get_dev_key d (if True then 1 else 0) k;
         k \<leftarrow> unblock_process dev_sem_key (dev_status IL_TERMINAL True (devs k d)) k;
         Some (upd_dev d (ack IL_TERMINAL True) k) } else Some k) }"
  by (simp only: handle_term_def side_eqs if_True if_False)

lemma dev_wakes_term:
  "dev_wakes k IL_TERMINAL i = (let d = devs k (DEV_REG_ADDR (target k) IL_TERMINAL i) in
     (if TX_STATUS d = ST_TRANSMITTED then [dev_key k IL_TERMINAL i False] else []) @
     (if RX_STATUS d = ST_RECEIVED then [dev_key k IL_TERMINAL i True] else []))"
  by (simp add: dev_wakes_def)

lemma terminal_line: "IL_TERMINAL \<in> set dev_lines"
  by (simp add: dev_lines_def il_defs)

lemma rx_after_ack: "RX_STATUS (ack IL_TERMINAL False x) = RX_STATUS x"
  by (simp add: RX_STATUS_def ack_def)

text \<open>After the transmitter has been served the receiver is as it was.\<close>

lemma after_transmitter:
  assumes w: "woke (if T then [dev_key k IL_TERMINAL i False] else []) {d} k a k1 a1" and i: "i \<in> set dev_nums"
  shows "kernel_rel k1 a1" "target k1 = target k" "dev_key k1 IL_TERMINAL i True = dev_key k IL_TERMINAL i True"
    "a_sem a1 (dev_key k IL_TERMINAL i True) = a_sem a (dev_key k IL_TERMINAL i True)"
    "dev_key k IL_TERMINAL i True \<noteq> dev_key k IL_TERMINAL i False"
proof -
  show ne: "dev_key k IL_TERMINAL i True \<noteq> dev_key k IL_TERMINAL i False"
    using dev_key_inj [OF terminal_line terminal_line i i, of k True False] by auto
  show "kernel_rel k1 a1" by (rule woke_fields(2) [OF w])
  show "target k1 = target k" using woke_fields(1) [OF w] by (simp add: devices_only_def)
  show "dev_key k1 IL_TERMINAL i True = dev_key k IL_TERMINAL i True" by (rule dev_key_cong [OF woke_fields(1) [OF w]])
  show "a_sem a1 (dev_key k IL_TERMINAL i True) = a_sem a (dev_key k IL_TERMINAL i True)"
    by (rule woke_fields(3) [OF w]) (use ne in auto)
qed

lemma handle_term_woke:
  assumes r: "kernel_rel k a" and i: "i \<in> set dev_nums"
    and q: "\<forall>x\<in>set (dev_wakes k IL_TERMINAL i). a_sem a x \<noteq> []"
  defines "d \<equiv> DEV_REG_ADDR (target k) IL_TERMINAL i"
  shows "\<exists>k' a'. handle_term d k = Some k' \<and> woke (dev_wakes k IL_TERMINAL i) {d} k a k' a'"
proof -
  let ?tx = "dev_key k IL_TERMINAL i False" and ?rx = "dev_key k IL_TERMINAL i True"
  define T R where "T \<longleftrightarrow> TX_STATUS (devs k d) = ST_TRANSMITTED" and "R \<longleftrightarrow> RX_STATUS (devs k d) = ST_RECEIVED"
  have w: "dev_wakes k IL_TERMINAL i = (if T then [?tx] else []) @ (if R then [?rx] else [])"
    by (simp add: dev_wakes_term Let_def T_def R_def d_def)
  have "T \<Longrightarrow> a_sem a ?tx \<noteq> []" using q w by simp
  from side_woke [OF r terminal_line i d_def [THEN meta_eq_to_obj_eq] this]
  obtain k1 a1 where k1: "(if T then do { dev_sem_key \<leftarrow> interrupts_get_dev_key d (if False then 1 else 0) k;
          k \<leftarrow> unblock_process dev_sem_key (dev_status IL_TERMINAL False (devs k d)) k;
          Some (upd_dev d (ack IL_TERMINAL False) k) } else Some k) = Some k1"
      "woke (if T then [?tx] else []) {d} k a k1 a1"
      "devs k1 d = (if T then ack IL_TERMINAL False (devs k d) else devs k d)" by blast
  note f = after_transmitter [OF k1(2) i]
  have R': "R \<longleftrightarrow> RX_STATUS (devs k1 d) = ST_RECEIVED" using k1(3) by (simp add: rx_after_ack R_def)
  have "R \<Longrightarrow> a_sem a1 (dev_key k1 IL_TERMINAL i True) \<noteq> []" using q w f(3,4) by simp
  from side_woke [OF f(1) terminal_line i _ this, of d] obtain k2 a2 where
      k2: "(if R then do { dev_sem_key \<leftarrow> interrupts_get_dev_key d (if True then 1 else 0) k1;
          k \<leftarrow> unblock_process dev_sem_key (dev_status IL_TERMINAL True (devs k1 d)) k1;
          Some (upd_dev d (ack IL_TERMINAL True) k) } else Some k1) = Some k2"
      "woke (if R then [?rx] else []) {d} k1 a1 k2 a2" unfolding f(2,3) d_def by blast
  have "handle_term d k = Some k2" unfolding handle_term_eq using k1(1) k2(1) unfolding T_def R' by simp
  moreover have "woke (dev_wakes k IL_TERMINAL i) ({d} \<union> {d}) k a k2 a2"
    unfolding w by (rule woke_trans [OF k1(2) k2(2)]) (use f(5) in auto)
  ultimately show ?thesis by auto
qed

lemma handle_device_woke:
  assumes r: "kernel_rel k a" and l: "line \<in> set dev_lines" and i: "i \<in> set dev_nums"
    and q: "\<forall>x\<in>set (dev_wakes k line i). a_sem a x \<noteq> []"
  defines "d \<equiv> DEV_REG_ADDR (target k) line i"
  shows "\<exists>k' a'. handle_device d k = Some k' \<and> woke (dev_wakes k line i) {d} k a k' a'"
proof (cases "line = IL_TERMINAL")
  case True
  then show ?thesis using handle_term_woke [OF r i] q is_terminal_iff [OF l i, of "target k"]
    by (simp add: handle_device_def d_def)
next
  case False
  then have w: "dev_wakes k line i = [dev_key k line i False]" by (simp add: dev_wakes_def Let_def)
  show ?thesis using handle_dtp_woke [OF r l False i] q w is_terminal_iff [OF l i, of "target k"] False
    by (auto simp: handle_device_def d_def)
qed

definition bit_wakes :: "kst \<Rightarrow> u32 \<Rightarrow> nat \<Rightarrow> u32 list" where
  "bit_wakes k line i =
     (if bit (bytes k (CDEV_BITMAP_ADDR (target k) line)) i then dev_wakes k line (of_nat i) else [])"

definition line_wakes :: "kst \<Rightarrow> u32 \<Rightarrow> u32 list" where
  "line_wakes k line = concat (map (bit_wakes k line) [0..<8])"

lemma bit_wakes_keys: "x \<in> set (bit_wakes k line i) \<Longrightarrow> \<exists>r. x = dev_key k line (of_nat i) r"
  using dev_wakes_keys by (auto simp: bit_wakes_def split: if_splits)

lemma of_nat_u32_inj: "i < 8 \<Longrightarrow> j < 8 \<Longrightarrow> (of_nat i :: u32) = of_nat j \<Longrightarrow> i = j"
  by (drule arg_cong [where f = unat]) (simp add: unat_of_nat)

lemma bit_wakes_disjoint:
  assumes "line \<in> set dev_lines" and "i < 8" "j < 8" "i \<noteq> j"
  shows "set (bit_wakes k line i) \<inter> set (bit_wakes k line j) = {}"
proof -
  have "dev_key k line (of_nat i) r \<noteq> dev_key k line (of_nat j) r'" for r r'
    using dev_key_inj [OF assms(1,1) of_nat_dev_num of_nat_dev_num, of i j k r r']
      of_nat_u32_inj [of i j] assms(2-4) by blast
  then show ?thesis by (fastforce dest: bit_wakes_keys)
qed

lemma low_bit: "(drop_bit i b mod 2 \<noteq> 0) \<longleftrightarrow> bit (b :: u8) i"
  by (simp add: bit_iff_odd_drop_bit odd_iff_mod_2_eq_one)

lemma dev_addr_fresh:
  assumes l: "line \<in> set dev_lines" and n: "n < 8"
  shows "DEV_REG_ADDR tgt line (of_nat n) \<notin> (\<lambda>i. DEV_REG_ADDR tgt line (of_nat i)) ` {..<n}"
proof
  assume "DEV_REG_ADDR tgt line (of_nat n) \<in> (\<lambda>i. DEV_REG_ADDR tgt line (of_nat i)) ` {..<n}"
  then obtain i where i: "DEV_REG_ADDR tgt line (of_nat n) = DEV_REG_ADDR tgt line (of_nat i)" "i < n"
    by (elim imageE) (simp only: lessThan_iff)
  have "(of_nat n :: u32) = of_nat i"
    using dev_addr_inj2 [OF l l of_nat_dev_num of_nat_dev_num i(1)] i n by simp
  then show False using of_nat_u32_inj [of n i] i(2) n by simp
qed

text \<open>One device of a line: handled when its bit is set, and left alone otherwise.\<close>

lemma handle_bit_woke:
  assumes r: "kernel_rel k a" and l: "line \<in> set dev_lines" and n: "n < 8"
    and ne: "\<forall>x\<in>set (bit_wakes k line n). a_sem a x \<noteq> []"
  shows "\<exists>k' a'. (if drop_bit n (bytes k (CDEV_BITMAP_ADDR (target k) line)) mod 2 \<noteq> 0
      then handle_device (DEV_REG_ADDR (target k) line (of_nat n)) k else Some k) = Some k' \<and>
    woke (bit_wakes k line n) {DEV_REG_ADDR (target k) line (of_nat n)} k a k' a'"
proof (cases "bit (bytes k (CDEV_BITMAP_ADDR (target k) line)) n")
  case True
  then have w: "bit_wakes k line n = dev_wakes k line (of_nat n)" by (simp add: bit_wakes_def)
  show ?thesis using handle_device_woke [OF r l of_nat_dev_num [OF n]] ne True unfolding w low_bit by simp
next
  case False
  then have "bit_wakes k line n = []" by (simp add: bit_wakes_def)
  then show ?thesis using woke_none [OF r] False low_bit by auto
qed

lemma handle_bits_woke:
  assumes r: "kernel_rel k a" and l: "line \<in> set dev_lines" and n: "n \<le> 8"
    and q: "\<forall>i<n. \<forall>x\<in>set (bit_wakes k line i). a_sem a x \<noteq> []"
  defines "b \<equiv> bytes k (CDEV_BITMAP_ADDR (target k) line)"
  shows "\<exists>k' a'. for_each [0..<n] (\<lambda>i (bitmap, k). do {
      k \<leftarrow> (if bitmap mod 2 \<noteq> 0 then handle_device (DEV_REG_ADDR (target k) line (of_nat i)) k else Some k);
      Some (drop_bit 1 bitmap, k) }) (b, k) = Some (drop_bit n b, k') \<and>
    woke (concat (map (bit_wakes k line) [0..<n])) ((\<lambda>i. DEV_REG_ADDR (target k) line (of_nat i)) ` {..<n}) k a k' a'"
  using n q
proof (induction n)
  case 0
  then show ?case using woke_none [OF r] by auto
next
  case (Suc n)
  let ?A = "\<lambda>i. DEV_REG_ADDR (target k) line (of_nat i)"
  have n: "n < 8" using Suc.prems by simp
  have num: "of_nat i \<in> set dev_nums" if "i < 8" for i using of_nat_dev_num that .
  let ?ks = "concat (map (bit_wakes k line) [0..<n])"
  obtain k1 a1 where k1: "for_each [0..<n] (\<lambda>i (bitmap, k). do {
        k \<leftarrow> (if bitmap mod 2 \<noteq> 0 then handle_device (DEV_REG_ADDR (target k) line (of_nat i)) k else Some k);
        Some (drop_bit 1 bitmap, k) }) (b, k) = Some (drop_bit n b, k1)"
      "woke ?ks (?A ` {..<n}) k a k1 a1"
    using Suc.IH Suc.prems less_SucI Suc_leD by blast
  note o = woke_fields(1) [OF k1(2)]
  have tgt: "target k1 = target k" "bytes k1 = bytes k" using o by (simp_all add: devices_only_def)
  have "set (bit_wakes k line i) \<inter> set (bit_wakes k line n) = {}" if "i < n" for i
    using bit_wakes_disjoint [OF l, of i n] n that by simp
  then have "\<forall>i<n. set (bit_wakes k line i) \<inter> set (bit_wakes k line n) = {}" by blast
  then have dis: "set ?ks \<inter> set (bit_wakes k line n) = {}" by fastforce
  have "?A n \<notin> ?A ` {..<n}" by (rule dev_addr_fresh [OF l n])
  then have dv: "devs k1 (?A n) = devs k (?A n)" by (rule woke_fields(4) [OF k1(2)])
  have same: "bit_wakes k1 line n = bit_wakes k line n"
    unfolding bit_wakes_def dev_wakes_def tgt dev_key_cong [OF o] Let_def dv by (rule refl)
  have ne: "\<forall>x\<in>set (bit_wakes k line n). a_sem a1 x \<noteq> []"
  proof
    fix x assume x: "x \<in> set (bit_wakes k line n)"
    then have "a_sem a1 x = a_sem a x" using woke_fields(3) [OF k1(2), of x] dis by blast
    then show "a_sem a1 x \<noteq> []" using Suc.prems(2) x by (metis lessI)
  qed
  have "\<exists>k2 a2. (if drop_bit n b mod 2 \<noteq> 0 then handle_device (?A n) k1 else Some k1) = Some k2 \<and>
      woke (bit_wakes k line n) {?A n} k1 a1 k2 a2"
    using handle_bit_woke [OF woke_fields(2) [OF k1(2)] l n] ne unfolding same tgt b_def .
  then obtain k2 a2 where k2: "(if drop_bit n b mod 2 \<noteq> 0 then handle_device (?A n) k1 else Some k1) = Some k2"
      "woke (bit_wakes k line n) {?A n} k1 a1 k2 a2" by blast
  have "woke (?ks @ bit_wakes k line n) (?A ` {..<n} \<union> {?A n}) k a k2 a2"
    by (rule woke_trans [OF k1(2) k2(2) dis])
  moreover have "?A ` {..<n} \<union> {?A n} = ?A ` {..<Suc n}" by (auto simp: lessThan_Suc)
  ultimately show ?case using k1(1) k2(1) by (auto simp: for_each_append tgt split: if_splits)
qed

lemma handle_interrupt_woke:
  assumes "kernel_rel k a" and "line \<in> set dev_lines" and "\<forall>x\<in>set (line_wakes k line). a_sem a x \<noteq> []"
  shows "\<exists>k' a'. handle_interrupt line k = Some k' \<and>
    woke (line_wakes k line) ((\<lambda>i. DEV_REG_ADDR (target k) line (of_nat i)) ` {..<8}) k a k' a'"
  using handle_bits_woke [OF assms(1,2), of 8] assms(3) by (auto simp: handle_interrupt_def line_wakes_def)

text \<open>And with an interrupting device that nobody waits for, the code follows a \<open>NULL\<close> pointer.\<close>

lemma side_none:
  assumes r: "kernel_rel k a" and l: "line \<in> set dev_lines" and i: "i \<in> set dev_nums"
    and e: "a_sem a (dev_key k line i rcpt) = []"
  shows "do {
      dev_sem_key \<leftarrow> interrupts_get_dev_key (DEV_REG_ADDR (target k) line i) (if rcpt then 1 else 0) k;
      k \<leftarrow> unblock_process dev_sem_key status k;
      Some (f k) } = None"
  using get_dev_key_at [OF l i, of k rcpt] unblock_nobody [OF r e] by simp

lemma handle_term_none:
  assumes r: "kernel_rel k a" and i: "i \<in> set dev_nums" and e: "\<exists>x\<in>set (dev_wakes k IL_TERMINAL i). a_sem a x = []"
  shows "handle_term (DEV_REG_ADDR (target k) IL_TERMINAL i) k = None"
proof -
  let ?tx = "dev_key k IL_TERMINAL i False" and ?rx = "dev_key k IL_TERMINAL i True"
  define d where "d = DEV_REG_ADDR (target k) IL_TERMINAL i"
  define T R where "T \<longleftrightarrow> TX_STATUS (devs k d) = ST_TRANSMITTED" and "R \<longleftrightarrow> RX_STATUS (devs k d) = ST_RECEIVED"
  have w: "(T \<and> a_sem a ?tx = []) \<or> (R \<and> a_sem a ?rx = [])"
    using e by (auto simp: dev_wakes_term Let_def T_def R_def d_def split: if_splits)
  show ?thesis
  proof (cases "T \<and> a_sem a ?tx = []")
    case True
    have "(if TX_STATUS (devs k d) = ST_TRANSMITTED then do { dev_sem_key \<leftarrow> interrupts_get_dev_key d (if False then 1 else 0) k;
        k \<leftarrow> unblock_process dev_sem_key (dev_status IL_TERMINAL False (devs k d)) k;
        Some (upd_dev d (ack IL_TERMINAL False) k) } else Some k) = None"
      using side_none [OF r terminal_line i, of False] True by (simp add: T_def d_def)
    then show ?thesis unfolding handle_term_eq d_def [symmetric] by (simp only: Option.bind.simps)
  next
    case False
    then have R: R "a_sem a ?rx = []" using w by auto
    have "T \<Longrightarrow> a_sem a ?tx \<noteq> []" using False by simp
    from side_woke [OF r terminal_line i d_def this]
    obtain k1 a1 where k1: "(if T then do { dev_sem_key \<leftarrow> interrupts_get_dev_key d (if False then 1 else 0) k;
            k \<leftarrow> unblock_process dev_sem_key (dev_status IL_TERMINAL False (devs k d)) k;
            Some (upd_dev d (ack IL_TERMINAL False) k) } else Some k) = Some k1"
        "woke (if T then [?tx] else []) {d} k a k1 a1"
        "devs k1 d = (if T then ack IL_TERMINAL False (devs k d) else devs k d)" by blast
    note f = after_transmitter [OF k1(2) i]
    have "RX_STATUS (devs k1 d) = ST_RECEIVED" using k1(3) R(1) by (simp add: rx_after_ack R_def)
    moreover have "a_sem a1 (dev_key k1 IL_TERMINAL i True) = []" unfolding f(3,4) by (rule R(2))
    ultimately show ?thesis
      using side_none [OF f(1) terminal_line i, of True] k1(1) unfolding handle_term_eq f(2) T_def d_def [symmetric] by simp
  qed
qed

lemma handle_device_none:
  assumes r: "kernel_rel k a" and l: "line \<in> set dev_lines" and i: "i \<in> set dev_nums"
    and e: "\<exists>x\<in>set (dev_wakes k line i). a_sem a x = []"
  shows "handle_device (DEV_REG_ADDR (target k) line i) k = None"
proof (cases "line = IL_TERMINAL")
  case True
  then show ?thesis using handle_term_none [OF r i] e is_terminal_iff [OF l i, of "target k"] by (simp add: handle_device_def)
next
  case False
  then have "a_sem a (dev_key k line i False) = []" using e by (simp add: dev_wakes_def Let_def)
  then show ?thesis using side_none [OF r l i, of False] is_terminal_iff [OF l i, of "target k"] False
    by (simp add: handle_device_def handle_dtp_eq)
qed

lemma handle_interrupt_none:
  assumes r: "kernel_rel k a" and l: "line \<in> set dev_lines" and e: "\<exists>x\<in>set (line_wakes k line). a_sem a x = []"
  shows "handle_interrupt line k = None"
proof -
  let ?b = "bytes k (CDEV_BITMAP_ADDR (target k) line)" and ?A = "\<lambda>i. DEV_REG_ADDR (target k) line (of_nat i)"
  let ?bad = "\<lambda>i. i < 8 \<and> (\<exists>x\<in>set (bit_wakes k line i). a_sem a x = [])"
  define n where "n = (LEAST i. ?bad i)"
  have "\<exists>i. ?bad i" using e by (auto simp: line_wakes_def)
  then have n: "n < 8" "\<exists>x\<in>set (bit_wakes k line n). a_sem a x = []" unfolding n_def by (rule LeastI2_ex; blast)+
  have before: "\<forall>i<n. \<forall>x\<in>set (bit_wakes k line i). a_sem a x \<noteq> []"
    using not_less_Least [of _ ?bad, folded n_def] n(1) less_trans by blast
  let ?ks = "concat (map (bit_wakes k line) [0..<n])"
  let ?F = "\<lambda>i (bitmap, k). do {
      k \<leftarrow> (if bitmap mod 2 \<noteq> 0 then handle_device (DEV_REG_ADDR (target k) line (of_nat i)) k else Some k);
      Some (drop_bit 1 bitmap, k) }"
  obtain k1 a1 where k1: "for_each [0..<n] ?F (?b, k) = Some (drop_bit n ?b, k1)" "woke ?ks (?A ` {..<n}) k a k1 a1"
    using handle_bits_woke [OF r l less_imp_le [OF n(1)] before] by auto
  note o = woke_fields(1) [OF k1(2)]
  have tgt: "target k1 = target k" "bytes k1 = bytes k" using o by (simp_all add: devices_only_def)
  have dv: "devs k1 (?A n) = devs k (?A n)" by (rule woke_fields(4) [OF k1(2) dev_addr_fresh [OF l n(1)]])
  have set: "bit ?b n" "bit_wakes k line n = dev_wakes k line (of_nat n)" using n(2) by (auto simp: bit_wakes_def split: if_splits)
  have "dev_wakes k1 line (of_nat n) = dev_wakes k line (of_nat n)"
    unfolding dev_wakes_def tgt dev_key_cong [OF o] Let_def dv by (rule refl)
  moreover have "a_sem a1 x = a_sem a x" if "x \<in> set (bit_wakes k line n)" for x
  proof (rule woke_fields(3) [OF k1(2)])
    have "x \<notin> set (bit_wakes k line i)" if i: "i < n" for i
      using bit_wakes_disjoint [OF l less_trans [OF i n(1)] n(1), of k] i \<open>x \<in> set (bit_wakes k line n)\<close> by auto
    then show "x \<notin> set ?ks" by auto
  qed
  ultimately have "\<exists>x\<in>set (dev_wakes k1 line (of_nat n)). a_sem a1 x = []" using n(2) set(2) by auto
  then have "handle_device (?A n) k1 = None"
    using handle_device_none [OF woke_fields(2) [OF k1(2)] l of_nat_dev_num [OF n(1)]] unfolding tgt by simp
  moreover have "[0..<8] = [0..<n] @ n # [Suc n..<8]" using n(1) upt_add_eq_append [of 0 n "8 - n"] by (simp add: upt_conv_Cons)
  ultimately show ?thesis unfolding handle_interrupt_def using k1(1) low_bit [of n ?b] set(1)
    by (simp add: for_each_append tgt del: upt_Suc)
qed

section \<open>The handler\<close>

definition handled_lines :: "arch \<Rightarrow> u32 \<Rightarrow> u32 list" where
  "handled_lines ar cause =
     (if INT_IS_PENDING ar cause IL_DISK then [IL_DISK] else []) @
     (if INT_IS_PENDING ar cause IL_TAPE then [IL_TAPE] else []) @
     (if INT_IS_PENDING ar cause IL_ETHERNET then [IL_ETHERNET] else []) @
     (if INT_IS_PENDING ar cause IL_PRINTER then [IL_ETHERNET] else []) @
     (if INT_IS_PENDING ar cause IL_TERMINAL then [IL_TERMINAL] else [])"

text \<open>The state in which the handler starts on the devices: time accounted, timer acknowledged.\<close>

definition int_entry :: "kst \<Rightarrow> kst \<Rightarrow> kst" where
  "int_entry k k1 =
     (let old = INT_OLDAREA (target k); v = areas k old;
          k2 = (if target k = UARM then k1\<lparr>areas := (areas k1)(old := set_PC (PC v - WORD_SIZE) v)\<rparr> else k1)
      in if INT_IS_PENDING (target k) (CAUSE v) IL_TIMER then setTIMER TIMER_ACK k2 else k2)"

lemma area_nonzero: "INT_OLDAREA ar \<noteq> 0" "SYSBK_OLDAREA ar \<noteq> 0" "PGMTRAP_OLDAREA ar \<noteq> 0" "TLB_OLDAREA ar \<noteq> 0"
  by (cases ar; simp add: area_defs)+

lemma interrupts_handler_eq:
  assumes "scheduler_account_time False k = Some k1" and "timed k k1"
  defines "cause \<equiv> CAUSE (areas k (INT_OLDAREA (target k)))"
  shows "interrupts_handler k = do {
    k2 \<leftarrow> for_each (handled_lines (target k) cause) handle_interrupt (int_entry k k1);
    scheduler_resume (INT_IS_PENDING (target k) cause IL_TIMER) (INT_OLDAREA (target k)) k2 }"
proof -
  let ?ar = "target k" and ?old = "INT_OLDAREA (target k)"
  have v: "load_area ?old k1 = Some (areas k ?old)"
    using timed_fields(6) [OF assms(2)] area_nonzero(1) by (simp add: load_area_def)
  define k2 where "k2 = (if ?ar = UARM
    then k1\<lparr>areas := (areas k1)(?old := set_PC (PC (areas k ?old) - WORD_SIZE) (areas k ?old))\<rparr> else k1)"
  have w: "(if ?ar = UARM then store_area ?old (set_PC (PC (areas k ?old) - WORD_SIZE) (areas k ?old)) k1
      else Some k1) = Some k2"
    using area_nonzero(1) by (simp add: store_area_def k2_def)
  have e: "int_entry k k1 = (if INT_IS_PENDING ?ar cause IL_TIMER then setTIMER TIMER_ACK k2 else k2)"
    by (simp only: int_entry_def Let_def k2_def cause_def)
  have pend: "handle_if_pending ?ar cause p l =
      for_each (if INT_IS_PENDING ?ar cause p then [l] else []) handle_interrupt" for p l
    by (auto simp: handle_if_pending_def fun_eq_iff simp del: for_each.simps(2))
  show ?thesis
    unfolding interrupts_handler_def Let_def assms(1) handled_lines_def
    by (simp only: Option.bind.simps v w e pend for_each_append Option.bind_assoc flip: cause_def)
qed

lemma int_entry_fields:
  assumes "timed k k1" and "kernel_rel k a"
  shows "kernel_rel (int_entry k k1) a" "target (int_entry k k1) = target k" "linked (int_entry k k1) = linked k"
    "devs (int_entry k k1) = devs k" "bytes (int_entry k k1) = bytes k"
    "current_proc (int_entry k k1) = current_proc k"
  using timed_fields [OF assms(1)] timed_kernel_rel [OF assms]
  by (simp_all add: int_entry_def Let_def setTIMER_def kernel_rel_def)

definition line_devs :: "arch \<Rightarrow> u32 \<Rightarrow> u32 set" where
  "line_devs ar line = (\<lambda>i. DEV_REG_ADDR ar line (of_nat i)) ` {..<8}"

lemma line_devs_disjoint:
  assumes "line \<in> set dev_lines" "line' \<in> set dev_lines" "line \<noteq> line'"
  shows "line_devs ar line \<inter> line_devs ar line' = {}"
proof -
  have "DEV_REG_ADDR ar line (of_nat i) \<noteq> DEV_REG_ADDR ar line' (of_nat j)" if "i < 8" "j < 8" for i j
    using dev_addr_inj2 [OF assms(1,2) of_nat_dev_num of_nat_dev_num] that assms(3) by blast
  then show ?thesis unfolding line_devs_def by blast
qed

lemma line_wakes_keys: "x \<in> set (line_wakes k line) \<Longrightarrow> \<exists>i<8. \<exists>r. x = dev_key k line (of_nat i) r"
  using bit_wakes_keys by (fastforce simp: line_wakes_def)

lemma line_wakes_disjoint:
  assumes "line \<in> set dev_lines" "line' \<in> set dev_lines" "line \<noteq> line'"
  shows "set (line_wakes k line) \<inter> set (line_wakes k line') = {}"
proof -
  have "dev_key k line (of_nat i) r \<noteq> dev_key k line' (of_nat j) r'" if "i < 8" "j < 8" for i j r r'
    using dev_key_inj [OF assms(1,2) of_nat_dev_num of_nat_dev_num] that assms(3) by blast
  then show ?thesis by (fastforce dest: line_wakes_keys)
qed

lemma line_wakes_cong:
  assumes "target k' = target k" "linked k' = linked k" "bytes k' = bytes k"
    and "\<And>d. d \<in> line_devs (target k) line \<Longrightarrow> devs k' d = devs k d"
  shows "line_wakes k' line = line_wakes k line"
proof -
  have "bit_wakes k' line i = bit_wakes k line i" if "i < 8" for i
  proof -
    have "devs k' (DEV_REG_ADDR (target k) line (of_nat i)) = devs k (DEV_REG_ADDR (target k) line (of_nat i))"
      using that by (intro assms(4)) (auto simp: line_devs_def)
    then show ?thesis unfolding bit_wakes_def dev_wakes_def dev_key_def assms(1-3) Let_def by (simp only:)
  qed
  then show ?thesis unfolding line_wakes_def by (intro arg_cong [where f = concat] map_cong) auto
qed

lemma handle_lines_woke:
  assumes "kernel_rel k a" and "set ls \<subseteq> set dev_lines" and "distinct ls"
    and "\<forall>l\<in>set ls. \<forall>x\<in>set (line_wakes k l). a_sem a x \<noteq> []"
  shows "\<exists>k' a'. for_each ls handle_interrupt k = Some k' \<and>
    woke (concat (map (line_wakes k) ls)) (\<Union>l\<in>set ls. line_devs (target k) l) k a k' a'"
  using assms
proof (induction ls arbitrary: k a)
  case Nil
  then show ?case using woke_none by auto
next
  case (Cons l ls)
  obtain k1 a1 where k1: "handle_interrupt l k = Some k1"
      "woke (line_wakes k l) (line_devs (target k) l) k a k1 a1"
    using handle_interrupt_woke [OF Cons.prems(1), of l] Cons.prems(2,4) unfolding line_devs_def by auto
  have o: "target k1 = target k" "linked k1 = linked k" "bytes k1 = bytes k"
    using woke_fields(1) [OF k1(2)] by (simp_all add: devices_only_def)
  have same: "line_wakes k1 m = line_wakes k m" if m: "m \<in> set ls" for m
  proof (rule line_wakes_cong [OF o])
    fix d assume "d \<in> line_devs (target k) m"
    moreover have "line_devs (target k) m \<inter> line_devs (target k) l = {}"
      by (rule line_devs_disjoint) (use m Cons.prems(2,3) in auto)
    ultimately have "d \<notin> line_devs (target k) l" by blast
    then show "devs k1 d = devs k d" by (rule woke_fields(4) [OF k1(2)])
  qed
  have dis: "set (line_wakes k l) \<inter> set (line_wakes k m) = {}" if "m \<in> set ls" for m
    using line_wakes_disjoint [of l m k] that Cons.prems(2,3) by auto
  have "a_sem a1 x \<noteq> []" if "m \<in> set ls" "x \<in> set (line_wakes k m)" for m x
  proof -
    have "x \<notin> set (line_wakes k l)" using dis [OF that(1)] that(2) by blast
    then show ?thesis using woke_fields(3) [OF k1(2), of x] Cons.prems(4) that by simp
  qed
  then obtain k2 a2 where k2: "for_each ls handle_interrupt k1 = Some k2"
      "woke (concat (map (line_wakes k1) ls)) (\<Union>l\<in>set ls. line_devs (target k1) l) k1 a1 k2 a2"
    using Cons.IH [OF woke_fields(2) [OF k1(2)]] Cons.prems(2,3) same by auto
  have "\<forall>m\<in>set ls. set (line_wakes k l) \<inter> set (line_wakes k m) = {}" using dis by blast
  then have disc: "set (line_wakes k l) \<inter> set (concat (map (line_wakes k) ls)) = {}" by fastforce
  have m: "map (line_wakes k1) ls = map (line_wakes k) ls" using same by simp
  have "woke (line_wakes k l @ concat (map (line_wakes k) ls))
      (line_devs (target k) l \<union> (\<Union>l\<in>set ls. line_devs (target k) l)) k a k2 a2"
    by (rule woke_trans [OF k1(2) k2(2) [unfolded m o(1)] disc])
  then show ?case using k1(1) k2(1) by auto
qed

lemma handle_lines_none:
  assumes "kernel_rel k a" and "set ls \<subseteq> set dev_lines" and "distinct ls"
    and "\<exists>l\<in>set ls. \<exists>x\<in>set (line_wakes k l). a_sem a x = []"
  shows "for_each ls handle_interrupt k = None"
  using assms
proof (induction ls arbitrary: k a)
  case (Cons l ls)
  show ?case
  proof (cases "\<exists>x\<in>set (line_wakes k l). a_sem a x = []")
    case True
    then show ?thesis using handle_interrupt_none [OF Cons.prems(1)] Cons.prems(2) by simp
  next
    case False
    then obtain k1 a1 where k1: "handle_interrupt l k = Some k1" "woke (line_wakes k l) (line_devs (target k) l) k a k1 a1"
      using handle_interrupt_woke [OF Cons.prems(1), of l] Cons.prems(2) unfolding line_devs_def by auto
    obtain m x where m: "m \<in> set ls" "x \<in> set (line_wakes k m)" "a_sem a x = []" using Cons.prems(4) False by auto
    have lm: "l \<in> set dev_lines" "m \<in> set dev_lines" "l \<noteq> m" using m(1) Cons.prems(2,3) by auto
    have "line_wakes k1 m = line_wakes k m"
    proof (rule line_wakes_cong)
      fix d assume "d \<in> line_devs (target k) m"
      then have "d \<notin> line_devs (target k) l" using line_devs_disjoint [OF lm] by blast
      then show "devs k1 d = devs k d" by (rule woke_fields(4) [OF k1(2)])
    qed (use woke_fields(1) [OF k1(2)] in \<open>simp_all add: devices_only_def\<close>)
    moreover have "x \<notin> set (line_wakes k l)" using line_wakes_disjoint [OF lm, of k] m(2) by blast
    then have "a_sem a1 x = []" using woke_fields(3) [OF k1(2)] m(3) by simp
    ultimately have "for_each ls handle_interrupt k1 = None"
      using Cons.IH [OF woke_fields(2) [OF k1(2)]] Cons.prems(2,3) m(1,2) by (metis distinct.simps(2) insert_subset list.simps(15))
    then show ?thesis using k1(1) by simp
  qed
qed simp

lemma handled_lines_ok:
  assumes "\<not> INT_IS_PENDING ar cause IL_PRINTER"
  shows "set (handled_lines ar cause) \<subseteq> set dev_lines" "distinct (handled_lines ar cause)"
  using assms by (auto simp: handled_lines_def dev_lines_def il_defs)

text \<open>
  Every device that interrupts and has its semaphore waited on: the handler wakes the waiting
  processes and gives the processor away. \<open>expected k a\<close> is the condition on the devices.
\<close>

definition expected :: "kst \<Rightarrow> proc_abs \<Rightarrow> bool" where
  "expected k a \<longleftrightarrow> (let cause = CAUSE (areas k (INT_OLDAREA (target k))) in
     \<not> INT_IS_PENDING (target k) cause IL_PRINTER \<and>
     (\<forall>l\<in>set (handled_lines (target k) cause). \<forall>x\<in>set (line_wakes k l). a_sem a x \<noteq> []))"

definition int_wakes :: "kst \<Rightarrow> u32 list" where
  "int_wakes k = concat (map (line_wakes k)
     (handled_lines (target k) (CAUSE (areas k (INT_OLDAREA (target k))))))"

lemma interrupts_handler_woke:
  assumes r: "kernel_rel k a" and e: "expected k a"
  defines "ar \<equiv> target k"
  defines "cause \<equiv> CAUSE (areas k (INT_OLDAREA ar))"
  shows "\<exists>k0 k1 a1. timed k k0 \<and> woke (int_wakes k) (\<Union>l\<in>set (handled_lines ar cause). line_devs ar l) (int_entry k k0) a k1 a1 \<and>
    interrupts_handler k = scheduler_resume (INT_IS_PENDING ar cause IL_TIMER) (INT_OLDAREA ar) k1"
proof -
  let ?ls = "handled_lines ar cause"
  obtain k0 where k0: "scheduler_account_time False k = Some k0" "timed k k0"
    using account_time_spec [OF kernel_rel_current [OF r]] by blast
  note f = int_entry_fields [OF k0(2) r]
  have same: "line_wakes (int_entry k k0) l = line_wakes k l" for l
    by (rule line_wakes_cong) (simp_all add: f)
  have p: "\<not> INT_IS_PENDING ar cause IL_PRINTER" and w: "\<forall>l\<in>set ?ls. \<forall>x\<in>set (line_wakes k l). a_sem a x \<noteq> []"
    using e by (simp_all add: expected_def Let_def ar_def cause_def)
  obtain k1 a1 where k1: "for_each ?ls handle_interrupt (int_entry k k0) = Some k1"
      "woke (concat (map (line_wakes (int_entry k k0)) ?ls)) (\<Union>l\<in>set ?ls. line_devs (target (int_entry k k0)) l) (int_entry k k0) a k1 a1"
    using handle_lines_woke [OF f(1) handled_lines_ok [OF p]] w same by auto
  have m: "map (line_wakes (int_entry k k0)) ?ls = map (line_wakes k) ?ls" using same by simp
  have "woke (int_wakes k) (\<Union>l\<in>set ?ls. line_devs ar l) (int_entry k k0) a k1 a1"
    using k1(2) [unfolded m f(2)] unfolding int_wakes_def ar_def cause_def .
  moreover have "interrupts_handler k = scheduler_resume (INT_IS_PENDING ar cause IL_TIMER) (INT_OLDAREA ar) k1"
    using interrupts_handler_eq [OF k0] k1(1) by (simp add: ar_def cause_def)
  ultimately show ?thesis using k0(2) by blast
qed

lemma interrupts_handler_none:
  assumes r: "kernel_rel k a" and p: "\<not> INT_IS_PENDING (target k) (CAUSE (areas k (INT_OLDAREA (target k)))) IL_PRINTER"
    and e: "\<exists>x\<in>set (int_wakes k). a_sem a x = []"
  shows "interrupts_handler k = None"
proof -
  let ?ls = "handled_lines (target k) (CAUSE (areas k (INT_OLDAREA (target k))))"
  obtain k0 where k0: "scheduler_account_time False k = Some k0" "timed k k0"
    using account_time_spec [OF kernel_rel_current [OF r]] by blast
  note f = int_entry_fields [OF k0(2) r]
  have "line_wakes (int_entry k k0) l = line_wakes k l" for l
    by (rule line_wakes_cong) (simp_all add: f)
  then have "for_each ?ls handle_interrupt (int_entry k k0) = None"
    using handle_lines_none [OF f(1) handled_lines_ok [OF p]] e by (simp add: int_wakes_def)
  then show ?thesis using interrupts_handler_eq [OF k0] by simp
qed

lemma interrupts_handler_rel:
  assumes r: "kernel_rel k a" and e: "expected k a"
  shows "\<exists>v k' a'. interrupts_handler k = Some (v, k') \<and> kernel_rel k' a' \<and>
    a_free a' = a_free a \<and> a_kids a' = a_kids a \<and> target k' = target k \<and> linked k' = linked k \<and>
    (\<forall>x. a_sem a' x = (if x \<in> set (int_wakes k) then tl (a_sem a x) else a_sem a x)) \<and> moves k a k' a'"
proof -
  obtain k0 k1 a1 x ds where k1: "timed k k0" "woke (int_wakes k) ds (int_entry k k0) a k1 a1"
      "interrupts_handler k = scheduler_resume x (INT_OLDAREA (target k)) k1"
    using interrupts_handler_woke [OF assms] by blast
  obtain v k' rq where k': "scheduler_resume x (INT_OLDAREA (target k)) k1 = Some (v, k')"
      "kernel_rel k' (a1\<lparr>a_ready := rq\<rparr>)" "kernel_only k1 k'" "moves k1 a1 k' (a1\<lparr>a_ready := rq\<rparr>)"
    using resume_rel [OF woke_fields(2) [OF k1(2)]] area_nonzero(1) by blast
  have "target k' = target k" "linked k' = linked k"
    using kernel_only_fields(1,2) [OF k'(3)] woke_fields(1) [OF k1(2)] int_entry_fields(2,3) [OF k1(1) r]
    by (simp_all add: devices_only_def)
  moreover have "moves k a k1 a1"
    using k1(2) moves_from [OF int_entry_fields(6) [OF k1(1) r]] by (simp add: woke_def)
  then have "moves k a k' (a1\<lparr>a_ready := rq\<rparr>)" using k'(4) by (rule moves_trans)
  ultimately show ?thesis using k1(2,3) k'(1,2) unfolding woke_def
    by (intro exI [of _ v] exI [of _ k'] exI [of _ "a1\<lparr>a_ready := rq\<rparr>"]) simp
qed

text \<open>
  A pending printer line is looked up in the bitmap of the network line: with nothing pending there,
  no printer is acknowledged and no process is woken.
\<close>

lemma printer_ignored:
  assumes r: "kernel_rel k a"
    and pend: "\<forall>l\<in>{IL_DISK, IL_TAPE, IL_ETHERNET, IL_TERMINAL}.
      \<not> INT_IS_PENDING (target k) (CAUSE (areas k (INT_OLDAREA (target k)))) l"
    and b: "bytes k (CDEV_BITMAP_ADDR (target k) IL_ETHERNET) = 0"
  shows "\<exists>v k' rq. interrupts_handler k = Some (v, k') \<and> kernel_rel k' (a\<lparr>a_ready := rq\<rparr>) \<and> devs k' = devs k"
proof -
  obtain k0 where k0: "scheduler_account_time False k = Some k0" "timed k k0"
    using account_time_spec [OF kernel_rel_current [OF r]] by blast
  note f = int_entry_fields [OF k0(2) r]
  have z: "for_each [0..<n] (\<lambda>i (bitmap, k). do {
      k \<leftarrow> (if bitmap mod 2 \<noteq> 0 then handle_device (DEV_REG_ADDR (target k) IL_ETHERNET (of_nat i)) k else Some k);
      Some (drop_bit 1 bitmap, k) }) (0, x) = Some (0, x)" for n x
    by (induction n) (simp_all add: for_each_append)
  have "handle_interrupt IL_ETHERNET (int_entry k k0) = Some (int_entry k k0)"
    unfolding handle_interrupt_def f(2,5) b z by simp
  then have "for_each (handled_lines (target k) (CAUSE (areas k (INT_OLDAREA (target k))))) handle_interrupt (int_entry k k0)
      = Some (int_entry k k0)"
    using pend by (simp add: handled_lines_def)
  then have h: "interrupts_handler k = scheduler_resume
      (INT_IS_PENDING (target k) (CAUSE (areas k (INT_OLDAREA (target k)))) IL_TIMER) (INT_OLDAREA (target k)) (int_entry k k0)"
    using interrupts_handler_eq [OF k0] by simp
  show ?thesis using resume_rel [OF f(1)] area_nonzero(1) f(4) kernel_only_fields(8) unfolding h by metis
qed

end
