(* ===== verification/Syscalls.thy ===== *)
theory Syscalls
  imports Interrupts
begin

text \<open>
  \<open>src/syscalls.c\<close>: the eight system calls and their handler.

  Every call is a function on the kernel state; those that return a value return it with the state.
  The lemmas give the effect of each call on the abstract view of the tables, the failures included,
  and show that the handler keeps the kernel's invariant.
\<close>

section \<open>The code\<close>

definition SYSCALL_SUCCESS :: u32 where "SYSCALL_SUCCESS = 0"
definition SYSCALL_FAILURE :: u32 where "SYSCALL_FAILURE = -1"

definition GETCPUTIME :: u32 where "GETCPUTIME = 1"
definition CREATEPROCESS :: u32 where "CREATEPROCESS = 2"
definition TERMINATEPROCESS :: u32 where "TERMINATEPROCESS = 3"
definition VERHOGEN :: u32 where "VERHOGEN = 4"
definition PASSEREN :: u32 where "PASSEREN = 5"
definition WAITIO :: u32 where "WAITIO = 6"
definition SPECPASSUP :: u32 where "SPECPASSUP = 7"
definition GETPID :: u32 where "GETPID = 8"

lemmas syscall_nos = GETCPUTIME_def CREATEPROCESS_def TERMINATEPROCESS_def VERHOGEN_def PASSEREN_def
  WAITIO_def SPECPASSUP_def GETPID_def

definition SPECPASSUP_SYSBK_TYPE :: nat where "SPECPASSUP_SYSBK_TYPE = 0"
definition SPECPASSUP_TLB_TYPE :: nat where "SPECPASSUP_TLB_TYPE = 1"
definition SPECPASSUP_TRAP_TYPE :: nat where "SPECPASSUP_TRAP_TYPE = 2"

definition create_process :: "u32 \<Rightarrow> s32 \<Rightarrow> u32 \<Rightarrow> kst \<Rightarrow> (u32 \<times> kst) option" where
  "create_process state pri cpid k = do {
     (new_proc, k) \<leftarrow> on_st_ret pcb_alloc k;
     if new_proc = Null then Some (SYSCALL_FAILURE, k)
     else do {
       v \<leftarrow> load_area state k;
       k \<leftarrow> on_st (upd_pcb new_proc (\<lambda>b. b\<lparr>p_s := v\<rparr>)) k;
       k \<leftarrow> on_st (upd_pcb new_proc (\<lambda>b. b\<lparr>original_priority := pri\<rparr>)) k;
       k \<leftarrow> scheduler_enqueue_process new_proc k;
       k \<leftarrow> on_st (pcb_insert_child (current_proc k) new_proc) k;
       k \<leftarrow> (if cpid \<noteq> 0 then store_word cpid (addr_of_pcb k new_proc) k else Some k);
       Some (SYSCALL_SUCCESS, k) } }"

definition terminate_process :: "pcb_ptr \<Rightarrow> kst \<Rightarrow> (u32 \<times> kst) option" where
  "terminate_process pid k = do {
     let pid = (if pid = Null then current_proc k else pid);
     free \<leftarrow> pcb_is_free pid (st k);
     if free then Some (SYSCALL_FAILURE, k)
     else do {
       k \<leftarrow> scheduler_kill_process pid k;
       Some (SYSCALL_SUCCESS, k) } }"

definition verhogen :: "u32 \<Rightarrow> kst \<Rightarrow> kst option" where
  "verhogen semaddr k = do {
     semd \<leftarrow> asl_semd semaddr (st k);
     if semd \<noteq> Null then do {
       (blocked, k) \<leftarrow> on_st_ret (asl_remove_blocked semaddr) k;
       scheduler_enqueue_process blocked k }
     else do {
       v \<leftarrow> load_word semaddr k;
       store_word semaddr (v + 1) k } }"

definition passeren :: "u32 \<Rightarrow> kst \<Rightarrow> kst option" where
  "passeren semaddr k = do {
     v \<leftarrow> load_word semaddr k;
     if v \<noteq> 0 then store_word semaddr (v - 1) k
     else scheduler_block_current semaddr (old_state k) k }"

definition wait_io :: "u32 \<Rightarrow> u32 \<Rightarrow> u8 \<Rightarrow> kst \<Rightarrow> kst option" where
  "wait_io command device subdev k = do {
     let k = (if IS_TERMINAL (target k) device then
                (if subdev \<noteq> 0 then upd_dev device (\<lambda>d. d\<lparr>dtp_command := command\<rparr>) k
                 else upd_dev device (\<lambda>d. d\<lparr>dtp_data1 := command\<rparr>) k)
              else upd_dev device (\<lambda>d. d\<lparr>dtp_command := command\<rparr>) k);
     dev_sem_key \<leftarrow> interrupts_get_dev_key device subdev k;
     scheduler_block_current dev_sem_key (old_state k) k }"

definition spec_pass_up :: "u32 \<Rightarrow> u32 \<Rightarrow> u32 \<Rightarrow> kst \<Rightarrow> (u32 \<times> kst) option" where
  "spec_pass_up exc_type old_area new_area k = do {
     let i = unat exc_type;
     b \<leftarrow> get_current k;
     if \<not> (i < length (exc_new_areas b) \<and> i < length (exc_old_areas b)) then None
     else if exc_new_areas b ! i \<noteq> 0 then do {
       k \<leftarrow> scheduler_kill_process (current_proc k) k;
       Some (SYSCALL_FAILURE, k) }
     else do {
       k \<leftarrow> upd_current (\<lambda>b. b\<lparr>exc_new_areas := (exc_new_areas b)[i := new_area]\<rparr>) k;
       k \<leftarrow> upd_current (\<lambda>b. b\<lparr>exc_old_areas := (exc_old_areas b)[i := old_area]\<rparr>) k;
       Some (SYSCALL_SUCCESS, k) } }"

definition get_cpu_time :: "u32 \<Rightarrow> u32 \<Rightarrow> u32 \<Rightarrow> kst \<Rightarrow> kst option" where
  "get_cpu_time user kern wallclock k = do {
     let (t, k) = getTODLO k;
     b \<leftarrow> get_current k;
     k \<leftarrow> store_word wallclock (ucast (ucast t - start_tm b)) k;
     k \<leftarrow> store_word user (ucast (user_tm b)) k;
     k \<leftarrow> scheduler_account_time True k;
     b \<leftarrow> get_current k;
     store_word kern (ucast (kernel_tm b)) k }"

definition get_pid :: "u32 \<Rightarrow> u32 \<Rightarrow> kst \<Rightarrow> kst option" where
  "get_pid pid ppid k = do {
     k \<leftarrow> (if pid \<noteq> 0 then store_word pid (addr_of_pcb k (current_proc k)) k else Some k);
     if ppid \<noteq> 0 then do {
       b \<leftarrow> get_current k;
       store_word ppid (addr_of_pcb k (p_parent b)) k }
     else Some k }"

text \<open>\<open>SYSRETURN(*old_state) = f(...)\<close>.\<close>

definition returning :: "(u32 \<times> kst) option \<Rightarrow> kst option" where
  "returning m = do {
     (r, k) \<leftarrow> m;
     v \<leftarrow> load_area (old_state k) k;
     store_area (old_state k) (set_SYSRETURN r v) k }"

text \<open>
  The \<open>switch\<close>, with the copy of the caller's registers in \<open>v\<close>. \<open>Inl\<close> is a call that comes back
  to the handler, \<open>Inr\<close> the default branch, which passes the exception up and does not come back.
\<close>

definition syscall_switch :: "state_t \<Rightarrow> kst \<Rightarrow> (kst + state_t \<times> kst) option" where
  "syscall_switch v k =
     (let n = SYSARG0 v; a1 = SYSARG1 v; a2 = SYSARG2 v; a3 = SYSARG3 v in
      if n = GETCPUTIME then map_option Inl (get_cpu_time a1 a2 a3 k)
      else if n = CREATEPROCESS then map_option Inl (returning (create_process a1 a2 a3 k))
      else if n = TERMINATEPROCESS then map_option Inl (returning (terminate_process (pcb_at_addr k a1) k))
      else if n = VERHOGEN then map_option Inl (verhogen a1 k)
      else if n = PASSEREN then map_option Inl (passeren a1 k)
      else if n = WAITIO then map_option Inl (wait_io a1 a2 (ucast a3) k)
      else if n = SPECPASSUP then map_option Inl (returning (spec_pass_up a1 a2 a3 k))
      else if n = GETPID then map_option Inl (get_pid a1 a2 k)
      else map_option Inr (scheduler_handle_exception SPECPASSUP_SYSBK_TYPE (SYSBK_OLDAREA (target k)) k))"

definition syscall_handler :: "kst \<Rightarrow> outcome" where
  "syscall_handler k = do {
     k \<leftarrow> scheduler_account_time False k;
     let k = k\<lparr>old_state := SYSBK_OLDAREA (target k)\<rparr>;
     v \<leftarrow> load_area (old_state k) k;
     if CAUSE_EXC v = CAUSE_SYSCALL (target k) then do {
       let v = (if target k = UMPS then set_PC (PC v + WORD_SIZE) v else v);
       k \<leftarrow> store_area (old_state k) v k;
       r \<leftarrow> syscall_switch v k;
       (case r of
          Inl k \<Rightarrow> scheduler_resume False (old_state k) k
        | Inr out \<Rightarrow> Some out) }
     else scheduler_resume False (old_state k) k }"

section \<open>Creating and terminating\<close>

lemma create_process_full:
  assumes "kernel_rel k a" and "a_free a = []"
  shows "create_process state pri cpid k = Some (SYSCALL_FAILURE, k)"
proof -
  have "pcb_alloc (st k) = Some (Null, st k)"
    using pcb_alloc_empty store_relD(1) [OF kernel_relD(1) [OF assms(1)]] assms(2) by simp
  then show ?thesis by (simp add: create_process_def on_st_ret_def)
qed

lemma zero_pcb_areas: "areas_ok s \<Longrightarrow> pcbTable s' = (pcbTable s)(p := zero_pcb (pcbTable s p)) \<Longrightarrow> areas_ok s'"
  by (simp add: areas_ok_def zero_pcb_def)

text \<open>A new process: allocated, filled in, ready, and the last child of its creator.\<close>

definition new_pcb :: "nat \<Rightarrow> state_t \<Rightarrow> s32 \<Rightarrow> pcb_t \<Rightarrow> pcb_t" where
  "new_pcb parent v pri b = (zero_pcb b)\<lparr>p_s := v, original_priority := pri, priority := pri, p_parent := Ptr parent\<rparr>"

lemma create_process_spec:
  assumes r: "kernel_rel k a" and c: "current_proc k = Ptr c" and f: "a_free a = p # fs" and s0: "state \<noteq> 0"
  shows "\<exists>s'. create_process state pri cpid k = Some (SYSCALL_SUCCESS,
      k\<lparr>st := s', mem := (if cpid \<noteq> 0 then (mem k)(cpid := addr_of_pcb k (Ptr p)) else mem k)\<rparr>) \<and>
    kernel_rel (k\<lparr>st := s'\<rparr>) (a\<lparr>a_free := fs, a_ready := prio_insert (prio s') p (a_ready a),
      a_kids := (a_kids a)(c := a_kids a c @ [p])\<rparr>) \<and>
    pcbTable s' = (pcbTable (st k))(p := new_pcb c (areas k state) pri (pcbTable (st k) p))"
proof -
  note d = kernel_relD(1,2) [OF r]
  have cl: "c < MAXPROC" "c \<notin> set (a_free a)" using kernel_relD(3,4) [OF r c] by auto
  have p: "p < MAXPROC" "p \<notin> set fs" using queue_atD(1,2) [OF store_relD(1) [OF d(1)]] f by auto
  have cp: "p \<noteq> c" using cl(2) f by auto
  let ?b = "zero_pcb (pcbTable (st k) p)"
  obtain s1 where s1: "pcb_alloc (st k) = Some (Ptr p, s1)" "store_rel s1 (a\<lparr>a_free := fs\<rparr>) {p, c}"
      "pcbTable s1 = (pcbTable (st k))(p := ?b)"
    using store_rel_alloc [OF d(1) f] c by (auto simp: fun_eq_iff)
  define t where "t = (pcbTable (st k))(p := ?b\<lparr>p_s := areas k state, original_priority := pri\<rparr>)"
  have 2: "store_rel (s1\<lparr>pcbTable := t\<rparr>) (a\<lparr>a_free := fs\<rparr>) {p, c} \<and> areas_ok (s1\<lparr>pcbTable := t\<rparr>)"
    by (rule store_rel_upd [OF s1(2) zero_pcb_areas [OF d(2) s1(3)]]) (auto simp: s1(3) t_def same_links_def)
  then obtain s2 where s2: "scheduler_enqueue_process (Ptr p) (k\<lparr>st := s1\<lparr>pcbTable := t\<rparr>\<rparr>) = Some (k\<lparr>st := s2\<rparr>)"
      "store_rel s2 (a\<lparr>a_free := fs, a_ready := prio_insert (prio s2) p (a_ready a)\<rparr>) {c}" "areas_ok s2"
      "pcbTable s2 = t(p := (t p)\<lparr>priority := pri\<rparr>)"
    using enqueue_spec [of "k\<lparr>st := s1\<lparr>pcbTable := t\<rparr>\<rparr>" "a\<lparr>a_free := fs\<rparr>" "{p, c}" p] cp
    by (auto simp: t_def insert_Diff_if)
  have kp: "a_kids a p = []" using tree_relD(2) [OF store_relD(4) [OF d(1)], of p] f by simp
  obtain s' where s': "pcb_insert_child (Ptr c) (Ptr p) s2 = Some s'"
      "store_rel s' (a\<lparr>a_free := fs, a_ready := prio_insert (prio s2) p (a_ready a),
        a_kids := (a_kids a)(c := a_kids a c @ [p])\<rparr>) {c}"
      "pcbTable s' = (pcbTable s2)(p := (pcbTable s2 p)\<lparr>p_parent := Ptr c\<rparr>)"
    using store_rel_insert_child [OF s2(2), of c p] cl p cp f kp s2(4) by (auto simp: t_def zero_pcb_def)
  have "prio s' = prio s2" using s'(3) by (simp add: prio_def fun_eq_iff)
  moreover have "pcbTable s' = (pcbTable (st k))(p := new_pcb c (areas k state) pri (pcbTable (st k) p))"
    using s'(3) s2(4) by (simp add: t_def new_pcb_def)
  moreover have "areas_ok s'" using s2(3) s'(3) by (simp add: areas_ok_def)
  moreover have "s1\<lparr>pcbTable := (pcbTable (st k))(p := ?b\<lparr>p_s := areas k state, original_priority := pri\<rparr>)\<rparr> = s1\<lparr>pcbTable := t\<rparr>"
    by (simp add: t_def)
  then have "create_process state pri cpid k = Some (SYSCALL_SUCCESS,
      k\<lparr>st := s', mem := (if cpid \<noteq> 0 then (mem k)(cpid := addr_of_pcb k (Ptr p)) else mem k)\<rparr>)"
    using s1(1,3) s2(1) s'(1) c p(1) s0
    by (simp add: create_process_def on_st_ret_def on_st_def load_area_def store_word_def upd_pcb_def
        deref_def addr_of_pcb_def)
  ultimately show ?thesis using s'(2) c by (intro exI [of _ s']) (simp add: kernel_rel_def)
qed

lemma pcb_is_free_kernel:
  "kernel_rel k a \<Longrightarrow> pcb_is_free (Ptr p) (st k) = Some (p \<in> set (a_free a))"
  using pcb_is_free_spec [OF store_relD(1) [OF kernel_relD(1)]] by blast

lemma terminate_free:
  "kernel_rel k a \<Longrightarrow> p \<in> set (a_free a) \<Longrightarrow> terminate_process (Ptr p) k = Some (SYSCALL_FAILURE, k)"
  using pcb_is_free_kernel [of k a p] by (simp add: terminate_process_def)

lemma terminate_alive:
  "kernel_rel k a \<Longrightarrow> p \<notin> set (a_free a) \<Longrightarrow>
   terminate_process (Ptr p) k = map_option (\<lambda>k. (SYSCALL_SUCCESS, k)) (scheduler_kill_process (Ptr p) k)"
  using pcb_is_free_kernel [of k a p]
  by (simp add: terminate_process_def map_option_case split: option.splits bind_splits)

lemma terminate_self:
  "current_proc k = Ptr p \<Longrightarrow> terminate_process Null k = terminate_process (Ptr p) k"
  by (simp add: terminate_process_def)

section \<open>Semaphores\<close>

lemma verhogen_wakes:
  assumes r: "kernel_rel k a" and q: "a_sem a x = p # ps"
  defines "b \<equiv> pcbTable (st k) p"
  shows "\<exists>s'. verhogen x k = Some (k\<lparr>st := s'\<rparr>) \<and>
    kernel_rel (k\<lparr>st := s'\<rparr>) (a\<lparr>a_sem := (a_sem a)(x := ps), a_ready := prio_insert (prio s') p (a_ready a)\<rparr>) \<and>
    pcbTable s' = (pcbTable (st k))(p := b\<lparr>p_semkey := 0, priority := original_priority b\<rparr>)"
proof -
  let ?L = "running (current_proc k)" and ?a1 = "a\<lparr>a_sem := (a_sem a)(x := ps)\<rparr>"
  note d = kernel_relD(1,2) [OF r]
  have "p \<in> blocked (a_sem a)" using q by (auto simp: blocked_def intro!: exI [of _ x])
  then have pL: "p \<notin> ?L" using store_relD(5) [OF d(1)] by (auto simp: places_def)
  obtain i where i: "asl_semd x (st k) = Some (Ptr i)"
    using asl_semd_some [OF store_relD(3) [OF d(1)], of x] q by auto
  obtain s1 where s1: "asl_remove_blocked x (st k) = Some (Ptr p, s1)" "store_rel s1 ?a1 (insert p ?L)"
      "pcbTable s1 = (pcbTable (st k))(p := b\<lparr>p_semkey := 0\<rparr>)"
    using store_rel_unblock [OF d(1) q] unfolding b_def by blast
  have "areas_ok s1" using d(2) s1(3) by (simp add: areas_ok_def b_def)
  then obtain s2 where "scheduler_enqueue_process (Ptr p) (k\<lparr>st := s1\<rparr>) = Some (k\<lparr>st := s2\<rparr>)"
      "store_rel s2 (?a1\<lparr>a_ready := prio_insert (prio s2) p (a_ready a)\<rparr>) ?L" "areas_ok s2"
      "pcbTable s2 = (pcbTable (st k))(p := b\<lparr>p_semkey := 0, priority := original_priority b\<rparr>)"
    using enqueue_spec [of "k\<lparr>st := s1\<rparr>" ?a1 "insert p ?L" p] s1 pL by auto
  then show ?thesis using i s1(1)
    by (intro exI [of _ s2]) (simp add: verhogen_def on_st_ret_def kernel_rel_def)
qed

lemma verhogen_counts:
  assumes "kernel_rel k a" and "a_sem a x = []" and "x \<noteq> 0"
  shows "verhogen x k = Some (k\<lparr>mem := (mem k)(x := mem k x + 1)\<rparr>)"
  using asl_remove_blocked_none(2) [OF store_relD(3) [OF kernel_relD(1) [OF assms(1)]] assms(2)] assms(3)
  by (simp add: verhogen_def load_word_def store_word_def)

lemma passeren_takes: "x \<noteq> 0 \<Longrightarrow> mem k x \<noteq> 0 \<Longrightarrow> passeren x k = Some (k\<lparr>mem := (mem k)(x := mem k x - 1)\<rparr>)"
  by (simp add: passeren_def load_word_def store_word_def)

lemma passeren_blocks: "x \<noteq> 0 \<Longrightarrow> mem k x = 0 \<Longrightarrow> passeren x k = scheduler_block_current x (old_state k) k"
  by (simp add: passeren_def load_word_def)

section \<open>Waiting for a device, registering a handler\<close>

lemma kernel_rel_dev: "kernel_rel k a \<Longrightarrow> kernel_rel (upd_dev d f k) a"
  by (rule kernel_rel_cong) (simp_all add: upd_dev_def)

lemma wait_io_spec:
  fixes rcpt :: bool
  assumes r: "kernel_rel k a" and c: "current_proc k = Ptr p" and o: "old_state k \<noteq> 0"
    and l: "line \<in> set dev_lines" and i: "i \<in> set dev_nums"
  defines "d \<equiv> DEV_REG_ADDR (target k) line i" and "key \<equiv> dev_key k line i rcpt"
  shows "\<exists>k'. wait_io command d (if rcpt then 1 else 0) k = Some k' \<and> current_proc k' = Null \<and>
    kernel_rel k' (a\<lparr>a_sem := (a_sem a)(key := prio_insert (prio (st k)) p (a_sem a key))\<rparr>) \<and>
    p_s (pcbTable (st k') p) = areas k (old_state k) \<and> old_state k' = old_state k \<and>
    target k' = target k \<and> linked k' = linked k \<and>
    devs k' = (devs k)(d := (if line = IL_TERMINAL \<and> \<not> rcpt then (devs k d)\<lparr>dtp_data1 := command\<rparr>
      else (devs k d)\<lparr>dtp_command := command\<rparr>))"
proof -
  let ?f = "\<lambda>x. if line = IL_TERMINAL \<and> \<not> rcpt then x\<lparr>dtp_data1 := command\<rparr> else x\<lparr>dtp_command := command\<rparr>"
  let ?k1 = "upd_dev d ?f k"
  have t: "IS_TERMINAL (target k) d \<longleftrightarrow> line = IL_TERMINAL" using is_terminal_iff [OF l i] by (simp add: d_def)
  have f1: "target ?k1 = target k" "linked ?k1 = linked k" "areas ?k1 = areas k" "old_state ?k1 = old_state k"
      "current_proc ?k1 = current_proc k" "st ?k1 = st k" by (simp_all add: upd_dev_def)
  have key: "interrupts_get_dev_key d (if rcpt then 1 else 0) ?k1 = Some key"
    using get_dev_key_at [OF l i, of ?k1 rcpt] f1 by (simp add: d_def key_def dev_key_def)
  obtain k' where k': "scheduler_block_current key (old_state k) ?k1 = Some k'" "current_proc k' = Null"
      "kernel_rel k' (a\<lparr>a_sem := (a_sem a)(key := prio_insert (prio (st k)) p (a_sem a key))\<rparr>)"
      "kernel_only ?k1 k'" "p_s (pcbTable (st k') p) = areas k (old_state k)"
    using block_spec [OF kernel_rel_dev [OF r, of d ?f], of p "old_state k" key] c o f1 by auto
  have "(if IS_TERMINAL (target k) d then
        (if (if rcpt then 1 else 0 :: u8) \<noteq> 0 then upd_dev d (\<lambda>d. d\<lparr>dtp_command := command\<rparr>) k
         else upd_dev d (\<lambda>d. d\<lparr>dtp_data1 := command\<rparr>) k)
      else upd_dev d (\<lambda>d. d\<lparr>dtp_command := command\<rparr>) k) = ?k1"
    by (simp add: t upd_dev_def)
  then have "wait_io command d (if rcpt then 1 else 0) k = Some k'"
    unfolding wait_io_def Let_def using key k'(1) f1(4) by simp
  moreover have "devs k' = devs ?k1" "old_state k' = old_state k" "target k' = target k" "linked k' = linked k"
    using kernel_only_fields [OF k'(4)] f1 by simp_all
  ultimately show ?thesis using k'(2,3,5) by (simp add: upd_dev_def)
qed

text \<open>On a device that exists, \<open>WAITIO\<close> writes the command and blocks on the device's semaphore.\<close>

lemma wait_io_blocks:
  fixes sub :: u32
  assumes l: "line \<in> set dev_lines" "i \<in> set dev_nums" and d: "d = DEV_REG_ADDR (target k) line i" and s: "sub = 0 \<or> sub = 1"
  shows "\<exists>f. wait_io cmd d (ucast sub) k = scheduler_block_current (dev_key k line i (sub = 1)) (old_state k) (upd_dev d f k)"
proof -
  define f :: "devreg_t \<Rightarrow> devreg_t" where "f = (if IS_TERMINAL (target k) d \<and> (ucast sub :: u8) = 0 then dtp_data1_update (\<lambda>_. cmd)
    else dtp_command_update (\<lambda>_. cmd))"
  have f: "(if IS_TERMINAL (target k) d then
        (if (ucast sub :: u8) \<noteq> 0 then upd_dev d (\<lambda>d. d\<lparr>dtp_command := cmd\<rparr>) k
         else upd_dev d (\<lambda>d. d\<lparr>dtp_data1 := cmd\<rparr>) k)
      else upd_dev d (\<lambda>d. d\<lparr>dtp_command := cmd\<rparr>) k) = upd_dev d f k" by (simp add: f_def)
  have e: "target (upd_dev d f k) = target k" "linked (upd_dev d f k) = linked k" "old_state (upd_dev d f k) = old_state k"
    by (simp_all add: upd_dev_def)
  have u: "ucast sub = (if sub = 1 then 1 else 0 :: u8)" using s by auto
  have "interrupts_get_dev_key d (ucast sub) (upd_dev d f k) = Some (dev_key k line i (sub = 1))"
    using get_dev_key_at [OF l, of "upd_dev d f k" "sub = 1"] e d u by (simp add: dev_key_def)
  then have "wait_io cmd d (ucast sub) k = scheduler_block_current (dev_key k line i (sub = 1)) (old_state k) (upd_dev d f k)"
    unfolding wait_io_def Let_def f by (simp add: e(3))
  then show ?thesis by blast
qed

lemma spec_pass_up_set:
  fixes new_area old_area :: u32
  assumes r: "kernel_rel k a" and c: "current_proc k = Ptr p" and n: "unat exc_type < 3"
    and z: "exc_new_areas (pcbTable (st k) p) ! unat exc_type = 0"
  defines "b \<equiv> pcbTable (st k) p"
  defines "k' \<equiv> k\<lparr>st := (st k)\<lparr>pcbTable := (pcbTable (st k))(p := b
    \<lparr>exc_new_areas := (exc_new_areas b)[unat exc_type := new_area],
     exc_old_areas := (exc_old_areas b)[unat exc_type := old_area]\<rparr>)\<rparr>\<rparr>"
  shows "spec_pass_up exc_type old_area new_area k = Some (SYSCALL_SUCCESS, k') \<and> kernel_rel k' a"
proof -
  have p: "p < MAXPROC" using kernel_relD(3) [OF r c] .
  have len: "length (exc_new_areas b) = 3" "length (exc_old_areas b) = 3"
    using kernel_relD(2) [OF r] by (simp_all add: areas_ok_def b_def)
  have "store_rel (st k') a (running (current_proc k)) \<and> areas_ok (st k')"
    unfolding k'_def kst.select_convs kst.update_convs
    using store_rel_upd [OF kernel_relD(1,2) [OF r], of "pcbTable (st k')"]
    by (simp add: k'_def b_def same_links_def)
  then have "kernel_rel k' a" by (simp add: kernel_rel_def k'_def)
  moreover have "spec_pass_up exc_type old_area new_area k = Some (SYSCALL_SUCCESS, k')"
    using c p n z len
    by (simp add: spec_pass_up_def get_current_def get_pcb_def deref_def upd_current_def on_st_def
        upd_pcb_def k'_def b_def Let_def)
  ultimately show ?thesis by simp
qed

lemma spec_pass_up_again:
  assumes r: "kernel_rel k a" and c: "current_proc k = Ptr p" and n: "unat exc_type < 3"
    and z: "exc_new_areas (pcbTable (st k) p) ! unat exc_type \<noteq> 0"
  shows "spec_pass_up exc_type old_area new_area k =
    map_option (\<lambda>k. (SYSCALL_FAILURE, k)) (scheduler_kill_process (Ptr p) k)"
  using c n z kernel_relD(2) [OF r] kernel_relD(3) [OF r c]
  by (simp add: spec_pass_up_def get_current_def get_pcb_def deref_def areas_ok_def map_option_case
      split: option.splits bind_splits)

section \<open>The handler keeps the invariant\<close>

definition keeps :: "kst \<Rightarrow> kst \<Rightarrow> bool" where
  "keeps k k' \<longleftrightarrow> old_state k' = old_state k \<and> target k' = target k \<and> linked k' = linked k"

definition safe_step :: "kst \<Rightarrow> proc_abs \<Rightarrow> kst option \<Rightarrow> bool" where
  "safe_step k a m \<longleftrightarrow> (\<exists>k' a'. m = Some k' \<and> kernel_rel k' a' \<and> moves k a k' a' \<and> keeps k k')"

lemma safe_stepI: "m = Some k' \<Longrightarrow> kernel_rel k' a' \<Longrightarrow> moves k a k' a' \<Longrightarrow> keeps k k' \<Longrightarrow> safe_step k a m"
  by (auto simp: safe_step_def)

lemma safe_returning:
  assumes "m = Some (r, k')" and "kernel_rel k' a'" and "moves k a k' a'" and "keeps k k'" and "old_state k \<noteq> 0"
  shows "safe_step k a (returning m)"
proof -
  let ?k2 = "k'\<lparr>areas := (areas k')(old_state k' := set_SYSRETURN r (areas k' (old_state k')))\<rparr>"
  have "returning m = Some ?k2"
    using assms by (simp add: returning_def load_area_def store_area_def keeps_def)
  moreover have "kernel_rel ?k2 a'" by (rule kernel_rel_cong [OF assms(2)]) simp_all
  moreover have "moves k a ?k2 a'" using assms(3) by (simp add: moves_def)
  ultimately show ?thesis using assms(4) by (auto simp: safe_step_def keeps_def)
qed

lemma keeps_kernel_only: "kernel_only k k' \<Longrightarrow> keeps k k'"
  using kernel_only_fields by (simp add: keeps_def)

lemma kill_safe:
  assumes "kernel_rel k a" and "p < MAXPROC" "p \<notin> set (a_free a)"
    and "current_proc k = Ptr p \<or> running (current_proc k) \<inter> subtree a p = {}"
  shows "\<exists>k' a'. scheduler_kill_process (Ptr p) k = Some k' \<and> kernel_rel k' a' \<and> moves k a k' a' \<and> keeps k k'"
proof -
  obtain k' a' where k': "scheduler_kill_process (Ptr p) k = Some k'" "kernel_rel k' a'"
      "k' = k\<lparr>st := st k', current_proc := current_proc k'\<rparr>" "moves k a k' a'"
    using kill_process_spec [OF assms] by blast
  show ?thesis using k'(1,2,4) keeps_kernel_only [OF kernel_onlyI [OF k'(3)]] by blast
qed

lemma get_cpu_time_spec:
  assumes r: "kernel_rel k a" and c: "current_proc k = Ptr p" and nz: "user \<noteq> 0" "kern \<noteq> 0" "wallclock \<noteq> 0"
  defines "b \<equiv> pcbTable (st k) p" and "n \<equiv> reads k"
  shows "get_cpu_time user kern wallclock k = Some (k\<lparr>
      st := (st k)\<lparr>pcbTable := (pcbTable (st k))(p := charge True (clock k (Suc n) - switch_tick k) b)\<rparr>,
      mem := (mem k)(wallclock := ucast (ucast (clock k n) - start_tm b), user := ucast (user_tm b),
        kern := ucast (kernel_tm b + ucast (clock k (Suc n) - switch_tick k))),
      switch_tick := clock k (Suc (Suc n)), reads := Suc (Suc (Suc n))\<rparr>)"
proof -
  have p: "p < MAXPROC" using kernel_relD(3) [OF r c] .
  let ?k1 = "k\<lparr>reads := Suc (reads k),
    mem := (mem k)(wallclock := ucast (ucast (clock k n) - start_tm b), user := ucast (user_tm b))\<rparr>"
  have "scheduler_account_time True ?k1 = Some (?k1\<lparr>
      st := (st k)\<lparr>pcbTable := (pcbTable (st k))(p := charge True (clock k (Suc n) - switch_tick k) b)\<rparr>,
      switch_tick := clock k (Suc (Suc n)), reads := Suc (Suc (Suc n))\<rparr>)"
    using account_time_running [of ?k1 p True] c p by (simp add: n_def b_def)
  then show ?thesis using c p nz
    by (simp add: get_cpu_time_def getTODLO_def get_current_def get_pcb_def deref_def store_word_def
        b_def n_def charge_def)
qed

text \<open>
  What the calling process \<open>p\<close> has to respect: the pointers it passes are not \<open>NULL\<close>, the process
  it terminates is not one of its own ancestors, the device it waits for exists, and the kind of
  exception it registers for is one of the three. \<open>v\<close> is the copy of its registers.
\<close>

definition request_ok :: "kst \<Rightarrow> proc_abs \<Rightarrow> nat \<Rightarrow> state_t \<Rightarrow> bool" where
  "request_ok k a p v \<longleftrightarrow>
     (let n = SYSARG0 v; a1 = SYSARG1 v; a2 = SYSARG2 v; a3 = SYSARG3 v; b = pcbTable (st k) p in
      if n = GETCPUTIME then a1 \<noteq> 0 \<and> a2 \<noteq> 0 \<and> a3 \<noteq> 0
      else if n = CREATEPROCESS then a1 \<noteq> 0
      else if n = TERMINATEPROCESS then
        (case pcb_at_addr k a1 of Null \<Rightarrow> True
         | Ptr q \<Rightarrow> q < MAXPROC \<and> (q \<in> set (a_free a) \<or> q = p \<or> p \<notin> subtree a q))
      else if n = VERHOGEN then a1 \<noteq> 0
      else if n = PASSEREN then a1 \<noteq> 0
      else if n = WAITIO then
        (\<exists>line\<in>set dev_lines. \<exists>i\<in>set dev_nums. a2 = DEV_REG_ADDR (target k) line i) \<and> (a3 = 0 \<or> a3 = 1)
      else if n = SPECPASSUP then unat a1 < 3
      else if n = GETPID then True
      else exc_new_areas b ! SPECPASSUP_SYSBK_TYPE \<noteq> 0 \<longrightarrow> exc_old_areas b ! SPECPASSUP_SYSBK_TYPE \<noteq> 0)"

lemma handle_exception_safe:
  assumes r: "kernel_rel k a" and c: "current_proc k = Ptr p" and old: "old \<noteq> 0" and ty: "type < 3"
    and oa: "exc_new_areas (pcbTable (st k) p) ! type \<noteq> 0 \<Longrightarrow> exc_old_areas (pcbTable (st k) p) ! type \<noteq> 0"
  shows "\<exists>v k' a'. scheduler_handle_exception type old k = Some (v, k') \<and> kernel_rel k' a' \<and> moves k a k' a' \<and> keeps k k'"
proof (cases "exc_new_areas (pcbTable (st k) p) ! type = 0")
  case True
  obtain k2 a' where k2: "scheduler_handle_exception type old k = scheduler_dispatch k2" "kernel_rel k2 a'"
      "current_proc k2 = Null" "kernel_only k k2" "moves k a k2 a'"
    using handle_exception_kill [OF r c ty True] by blast
  obtain v k3 a3 where k3: "scheduler_dispatch k2 = Some (v, k3)" "kernel_rel k3 a3" "kernel_only k2 k3" "moves k2 a' k3 a3"
    using dispatch_kernel_rel [OF k2(2,3)] by blast
  show ?thesis using k2(1) k3(1,2) moves_trans [OF k2(5) k3(4)] keeps_kernel_only [OF kernel_only_trans [OF k2(4) k3(3)]] by auto
next
  case False
  obtain v k' ar where k': "scheduler_handle_exception type old k = Some (v, k')" "kernel_rel k' a" "timed (k\<lparr>areas := ar\<rparr>) k'"
    using handle_exception_pass [OF r c old ty False oa [OF False]] by blast
  have "moves k a k' a" by (rule moves_refl) (simp add: timed_fields(3) [OF k'(3)])
  then show ?thesis using k'(1,2) timed_fields [OF k'(3)] by (auto simp: keeps_def)
qed

lemma create_safe:
  assumes r: "kernel_rel k a" and c: "current_proc k = Ptr p" and s: "state \<noteq> 0" and o: "old_state k \<noteq> 0"
  shows "safe_step k a (returning (create_process state pri cpid k))"
proof (cases "a_free a")
  case Nil
  show ?thesis by (rule safe_returning [OF create_process_full [OF r Nil] r moves_refl]) (simp_all add: keeps_def o)
next
  case (Cons q fs)
  let ?a = "\<lambda>s. a\<lparr>a_free := fs, a_ready := prio_insert (prio s) q (a_ready a), a_kids := (a_kids a)(p := a_kids a p @ [q])\<rparr>"
  obtain s' where s': "create_process state pri cpid k = Some (SYSCALL_SUCCESS,
        k\<lparr>st := s', mem := (if cpid \<noteq> 0 then (mem k)(cpid := addr_of_pcb k (Ptr q)) else mem k)\<rparr>)"
      "kernel_rel (k\<lparr>st := s'\<rparr>) (?a s')"
    using create_process_spec [OF r c Cons s] by blast
  have m: "moves k a (k\<lparr>st := s', mem := m\<rparr>) (?a s')" for m
    by (rule moves_step) (simp add: c astep.create [OF Cons])
  show ?thesis
    by (rule safe_returning [OF s'(1) kernel_rel_cong [OF s'(2)] m]) (simp_all add: keeps_def o)
qed

lemma terminate_safe:
  assumes r: "kernel_rel k a" and c: "current_proc k = Ptr p" and o: "old_state k \<noteq> 0"
    and q: "q = Null \<or> (\<exists>i<MAXPROC. q = Ptr i \<and> (i \<in> set (a_free a) \<or> i = p \<or> p \<notin> subtree a i))"
  shows "safe_step k a (returning (terminate_process q k))"
proof -
  have p: "p < MAXPROC" "p \<notin> set (a_free a)" using kernel_relD(3,4) [OF r c] by auto
  obtain i where i: "terminate_process q k = terminate_process (Ptr i) k" "i < MAXPROC"
      "i \<in> set (a_free a) \<or> i = p \<or> p \<notin> subtree a i"
    using q terminate_self [OF c] p(1) by blast
  show ?thesis
  proof (cases "i \<in> set (a_free a)")
    case True
    show ?thesis unfolding i(1)
      by (rule safe_returning [OF terminate_free [OF r True] r moves_refl]) (simp_all add: keeps_def o)
  next
    case False
    then obtain k' a' where k': "scheduler_kill_process (Ptr i) k = Some k'" "kernel_rel k' a'" "moves k a k' a'" "keeps k k'"
      using kill_safe [OF r i(2) False] i(3) c by auto
    then have "terminate_process (Ptr i) k = Some (SYSCALL_SUCCESS, k')" using terminate_alive [OF r False] by simp
    then show ?thesis unfolding i(1) by (rule safe_returning [OF _ k'(2-4) o])
  qed
qed

lemma verhogen_safe:
  assumes r: "kernel_rel k a" and x: "x \<noteq> 0"
  shows "safe_step k a (verhogen x k)"
proof (cases "a_sem a x")
  case Nil
  show ?thesis by (rule safe_stepI [OF verhogen_counts [OF r Nil x] kernel_rel_cong [OF r] moves_refl]) (simp_all add: keeps_def)
next
  case (Cons q qs)
  let ?a = "\<lambda>s. a\<lparr>a_sem := (a_sem a)(x := qs), a_ready := prio_insert (prio s) q (a_ready a)\<rparr>"
  obtain s' where s': "verhogen x k = Some (k\<lparr>st := s'\<rparr>)" "kernel_rel (k\<lparr>st := s'\<rparr>) (?a s')"
    using verhogen_wakes [OF r Cons] by blast
  have "moves k a (k\<lparr>st := s'\<rparr>) (?a s')" by (rule moves_step) (simp add: astep.wake [OF Cons])
  then show ?thesis using safe_stepI [OF s'] by (simp add: keeps_def)
qed

lemma block_safe:
  assumes "kernel_rel k a" and "current_proc k = Ptr p" and "old_state k \<noteq> 0"
  shows "safe_step k a (scheduler_block_current key (old_state k) k)"
proof -
  obtain k' where k': "scheduler_block_current key (old_state k) k = Some k'" "current_proc k' = Null" "kernel_only k k'"
      "kernel_rel k' (a\<lparr>a_sem := (a_sem a)(key := prio_insert (prio (st k)) p (a_sem a key))\<rparr>)"
    using block_spec [OF assms, of key] by blast
  show ?thesis by (rule safe_stepI [OF k'(1,4) block_moves [OF assms(2) k'(2)] keeps_kernel_only [OF k'(3)]])
qed

lemma passeren_safe:
  assumes r: "kernel_rel k a" and c: "current_proc k = Ptr p" and o: "old_state k \<noteq> 0" and x: "x \<noteq> 0"
  shows "safe_step k a (passeren x k)"
proof (cases "mem k x = 0")
  case True
  then show ?thesis using block_safe [OF r c o] passeren_blocks [OF x] by simp
next
  case False
  show ?thesis by (rule safe_stepI [OF passeren_takes [OF x False] kernel_rel_cong [OF r] moves_refl]) (simp_all add: keeps_def)
qed

lemma spec_pass_up_safe:
  assumes r: "kernel_rel k a" and c: "current_proc k = Ptr p" and o: "old_state k \<noteq> 0" and n: "unat ty < 3"
  shows "safe_step k a (returning (spec_pass_up ty oa na k))"
proof (cases "exc_new_areas (pcbTable (st k) p) ! unat ty = 0")
  case True
  note s = spec_pass_up_set [OF r c n True, of oa na]
  show ?thesis by (rule safe_returning [OF s [THEN conjunct1] s [THEN conjunct2] moves_refl]) (simp_all add: keeps_def o)
next
  case False
  have p: "p < MAXPROC" "p \<notin> set (a_free a)" using kernel_relD(3,4) [OF r c] by auto
  obtain k' a' where k': "scheduler_kill_process (Ptr p) k = Some k'" "kernel_rel k' a'" "moves k a k' a'" "keeps k k'"
    using kill_safe [OF r p] c by auto
  then have "spec_pass_up ty oa na k = Some (SYSCALL_FAILURE, k')" using spec_pass_up_again [OF r c n False] by simp
  then show ?thesis by (rule safe_returning [OF _ k'(2-4) o])
qed

lemma get_pid_spec:
  assumes "current_proc k = Ptr p" and "p < MAXPROC"
  shows "get_pid pid ppid k = Some (k\<lparr>mem := (let m = (if pid \<noteq> 0 then (mem k)(pid := addr_of_pcb k (Ptr p)) else mem k) in
     if ppid \<noteq> 0 then m(ppid := addr_of_pcb k (p_parent (pcbTable (st k) p))) else m)\<rparr>)"
  using assms by (simp add: get_pid_def store_word_def get_current_def get_pcb_def deref_def Let_def
      addr_of_pcb_def split: ptr.splits)

definition switch_safe :: "kst \<Rightarrow> proc_abs \<Rightarrow> (kst + state_t \<times> kst) option \<Rightarrow> bool" where
  "switch_safe k a m \<longleftrightarrow> (\<exists>k' a'. (m = Some (Inl k') \<or> (\<exists>v. m = Some (Inr (v, k')))) \<and>
     kernel_rel k' a' \<and> moves k a k' a' \<and> keeps k k')"

lemma switch_safe_Inl: "safe_step k a m \<Longrightarrow> switch_safe k a (map_option Inl m)"
  by (auto simp: safe_step_def switch_safe_def)

lemma wait_io_safe:
  assumes r: "kernel_rel k a" and c: "current_proc k = Ptr p" and o: "old_state k \<noteq> 0"
    and d: "\<exists>line\<in>set dev_lines. \<exists>i\<in>set dev_nums. d = DEV_REG_ADDR (target k) line i" and s: "sub = 0 \<or> sub = (1 :: u32)"
  shows "safe_step k a (wait_io cmd d (ucast sub) k)"
proof -
  obtain line i where l: "line \<in> set dev_lines" "i \<in> set dev_nums" "d = DEV_REG_ADDR (target k) line i" using d by blast
  have "ucast sub = (if sub = 1 then 1 else 0 :: u8)" using s by auto
  then obtain k' key where k': "wait_io cmd d (ucast sub) k = Some k'" "current_proc k' = Null"
      "kernel_rel k' (a\<lparr>a_sem := (a_sem a)(key := prio_insert (prio (st k)) p (a_sem a key))\<rparr>)" "keeps k k'"
    using wait_io_spec [OF r c o l(1,2), of cmd "sub = 1"] l(3) by (auto simp: keeps_def)
  show ?thesis by (rule safe_stepI [OF k'(1,3) block_moves [OF c k'(2)] k'(4)])
qed

lemma kernel_rel_charge:
  assumes "kernel_rel k a"
  shows "kernel_rel (k\<lparr>st := (st k)\<lparr>pcbTable := (pcbTable (st k))(p := charge x d (pcbTable (st k) p))\<rparr>,
    mem := m, switch_tick := t, reads := n\<rparr>) a"
  using store_rel_upd [OF kernel_relD(1,2) [OF assms], of "(pcbTable (st k))(p := charge x d (pcbTable (st k) p))"]
  by (simp add: kernel_rel_def)

lemma get_cpu_time_safe:
  assumes r: "kernel_rel k a" and c: "current_proc k = Ptr p" and "x \<noteq> 0" "y \<noteq> 0" "z \<noteq> 0"
  shows "safe_step k a (get_cpu_time x y z k)"
  by (rule safe_stepI [OF get_cpu_time_spec [OF r c assms(3-5)] kernel_rel_charge [OF r] moves_refl])
    (simp_all add: keeps_def)

lemma get_pid_safe:
  assumes r: "kernel_rel k a" and c: "current_proc k = Ptr p"
  shows "safe_step k a (get_pid x y k)"
  by (rule safe_stepI [OF get_pid_spec [OF c kernel_relD(3) [OF r c]] kernel_rel_cong [OF r] moves_refl]) (simp_all add: keeps_def)

lemma syscall_switch_safe:
  assumes r: "kernel_rel k a" and c: "current_proc k = Ptr p" and o: "old_state k \<noteq> 0"
    and q: "request_ok k a p v"
  shows "switch_safe k a (syscall_switch v k)"
proof -
  define n where "n = SYSARG0 v"
  note S = syscall_switch_def Let_def n_def [symmetric] and Q = q [unfolded request_ok_def Let_def n_def [symmetric]]
  consider "n = GETCPUTIME" | "n = CREATEPROCESS" | "n = TERMINATEPROCESS" | "n = VERHOGEN" | "n = PASSEREN"
    | "n = WAITIO" | "n = SPECPASSUP" | "n = GETPID"
    | "n \<notin> {GETCPUTIME, CREATEPROCESS, TERMINATEPROCESS, VERHOGEN, PASSEREN, WAITIO, SPECPASSUP, GETPID}" by blast
  then show ?thesis
  proof cases
    case 1
    then show ?thesis using switch_safe_Inl [OF get_cpu_time_safe [OF r c]] Q by (simp add: S)
  next
    case 2
    then show ?thesis using switch_safe_Inl [OF create_safe [OF r c _ o]] Q by (simp add: S syscall_nos)
  next
    case 3
    then show ?thesis using switch_safe_Inl [OF terminate_safe [OF r c o]] Q by (simp add: S syscall_nos split: ptr.splits)
  next
    case 4
    then show ?thesis using switch_safe_Inl [OF verhogen_safe [OF r]] Q by (simp add: S syscall_nos)
  next
    case 5
    then show ?thesis using switch_safe_Inl [OF passeren_safe [OF r c o]] Q by (simp add: S syscall_nos)
  next
    case 6
    then show ?thesis using switch_safe_Inl [OF wait_io_safe [OF r c o]] Q by (simp add: S syscall_nos)
  next
    case 7
    then show ?thesis using switch_safe_Inl [OF spec_pass_up_safe [OF r c o]] Q by (simp add: S syscall_nos)
  next
    case 8
    then show ?thesis using switch_safe_Inl [OF get_pid_safe [OF r c]] by (simp add: S syscall_nos)
  next
    case 9
    then have "exc_new_areas (pcbTable (st k) p) ! SPECPASSUP_SYSBK_TYPE \<noteq> 0 \<Longrightarrow> exc_old_areas (pcbTable (st k) p) ! SPECPASSUP_SYSBK_TYPE \<noteq> 0"
      using Q by simp
    then obtain x k' a' where "scheduler_handle_exception SPECPASSUP_SYSBK_TYPE (SYSBK_OLDAREA (target k)) k = Some (x, k')"
        "kernel_rel k' a'" "moves k a k' a'" "keeps k k'"
      using handle_exception_safe [OF r c area_nonzero(2), of SPECPASSUP_SYSBK_TYPE "target k"]
      by (auto simp: SPECPASSUP_SYSBK_TYPE_def)
    then show ?thesis using 9 by (auto simp: S switch_safe_def)
  qed
qed

lemma sysarg_set_PC [simp]:
  "SYSARG0 (set_PC x v) = SYSARG0 v" "SYSARG1 (set_PC x v) = SYSARG1 v" "SYSARG2 (set_PC x v) = SYSARG2 v"
  "SYSARG3 (set_PC x v) = SYSARG3 v"
  by (cases v; simp)+

lemma pcb_at_addr_cong: "target k' = target k \<Longrightarrow> linked k' = linked k \<Longrightarrow> pcb_at_addr k' = pcb_at_addr k"
  by (simp add: pcb_at_addr_def addr_of_pcb_def fun_eq_iff)

lemma request_ok_cong:
  assumes "target k' = target k" "linked k' = linked k"
    and "exc_new_areas (pcbTable (st k') p) = exc_new_areas (pcbTable (st k) p)"
    and "exc_old_areas (pcbTable (st k') p) = exc_old_areas (pcbTable (st k) p)"
    and "SYSARG0 v' = SYSARG0 v" "SYSARG1 v' = SYSARG1 v" "SYSARG2 v' = SYSARG2 v" "SYSARG3 v' = SYSARG3 v"
  shows "request_ok k' a p v' = request_ok k a p v"
  unfolding request_ok_def Let_def pcb_at_addr_cong [OF assms(1,2)] assms(1,3-8) by (rule refl)

lemma resume_safe:
  assumes "kernel_rel k a" and "old_state k \<noteq> 0"
  shows "\<exists>v k' a'. scheduler_resume False (old_state k) k = Some (v, k') \<and> kernel_rel k' a' \<and> moves k a k' a' \<and>
    target k' = target k \<and> linked k' = linked k"
proof -
  obtain v k' rq where k': "scheduler_resume False (old_state k) k = Some (v, k')"
      "kernel_rel k' (a\<lparr>a_ready := rq\<rparr>)" "kernel_only k k'" "moves k a k' (a\<lparr>a_ready := rq\<rparr>)"
    using resume_rel [OF assms(1), of "old_state k" False] assms(2) by blast
  show ?thesis using k'(1,2,4) kernel_only_fields(1,2) [OF k'(3)] by blast
qed

text \<open>
  The handler up to the switch: the time is charged, the copy of the caller's registers is the one it
  goes on with (on uMPS the handler steps over the instruction), and nothing else has changed.
\<close>

definition after_call :: "arch \<Rightarrow> state_t \<Rightarrow> state_t" where
  "after_call ar v = (if ar = UMPS then set_PC (PC v + WORD_SIZE) v else v)"

lemma after_call_args [simp]:
  "SYSARG0 (after_call ar v) = SYSARG0 v" "SYSARG1 (after_call ar v) = SYSARG1 v"
  "SYSARG2 (after_call ar v) = SYSARG2 v" "SYSARG3 (after_call ar v) = SYSARG3 v"
  by (simp_all add: after_call_def)

definition entered :: "kst \<Rightarrow> state_t \<Rightarrow> kst \<Rightarrow> bool" where
  "entered k w k' \<longleftrightarrow> current_proc k' = current_proc k \<and> old_state k' = SYSBK_OLDAREA (target k) \<and>
     target k' = target k \<and> linked k' = linked k \<and> idle_proc_state k' = idle_proc_state k \<and>
     mem k' = mem k \<and> areas k' = (areas k)(SYSBK_OLDAREA (target k) := w) \<and>
     (\<forall>q. p_s (pcbTable (st k') q) = p_s (pcbTable (st k) q) \<and>
       exc_new_areas (pcbTable (st k') q) = exc_new_areas (pcbTable (st k) q) \<and>
       exc_old_areas (pcbTable (st k') q) = exc_old_areas (pcbTable (st k) q))"

lemma syscall_handler_entry:
  assumes r: "kernel_rel k a"
  defines "v \<equiv> areas k (SYSBK_OLDAREA (target k))"
  shows "\<exists>k1. kernel_rel k1 a \<and>
    (if CAUSE_EXC v = CAUSE_SYSCALL (target k) then entered k (after_call (target k) v) k1 \<and>
       syscall_handler k = do {
         r \<leftarrow> syscall_switch (after_call (target k) v) k1;
         (case r of
            Inl k \<Rightarrow> scheduler_resume False (old_state k) k
          | Inr out \<Rightarrow> Some out) }
     else entered k v k1 \<and> syscall_handler k = scheduler_resume False (old_state k1) k1)"
proof -
  let ?old = "SYSBK_OLDAREA (target k)"
  obtain k0 where k0: "scheduler_account_time False k = Some k0" "timed k k0"
    using account_time_spec [OF kernel_rel_current [OF r]] by blast
  note f = timed_fields [OF k0(2)] and g = timed_pcb [OF k0(2)]
  define k1 where "k1 = (\<lambda>w. k0\<lparr>old_state := ?old, areas := (areas k)(?old := w)\<rparr>)"
  have "kernel_rel (k1 w) a" for w
    by (rule kernel_rel_cong [OF timed_kernel_rel [OF k0(2) r]]) (simp_all add: k1_def)
  moreover have "entered k w (k1 w)" for w using f g by (simp add: entered_def k1_def)
  moreover have "k1 v = k0\<lparr>old_state := ?old\<rparr>" using f(6) by (auto simp: k1_def v_def intro!: kst.equality)
  then have "CAUSE_EXC v \<noteq> CAUSE_SYSCALL (target k) \<Longrightarrow> syscall_handler k = scheduler_resume False (old_state (k1 v)) (k1 v)"
    using k0(1) f(1,6) area_nonzero(2) [of "target k"] by (simp add: syscall_handler_def load_area_def v_def)
  moreover have "CAUSE_EXC v = CAUSE_SYSCALL (target k) \<Longrightarrow> syscall_handler k = do {
       r \<leftarrow> syscall_switch (after_call (target k) v) (k1 (after_call (target k) v));
       (case r of
          Inl k \<Rightarrow> scheduler_resume False (old_state k) k
        | Inr out \<Rightarrow> Some out) }"
    using k0(1) f(1,6) area_nonzero(2) [of "target k"]
    by (simp add: syscall_handler_def load_area_def store_area_def v_def k1_def after_call_def Let_def)
  ultimately show ?thesis by meson
qed

lemma syscall_handler_safe:
  assumes r: "kernel_rel k a" and c: "current_proc k = Ptr p"
    and q: "request_ok k a p (areas k (SYSBK_OLDAREA (target k)))"
  shows "\<exists>v k' a'. syscall_handler k = Some (v, k') \<and> kernel_rel k' a' \<and> moves k a k' a' \<and>
    target k' = target k \<and> linked k' = linked k"
proof -
  let ?v = "areas k (SYSBK_OLDAREA (target k))"
  let ?w = "after_call (target k) ?v"
  have res: "\<exists>v k' a'. scheduler_resume False (old_state x) x = Some (v, k') \<and> kernel_rel k' a' \<and> moves k a k' a' \<and>
      target k' = target k \<and> linked k' = linked k"
    if x: "kernel_rel x ax" "old_state x \<noteq> 0" "target x = target k" "linked x = linked k" "moves k a x ax" for x ax
    using resume_safe [OF x(1)] x(2-4) moves_trans [OF x(5)] by (metis (no_types, lifting))
  obtain k1 where k1: "kernel_rel k1 a" "if CAUSE_EXC ?v = CAUSE_SYSCALL (target k) then entered k ?w k1 \<and>
       syscall_handler k = do {
         r \<leftarrow> syscall_switch ?w k1;
         (case r of
            Inl k \<Rightarrow> scheduler_resume False (old_state k) k
          | Inr out \<Rightarrow> Some out) }
     else entered k ?v k1 \<and> syscall_handler k = scheduler_resume False (old_state k1) k1"
    using syscall_handler_entry [OF r] by blast
  have "\<exists>x. entered k x k1" using k1(2) by (auto split: if_splits)
  then have e: "current_proc k1 = current_proc k" "old_state k1 \<noteq> 0" "target k1 = target k" "linked k1 = linked k"
      "exc_new_areas (pcbTable (st k1) p) = exc_new_areas (pcbTable (st k) p)"
      "exc_old_areas (pcbTable (st k1) p) = exc_old_areas (pcbTable (st k) p)"
    using area_nonzero(2) by (auto simp: entered_def)
  show ?thesis
  proof (cases "CAUSE_EXC ?v = CAUSE_SYSCALL (target k)")
    case False
    then show ?thesis using k1(2) res [OF k1(1) e(2-4) moves_refl [OF e(1)]] by simp
  next
    case True
    have "request_ok k1 a p ?w" using q request_ok_cong [OF e(3-6), of ?w ?v a] by simp
    then obtain k3 a3 where k3: "syscall_switch ?w k1 = Some (Inl k3) \<or> (\<exists>x. syscall_switch ?w k1 = Some (Inr (x, k3)))"
        "kernel_rel k3 a3" "keeps k1 k3" "moves k1 a k3 a3"
      using syscall_switch_safe [OF k1(1) _ e(2)] c e(1) unfolding switch_safe_def by metis
    have m: "moves k a k3 a3" using k3(4) moves_from [OF e(1)] by simp
    have f: "old_state k3 \<noteq> 0" "target k3 = target k" "linked k3 = linked k" using k3(3) e by (simp_all add: keeps_def)
    show ?thesis using k1(2) True k3(1,2) m res [OF k3(2) f m] f by auto
  qed
qed

end
