(* ===== verification/Kernel.thy ===== *)
theory Kernel
  imports Syscalls
begin

text \<open>
  \<open>src/exceptions.c\<close> and \<open>src/main.c\<close>, and the kernel as a state machine.

  \<open>main\<close> runs once, from the state the loader leaves; afterwards the machine alternates between a
  user program (or the idle state), which does not touch the kernel's variables, and one run of a
  handler. \<open>kreach\<close> is the set of kernel states between two such runs. The invariant of the
  scheduler holds in all of them, and no handler faults as long as the running program respects
  \<open>request_ok\<close> and the devices respect \<open>expected\<close>.
\<close>

section \<open>The code\<close>

definition trap_exception_handler :: "kst \<Rightarrow> outcome" where
  "trap_exception_handler k =
     scheduler_handle_exception SPECPASSUP_TRAP_TYPE (PGMTRAP_OLDAREA (target k)) k"

definition tlb_exception_handler :: "kst \<Rightarrow> outcome" where
  "tlb_exception_handler k =
     scheduler_handle_exception SPECPASSUP_TLB_TYPE (TLB_OLDAREA (target k)) k"

definition new_area_state :: "kst \<Rightarrow> u32 \<Rightarrow> state_t \<Rightarrow> state_t" where
  "new_area_state k handler v =
     (let v = zero_state v;
          v = set_PC handler v;
          v = set_SP (RAM_TOP (target k) (mem k)) v;
          v = set_STATUS (KERNEL_MODE v) v;
          v = set_STATUS (ALL_INT_DISABLE v) v;
          v = set_VM (VM v AND VM_OFF (target k)) v
      in v)"

definition INIT_NEW_AREA :: "u32 \<Rightarrow> u32 \<Rightarrow> kst \<Rightarrow> kst option" where
  "INIT_NEW_AREA area handler k = do {
     v \<leftarrow> load_area area k;
     store_area area (new_area_state k handler v) k }"

definition main :: "kst \<Rightarrow> outcome" where
  "main k = do {
     k \<leftarrow> INIT_NEW_AREA (INT_NEWAREA (target k)) (interrupts_handler_code (linked k)) k;
     k \<leftarrow> INIT_NEW_AREA (TLB_NEWAREA (target k)) (tlb_exception_handler_code (linked k)) k;
     k \<leftarrow> INIT_NEW_AREA (PGMTRAP_NEWAREA (target k)) (trap_exception_handler_code (linked k)) k;
     k \<leftarrow> INIT_NEW_AREA (SYSBK_NEWAREA (target k)) (syscall_handler_code (linked k)) k;
     k \<leftarrow> on_st pcb_init k;
     k \<leftarrow> on_st asl_init k;
     k \<leftarrow> scheduler_init (test_code (linked k)) k;
     scheduler_run k }"

section \<open>Booting\<close>

lemma init_new_area: "area \<noteq> 0 \<Longrightarrow>
   INIT_NEW_AREA area h k = Some (k\<lparr>areas := (areas k)(area := new_area_state k h (areas k area))\<rparr>)"
  by (simp add: INIT_NEW_AREA_def load_area_def store_area_def)

lemma new_area_PC: "PC (new_area_state k h v) = h"
  by (cases v) (simp_all add: new_area_state_def Let_def)

lemma new_area_nonzero: "INT_NEWAREA ar \<noteq> 0" "SYSBK_NEWAREA ar \<noteq> 0" "PGMTRAP_NEWAREA ar \<noteq> 0" "TLB_NEWAREA ar \<noteq> 0"
  by (cases ar; simp add: area_defs)+

lemma new_area_distinct:
  "INT_NEWAREA ar \<noteq> TLB_NEWAREA ar" "INT_NEWAREA ar \<noteq> PGMTRAP_NEWAREA ar" "INT_NEWAREA ar \<noteq> SYSBK_NEWAREA ar"
  "TLB_NEWAREA ar \<noteq> PGMTRAP_NEWAREA ar" "TLB_NEWAREA ar \<noteq> SYSBK_NEWAREA ar" "PGMTRAP_NEWAREA ar \<noteq> SYSBK_NEWAREA ar"
  by (cases ar; simp add: area_defs)+

definition user_state :: "arch \<Rightarrow> u32 \<Rightarrow> state_t \<Rightarrow> state_t" where
  "user_state ar code v =
     (let v = set_PC code v;
          v = set_STATUS (KERNEL_MODE v) v;
          v = set_STATUS (ALL_INT_ENABLE v) v;
          v = set_VM (VM v AND VM_OFF ar) v
      in v)"

lemma scheduler_init_spec:
  fixes code :: u32
  assumes r: "store_rel (st k) a {}" "areas_ok (st k)" and f: "a_free a = p # fs" and q: "a_ready a = []"
  defines "v \<equiv> user_state (target k) code (set_SP (RAM_TOP (target k) (mem k) - FRAME_SIZE) (cpu k (Suc (reads k))))"
  shows "\<exists>s'. scheduler_init code k = Some (k\<lparr>
      idle_proc_state := user_state (target k) (idle_process_code (linked k)) (cpu k (reads k)),
      reads := Suc (Suc (reads k)), st := s'\<rparr>) \<and>
    store_rel s' (a\<lparr>a_free := fs, a_ready := [p]\<rparr>) {} \<and> areas_ok s' \<and>
    pcbTable s' = (pcbTable (st k))(p := (zero_pcb (pcbTable (st k) p))
      \<lparr>p_s := v, original_priority := DEFAULT_PRIORITY, priority := DEFAULT_PRIORITY\<rparr>)"
proof -
  have p: "p < MAXPROC" using queue_atD(2) [OF store_relD(1) [OF r(1)]] f by simp
  obtain s1 where s1: "pcb_alloc (st k) = Some (Ptr p, s1)" "store_rel s1 (a\<lparr>a_free := fs\<rparr>) {p}"
      "pcbTable s1 = (pcbTable (st k))(p := zero_pcb (pcbTable (st k) p))"
    using store_rel_alloc [OF r(1) f] by (auto simp: fun_eq_iff)
  define t where "t = (pcbTable (st k))(p := (zero_pcb (pcbTable (st k) p))\<lparr>p_s := v, original_priority := DEFAULT_PRIORITY\<rparr>)"
  define k1 where "k1 = k\<lparr>
      idle_proc_state := user_state (target k) (idle_process_code (linked k)) (cpu k (reads k)),
      reads := Suc (Suc (reads k)), st := s1\<lparr>pcbTable := t\<rparr>\<rparr>"
  have "store_rel (s1\<lparr>pcbTable := t\<rparr>) (a\<lparr>a_free := fs\<rparr>) {p} \<and> areas_ok (s1\<lparr>pcbTable := t\<rparr>)"
    by (rule store_rel_upd [OF s1(2) zero_pcb_areas [OF r(2) s1(3)]]) (auto simp: s1(3) t_def same_links_def)
  then obtain s' where s': "scheduler_enqueue_process (Ptr p) k1 = Some (k1\<lparr>st := s'\<rparr>)"
      "store_rel s' (a\<lparr>a_free := fs, a_ready := prio_insert (prio s') p []\<rparr>) {}" "areas_ok s'"
      "pcbTable s' = t(p := (t p)\<lparr>priority := original_priority (t p)\<rparr>)"
    using enqueue_spec [of k1 "a\<lparr>a_free := fs\<rparr>" "{p}" p] q by (auto simp: k1_def)
  have "scheduler_init code k = scheduler_enqueue_process (Ptr p) k1"
    using s1(1,3) p
    by (simp add: scheduler_init_def STST_def on_st_ret_def on_st_def upd_pcb_def deref_def Let_def
        user_state_def k1_def t_def v_def)
  then show ?thesis using s' by (auto simp: k1_def t_def prio_insert_def)
qed

text \<open>
  \<open>main\<close> on the loader's state gives the processor to the first process, on the last entry of the
  table, with nothing else ready or blocked.
\<close>

definition boots :: "kst \<Rightarrow> bool" where
  "boots k \<longleftrightarrow> st k = static_store (target k) \<and> current_proc k = Null"

definition running_abs :: proc_abs where
  "running_abs = \<lparr>a_free = rev [0..<MAXPROC - 1], a_ready = [], a_sem = (\<lambda>_. []), a_kids = (\<lambda>_. [])\<rparr>"

lemma boot_free: "a_free boot_abs = (MAXPROC - 1) # rev [0..<MAXPROC - 1]"
  by (simp add: boot_abs_def MAXPROC_def upt_rec)

lemma main_spec:
  assumes "boots k"
  defines "v \<equiv> user_state (target k) (test_code (linked k))
    (set_SP (RAM_TOP (target k) (mem k) - FRAME_SIZE) (cpu k (Suc (reads k))))"
  shows "\<exists>k'. main k = Some (v, k') \<and> kernel_rel k' running_abs \<and> current_proc k' = Ptr (MAXPROC - 1) \<and>
    target k' = target k \<and> linked k' = linked k \<and> mem k' = mem k \<and> timer k' = TIME_SLICE k \<and>
    idle_proc_state k' = user_state (target k) (idle_process_code (linked k)) (cpu k (reads k)) \<and>
    (\<forall>(area, h) \<in> {(INT_NEWAREA (target k), interrupts_handler_code (linked k)),
        (TLB_NEWAREA (target k), tlb_exception_handler_code (linked k)),
        (PGMTRAP_NEWAREA (target k), trap_exception_handler_code (linked k)),
        (SYSBK_NEWAREA (target k), syscall_handler_code (linked k))}.
      areas k' area = new_area_state k h (areas k area)) \<and>
    (\<forall>q. original_priority (pcbTable (st k') q) = (if q = MAXPROC - 1 then DEFAULT_PRIORITY else 0) \<and>
       exc_new_areas (pcbTable (st k') q) = [0, 0, 0])"
proof -
  let ?ar = "target k" and ?n = "\<lambda>h a. new_area_state k h (areas k a)"
  have st: "st k = static_store ?ar" and cur: "current_proc k = Null" using assms(1) by (auto simp: boots_def)
  obtain s1 s2 where s: "pcb_init (st k) = Some s1" "asl_init s1 = Some s2" "store_rel s2 boot_abs {}" "areas_ok s2"
      "\<forall>q. original_priority (pcbTable s2 q) = 0 \<and> exc_new_areas (pcbTable s2 q) = [0, 0, 0]"
    using boot_store [of ?ar] st by (auto simp: areas_ok_def static_store_def)
  define ars where "ars = (areas k)(INT_NEWAREA ?ar := ?n (interrupts_handler_code (linked k)) (INT_NEWAREA ?ar),
      TLB_NEWAREA ?ar := ?n (tlb_exception_handler_code (linked k)) (TLB_NEWAREA ?ar),
      PGMTRAP_NEWAREA ?ar := ?n (trap_exception_handler_code (linked k)) (PGMTRAP_NEWAREA ?ar),
      SYSBK_NEWAREA ?ar := ?n (syscall_handler_code (linked k)) (SYSBK_NEWAREA ?ar))"
  define k2 where "k2 = k\<lparr>areas := ars, st := s2\<rparr>"
  note dist = new_area_distinct [of ?ar] new_area_distinct [of ?ar, symmetric]
  have n: "new_area_state (k\<lparr>areas := x\<rparr>) = new_area_state k" for x by (simp add: new_area_state_def fun_eq_iff)
  obtain s3 where s3: "scheduler_init (test_code (linked k)) k2 = Some (k2\<lparr>
        idle_proc_state := user_state ?ar (idle_process_code (linked k)) (cpu k (reads k)),
        reads := Suc (Suc (reads k)), st := s3\<rparr>)"
      "store_rel s3 (boot_abs\<lparr>a_free := rev [0..<MAXPROC - 1], a_ready := [MAXPROC - 1]\<rparr>) {}" "areas_ok s3"
      "p_s (pcbTable s3 (MAXPROC - 1)) = v"
      "\<forall>q. original_priority (pcbTable s3 q) = (if q = MAXPROC - 1 then DEFAULT_PRIORITY else 0) \<and>
        exc_new_areas (pcbTable s3 q) = [0, 0, 0]"
    using scheduler_init_spec [of k2 boot_abs "MAXPROC - 1" "rev [0..<MAXPROC - 1]" "test_code (linked k)"] s boot_free
    by (auto simp: k2_def v_def boot_abs_def zero_pcb_def)
  define k3 where "k3 = k2\<lparr>
        idle_proc_state := user_state ?ar (idle_process_code (linked k)) (cpu k (reads k)),
        reads := Suc (Suc (reads k)), st := s3\<rparr>"
  have "main k = scheduler_run k3"
    using s(1,2) s3(1)
    by (simp add: main_def init_new_area new_area_nonzero n on_st_def ars_def k2_def k3_def dist)
  moreover obtain k' where k': "scheduler_run k3 = Some (v, k')" "kernel_rel k' (boot_abs\<lparr>a_free := rev [0..<MAXPROC - 1], a_ready := []\<rparr>)"
      "current_proc k' = Ptr (MAXPROC - 1)" "timer k' = TIME_SLICE k3" "kernel_only k3 k'"
      "\<forall>q. original_priority (pcbTable (st k') q) = original_priority (pcbTable s3 q) \<and>
        exc_new_areas (pcbTable (st k') q) = exc_new_areas (pcbTable s3 q)"
    using run_kernel_rel [of k3 "boot_abs\<lparr>a_free := rev [0..<MAXPROC - 1], a_ready := [MAXPROC - 1]\<rparr>" "MAXPROC - 1" "[]"] s3(2-4)
    by (auto simp: k3_def)
  moreover have "boot_abs\<lparr>a_free := rev [0..<MAXPROC - 1], a_ready := []\<rparr> = running_abs"
    by (simp add: boot_abs_def running_abs_def)
  moreover have "TIME_SLICE k3 = TIME_SLICE k" by (simp add: TIME_SLICE_def k3_def k2_def)
  ultimately show ?thesis using kernel_only_fields [OF k'(5)] dist s3(5) by (auto simp: k3_def k2_def ars_def)
qed

section \<open>The kernel as a state machine\<close>

text \<open>
  Between two runs of the kernel the machine may change the registers it saves, memory, the devices
  and the clock, but not the kernel's variables.
\<close>

definition user_run :: "kst \<Rightarrow> kst \<Rightarrow> bool" where
  "user_run k k' \<longleftrightarrow> target k' = target k \<and> linked k' = linked k \<and> st k' = st k \<and>
     current_proc k' = current_proc k \<and> switch_tick k' = switch_tick k \<and>
     idle_proc_state k' = idle_proc_state k \<and> old_state k' = old_state k"

datatype event = SysBk | Interrupt | PgmTrap | Tlb

fun handler :: "event \<Rightarrow> kst \<Rightarrow> outcome" where
  "handler SysBk = syscall_handler"
| "handler Interrupt = interrupts_handler"
| "handler PgmTrap = trap_exception_handler"
| "handler Tlb = tlb_exception_handler"

text \<open>
  When a handler may be entered: the idle state raises interrupts only, a running program makes
  requests that respect \<open>request_ok\<close>, a device interrupts only if a process waits for it, and a
  program that has registered an area for an exception has also given the one to save the state in.
\<close>

definition passes_up :: "nat \<Rightarrow> kst \<Rightarrow> bool" where
  "passes_up type k \<longleftrightarrow> (case current_proc k of Null \<Rightarrow> False
     | Ptr p \<Rightarrow> exc_new_areas (pcbTable (st k) p) ! type \<noteq> 0 \<longrightarrow> exc_old_areas (pcbTable (st k) p) ! type \<noteq> 0)"

fun admissible :: "event \<Rightarrow> kst \<Rightarrow> proc_abs \<Rightarrow> bool" where
  "admissible SysBk k a = (case current_proc k of Null \<Rightarrow> False
     | Ptr p \<Rightarrow> request_ok k a p (areas k (SYSBK_OLDAREA (target k))))"
| "admissible Interrupt k a = expected k a"
| "admissible PgmTrap k a = passes_up SPECPASSUP_TRAP_TYPE k"
| "admissible Tlb k a = passes_up SPECPASSUP_TLB_TYPE k"

inductive kreach :: "kst \<Rightarrow> bool" where
  boot: "boots k \<Longrightarrow> main k = Some (v, k') \<Longrightarrow> kreach k'"
| step: "kreach k \<Longrightarrow> user_run k k1 \<Longrightarrow> (\<And>a. kernel_rel k1 a \<Longrightarrow> admissible e k1 a) \<Longrightarrow>
    handler e k1 = Some (v, k') \<Longrightarrow> kreach k'"

lemma user_run_kernel_rel: "user_run k k' \<Longrightarrow> kernel_rel k a \<Longrightarrow> kernel_rel k' a"
  by (rule kernel_rel_cong) (simp_all add: user_run_def)

lemma handler_safe:
  assumes r: "kernel_rel k a" and e: "admissible e k a"
  shows "\<exists>v k' a'. handler e k = Some (v, k') \<and> kernel_rel k' a' \<and> moves k a k' a' \<and>
    target k' = target k \<and> linked k' = linked k"
proof (cases e)
  case SysBk
  then obtain p where "current_proc k = Ptr p" using e by (cases "current_proc k") auto
  then show ?thesis using syscall_handler_safe [OF r] e SysBk by simp
next
  case Interrupt
  then show ?thesis using interrupts_handler_rel [OF r] e by auto
next
  case PgmTrap
  then obtain p where "current_proc k = Ptr p" using e by (cases "current_proc k") (auto simp: passes_up_def)
  then show ?thesis using handle_exception_safe [OF r _ area_nonzero(3), of p SPECPASSUP_TRAP_TYPE "target k"] e PgmTrap
    by (auto simp: passes_up_def keeps_def trap_exception_handler_def SPECPASSUP_TRAP_TYPE_def)
next
  case Tlb
  then obtain p where "current_proc k = Ptr p" using e by (cases "current_proc k") (auto simp: passes_up_def)
  then show ?thesis using handle_exception_safe [OF r _ area_nonzero(4), of p SPECPASSUP_TLB_TYPE "target k"] e Tlb
    by (auto simp: passes_up_def keeps_def tlb_exception_handler_def SPECPASSUP_TLB_TYPE_def)
qed

lemma kreach_invariant: "kreach k \<Longrightarrow> \<exists>a. kernel_rel k a"
proof (induction rule: kreach.induct)
  case (boot k v k')
  then show ?case using main_spec [OF boot(1)] by auto
next
  case (step k k1 e v k')
  then obtain a where "kernel_rel k1 a" using user_run_kernel_rel by blast
  then show ?case using handler_safe [of k1 a e] step by auto
qed

section \<open>Sample states\<close>

text \<open>
  The state after booting; after the first process has created a child; and after it has blocked on
  the semaphore \<open>0x100\<close> or on a device and the child runs. They are the inputs at which the
  properties are instantiated.
\<close>

definition demo_run :: "arch \<Rightarrow> kst" where
  "demo_run ar = snd (the (main (demo_kst ar)))"

definition demo_two :: "arch \<Rightarrow> kst" where
  "demo_two ar = snd (the (create_process 4 1 0 (demo_run ar)))"

definition demo_wait :: "arch \<Rightarrow> u32 \<Rightarrow> kst" where
  "demo_wait ar key = snd (the (scheduler_dispatch (the (scheduler_block_current key 4 (demo_two ar)))))"

definition two_abs :: proc_abs where
  "two_abs = \<lparr>a_free = rev [0..<18], a_ready = [18], a_sem = (\<lambda>_. []), a_kids = (\<lambda>_. [])(19 := [18])\<rparr>"

definition wait_abs :: "u32 \<Rightarrow> proc_abs" where
  "wait_abs key = \<lparr>a_free = rev [0..<18], a_ready = [], a_sem = (\<lambda>_. [])(key := [19]), a_kids = (\<lambda>_. [])(19 := [18])\<rparr>"

lemma demo_boots: "boots (demo_kst ar)" "target (demo_kst ar) = ar"
  by (simp_all add: boots_def demo_kst_def)

lemma demo_run:
  shows "kernel_rel (demo_run ar) running_abs" "current_proc (demo_run ar) = Ptr 19"
    "target (demo_run ar) = ar" "kreach (demo_run ar)"
    "original_priority (pcbTable (st (demo_run ar)) q) = (if q = 19 then 1 else 0)"
    "exc_new_areas (pcbTable (st (demo_run ar)) q) = [0, 0, 0]"
proof -
  obtain v k' where k': "main (demo_kst ar) = Some (v, k')" "kernel_rel k' running_abs" "current_proc k' = Ptr (MAXPROC - 1)"
      "target k' = ar" "\<forall>q. original_priority (pcbTable (st k') q) = (if q = MAXPROC - 1 then DEFAULT_PRIORITY else 0) \<and>
        exc_new_areas (pcbTable (st k') q) = [0, 0, 0]"
    using main_spec [OF demo_boots(1), of ar] demo_boots(2) [of ar] by auto
  then show "kernel_rel (demo_run ar) running_abs" "current_proc (demo_run ar) = Ptr 19" "target (demo_run ar) = ar"
      "kreach (demo_run ar)" "original_priority (pcbTable (st (demo_run ar)) q) = (if q = 19 then 1 else 0)"
      "exc_new_areas (pcbTable (st (demo_run ar)) q) = [0, 0, 0]"
    using kreach.boot [OF demo_boots(1) k'(1)] by (simp_all add: demo_run_def MAXPROC_def DEFAULT_PRIORITY_def)
qed

lemma demo_two:
  shows "kernel_rel (demo_two ar) two_abs" "current_proc (demo_two ar) = Ptr 19" "target (demo_two ar) = ar"
    "priority (pcbTable (st (demo_two ar)) 18) = 1" "original_priority (pcbTable (st (demo_two ar)) q) = (if q \<in> {18, 19} then 1 else 0)"
proof -
  have f: "a_free running_abs = 18 # rev [0..<18]" by (simp add: running_abs_def MAXPROC_def upt_rec)
  obtain s' where s': "create_process 4 1 0 (demo_run ar) = Some (SYSCALL_SUCCESS, (demo_run ar)\<lparr>st := s', mem := mem (demo_run ar)\<rparr>)"
      "kernel_rel ((demo_run ar)\<lparr>st := s'\<rparr>) (running_abs\<lparr>a_free := rev [0..<18], a_ready := prio_insert (prio s') 18 [],
        a_kids := (\<lambda>_. [])(19 := [18])\<rparr>)"
      "pcbTable s' = (pcbTable (st (demo_run ar)))(18 := new_pcb 19 (areas (demo_run ar) 4) 1 (pcbTable (st (demo_run ar)) 18))"
    using create_process_spec [OF demo_run(1,2) f, of 4 1 0 ar] by (auto simp: running_abs_def)
  have "running_abs\<lparr>a_free := rev [0..<18], a_ready := prio_insert (prio s') 18 [], a_kids := (\<lambda>_. [])(19 := [18])\<rparr> = two_abs"
    by (simp add: two_abs_def running_abs_def prio_insert_def)
  then show "kernel_rel (demo_two ar) two_abs" "current_proc (demo_two ar) = Ptr 19" "target (demo_two ar) = ar"
      "priority (pcbTable (st (demo_two ar)) 18) = 1" "original_priority (pcbTable (st (demo_two ar)) q) = (if q \<in> {18, 19} then 1 else 0)"
    using s' demo_run(2,3,5) by (simp_all add: demo_two_def new_pcb_def)
qed

lemma demo_wait:
  shows "kernel_rel (demo_wait ar key) (wait_abs key)" "current_proc (demo_wait ar key) = Ptr 18"
    "target (demo_wait ar key) = ar" "linked (demo_wait ar key) = linked (demo_two ar)"
    "devs (demo_wait ar key) = devs (demo_two ar)"
proof -
  obtain k1 where k1: "scheduler_block_current key 4 (demo_two ar) = Some k1" "current_proc k1 = Null"
      "kernel_rel k1 (two_abs\<lparr>a_sem := (\<lambda>_. [])(key := [19])\<rparr>)" "kernel_only (demo_two ar) k1"
    using block_spec [OF demo_two(1,2), of 4 key] by (auto simp: two_abs_def prio_insert_def)
  obtain v k2 where k2: "scheduler_dispatch k1 = Some (v, k2)"
      "kernel_rel k2 (two_abs\<lparr>a_sem := (\<lambda>_. [])(key := [19]), a_ready := []\<rparr>)" "current_proc k2 = Ptr 18" "kernel_only k1 k2"
    using dispatch_kernel_rel [OF k1(3,2)] by (auto simp: two_abs_def)
  have e: "demo_wait ar key = k2" using k1(1) k2(1) by (simp add: demo_wait_def)
  have "two_abs\<lparr>a_sem := (\<lambda>_. [])(key := [19]), a_ready := []\<rparr> = wait_abs key" by (simp add: two_abs_def wait_abs_def)
  then show "kernel_rel (demo_wait ar key) (wait_abs key)" "current_proc (demo_wait ar key) = Ptr 18"
      "target (demo_wait ar key) = ar" "linked (demo_wait ar key) = linked (demo_two ar)"
      "devs (demo_wait ar key) = devs (demo_two ar)"
    using k2 e kernel_only_fields(1,2,8) [OF kernel_only_trans [OF k1(4) k2(4)]] demo_two(3) by simp_all
qed

end
