(* ===== verification/Scheduling.thy ===== *)
theory Scheduling
  imports Kernel
begin

text \<open>
  What the scheduler promises: which process runs next, what a process that keeps the processor finds,
  how time is charged, and that a ready process does not wait forever.
\<close>

section \<open>Scheduling\<close>

lemma sint_Suc:
  assumes "(x :: s32) \<noteq> 0x7FFFFFFF"
  shows "sint (x + 1) = sint x + 1"
proof -
  have b: "- (2 ^ 31) \<le> sint x" "sint x < 2 ^ 31" using sint_ge [of x] sint_lt [of x] by simp_all
  have "sint x \<noteq> 2 ^ 31 - 1"
  proof
    assume "sint x = 2 ^ 31 - 1"
    then have "(of_int (sint x) :: s32) = of_int (2 ^ 31 - 1)" by (rule arg_cong)
    then show False using assms by simp
  qed
  then show ?thesis using b by (simp add: sint_word_ariths(1) signed_take_bit_int_eq_self)
qed

lemma aged_sorted:
  assumes "sorted_wrt (\<lambda>p q. prio s q \<le> prio s p) rq" and "\<forall>q\<in>set rq. priority (pcbTable s q) \<noteq> 0x7FFFFFFF"
  shows "sorted_wrt (\<lambda>p q. aged_prio s rq q \<le> aged_prio s rq p) rq"
proof (rule sorted_wrt_mono_rel [OF _ assms(1)])
  show "aged_prio s rq q \<le> aged_prio s rq p" if "p \<in> set rq" "q \<in> set rq" "prio s q \<le> prio s p" for p q
    using that assms(2) sint_Suc [of "priority (pcbTable s q)"] sint_Suc [of "priority (pcbTable s p)"]
    by (simp add: aged_prio_def prio_def)
qed

lemma next_queue_sorted:
  assumes "sorted_wrt (\<lambda>p q. prio s q \<le> prio s p) rq" and "\<forall>q\<in>set rq. priority (pcbTable s q) \<noteq> 0x7FFFFFFF"
  shows "sorted_wrt (\<lambda>p q. aged_prio s rq q \<le> aged_prio s rq p) (next_queue s p rq)"
  unfolding next_queue_def by (rule prio_insert_sorted [OF aged_sorted [OF assms]])

lemma preempt_spec:
  assumes r: "kernel_rel k a" and c: "current_proc k = Ptr p" and old: "old \<noteq> 0"
    and s: "ready_sorted k a" and m: "\<forall>q\<in>set (a_ready a). priority (pcbTable (st k) q) \<noteq> 0x7FFFFFFF"
  shows "\<exists>q rq v k'. scheduler_resume True old k = Some (v, k') \<and> current_proc k' = Ptr q \<and>
    v = (if q = p then areas k old else p_s (pcbTable (st k) q)) \<and>
    kernel_rel k' (a\<lparr>a_ready := rq\<rparr>) \<and> ready_sorted k' (a\<lparr>a_ready := rq\<rparr>) \<and>
    mset (q # rq) = add_mset p (mset (a_ready a)) \<and>
    (\<forall>x\<in>insert p (set (a_ready a)). aged_prio (st k) (a_ready a) x \<le> aged_prio (st k) (a_ready a) q) \<and>
    p_s (pcbTable (st k') p) = areas k old \<and> timer k' = TIME_SLICE k \<and>
    (\<forall>x\<in>insert p (set (a_ready a)). prio (st k') x = aged_prio (st k) (a_ready a) x) \<and> same_base k k'"
proof -
  let ?f = "aged_prio (st k) (a_ready a)" and ?nq = "next_queue (st k) p (a_ready a)"
  obtain k' where k': "scheduler_resume True old k =
        Some (if hd ?nq = p then areas k old else p_s (pcbTable (st k) (hd ?nq)), k')"
      "kernel_rel k' (a\<lparr>a_ready := tl ?nq\<rparr>)" "current_proc k' = Ptr (hd ?nq)" "timer k' = TIME_SLICE k"
      "p_s (pcbTable (st k') p) = areas k old" "\<forall>q\<in>insert p (set (a_ready a)). prio (st k') q = ?f q"
      "same_base k k'"
    using resume_preempt [OF r c old] by blast
  have nq: "?nq = hd ?nq # tl ?nq" by (rule next_queue_Cons)
  have st: "set ?nq = insert p (set (a_ready a))" by (simp add: next_queue_def)
  have so: "sorted_wrt (\<lambda>p q. ?f q \<le> ?f p) (hd ?nq # tl ?nq)"
    using next_queue_sorted [OF s [unfolded ready_sorted_def] m] nq by simp
  have max: "?f x \<le> ?f (hd ?nq)" if "x \<in> insert p (set (a_ready a))" for x
  proof -
    have "x \<in> set (hd ?nq # tl ?nq)" using that st nq by metis
    then show ?thesis using so by auto
  qed
  have "sorted_wrt (\<lambda>p q. prio (st k') q \<le> prio (st k') p) (tl ?nq)"
  proof (rule sorted_wrt_mono_rel [of "tl ?nq" "\<lambda>p q. ?f q \<le> ?f p"])
    show "sorted_wrt (\<lambda>p q. ?f q \<le> ?f p) (tl ?nq)" using so by simp
    show "prio (st k') q \<le> prio (st k') x" if "x \<in> set (tl ?nq)" "q \<in> set (tl ?nq)" "?f q \<le> ?f x" for x q
    proof -
      have "set (tl ?nq) \<subseteq> insert p (set (a_ready a))" using st nq by (metis set_subset_Cons)
      then have "x \<in> insert p (set (a_ready a))" "q \<in> insert p (set (a_ready a))" using that(1,2) by blast+
      then show ?thesis using that(3) k'(6) by metis
    qed
  qed
  moreover have "mset (hd ?nq # tl ?nq) = add_mset p (mset (a_ready a))" using nq by (metis mset_prio_insert next_queue_def)
  ultimately show ?thesis using k' max unfolding ready_sorted_def
    by (intro exI [of _ "hd ?nq"] exI [of _ "tl ?nq"] exI [of _ k'] exI) (intro conjI; simp)
qed

text \<open>
  C11. When a time slice ends and the ready queue is ordered, the priority of every process that
  waited is one more than before, the one that was running is back at its original priority, and the
  process that runs next is one of highest priority among them all. The queue stays ordered, the state of the interrupted
  process is saved, and the chosen one continues where it was. (No waiting process is at the largest
  \<open>int\<close>, where aging would wrap around.)
\<close>

theorem preempt_choice:
  assumes r: "kernel_rel k a" and c: "current_proc k = Ptr p" and old: "old \<noteq> 0"
    and s: "ready_sorted k a" and m: "\<forall>q\<in>set (a_ready a). priority (pcbTable (st k) q) \<noteq> 0x7FFFFFFF"
  shows "\<exists>q rq v k'. scheduler_resume True old k = Some (v, k') \<and> current_proc k' = Ptr q \<and>
    v = (if q = p then areas k old else p_s (pcbTable (st k) q)) \<and>
    kernel_rel k' (a\<lparr>a_ready := rq\<rparr>) \<and> ready_sorted k' (a\<lparr>a_ready := rq\<rparr>) \<and>
    mset (q # rq) = add_mset p (mset (a_ready a)) \<and>
    (\<forall>x\<in>insert p (set (a_ready a)). aged_prio (st k) (a_ready a) x \<le> aged_prio (st k) (a_ready a) q) \<and>
    p_s (pcbTable (st k') p) = areas k old \<and> timer k' = TIME_SLICE k \<and>
    (\<forall>x\<in>set (a_ready a). priority (pcbTable (st k') x) = priority (pcbTable (st k) x) + 1) \<and>
    priority (pcbTable (st k') p) = original_priority (pcbTable (st k) p)"
proof -
  have sint: "sint x = sint y \<longleftrightarrow> x = y" for x y :: s32 by (auto intro: signed_word_eqI)
  have "p \<notin> set (a_ready a)" using kernel_relD(4) [OF r c] by simp
  then have aged: "(\<forall>x\<in>insert p (set (a_ready a)). prio s x = aged_prio (st k) (a_ready a) x) \<longleftrightarrow>
      (\<forall>x\<in>set (a_ready a). priority (pcbTable s x) = priority (pcbTable (st k) x) + 1) \<and>
      priority (pcbTable s p) = original_priority (pcbTable (st k) p)" for s
    by (auto simp: prio_def aged_prio_def sint)
  show ?thesis using preempt_spec [OF assms] unfolding aged by blast
qed

theorem preempt_choice_witness:
  "\<exists>q v k'. scheduler_resume True 4 (demo_two UMPS) = Some (v, k') \<and> current_proc k' = Ptr q \<and>
    (\<forall>x\<in>{18, 19}. aged_prio (st (demo_two UMPS)) [18] x \<le> aged_prio (st (demo_two UMPS)) [18] q) \<and>
    priority (pcbTable (st k') 18) = priority (pcbTable (st (demo_two UMPS)) 18) + 1"
  using preempt_choice [OF demo_two(1,2), of 4 UMPS] demo_two(4) [of UMPS] by (auto simp: two_abs_def ready_sorted_def)

text \<open>
  Without the end of a time slice the running process keeps the processor with the registers it
  had; with no running process the first of the ready queue runs, or the idle state if it is empty.
\<close>

lemma resume_result:
  assumes r: "kernel_rel k a" and old: "current_proc k \<noteq> Null \<longrightarrow> old \<noteq> 0"
  shows "case current_proc k of
      Ptr p \<Rightarrow> (\<exists>k'. scheduler_resume False old k = Some (areas k old, k') \<and> kernel_rel k' a \<and> current_proc k' = Ptr p)
    | Null \<Rightarrow> (case a_ready a of
        [] \<Rightarrow> scheduler_resume False old k = Some (idle_proc_state k, k)
      | q # rq \<Rightarrow> \<exists>k'. scheduler_resume False old k = Some (p_s (pcbTable (st k) q), k') \<and>
          kernel_rel k' (a\<lparr>a_ready := rq\<rparr>) \<and> current_proc k' = Ptr q)"
proof (cases "current_proc k")
  case Null
  have d: "store_rel (st k) a {}" "areas_ok (st k)" using kernel_relD(1,2) [OF r] Null by auto
  show ?thesis using Null dispatch_spec [OF d] run_kernel_rel [OF d] resume_idle [OF Null]
    by (auto split: list.splits)
next
  case (Ptr p)
  obtain k' where k': "scheduler_resume False old k = Some (areas k old, k')" "timed k k'"
    using resume_continue [OF Ptr kernel_relD(3) [OF r Ptr]] old Ptr by auto
  then show ?thesis using Ptr timed_kernel_rel [OF k'(2) r] timed_fields(3) [OF k'(2)] by auto
qed

lemma resume_result_example:
  "\<exists>k'. scheduler_resume False 4 (demo_run UMPS) = Some (areas (demo_run UMPS) 4, k') \<and> current_proc k' = Ptr 19"
  using resume_result [OF demo_run(1), of UMPS 4] demo_run(2) [of UMPS] by auto

text \<open>
  Accounting: the time since the last switch goes to the running process alone, as kernel or as
  user time, in 64 bits and modulo the 32-bit clock; without a running process nobody is charged.
\<close>

lemma account_time_exact:
  assumes "kernel_rel k a"
  shows "\<exists>k'. scheduler_account_time for_kernel k = Some k' \<and> kernel_rel k' a \<and>
    switch_tick k' = clock k (reads k' - 1) \<and>
    (\<forall>q. let b = pcbTable (st k) q; b' = pcbTable (st k') q; d = ucast (clock k (reads k) - switch_tick k) in
       b' = (if current_proc k \<noteq> Ptr q then b
             else if for_kernel then b\<lparr>kernel_tm := kernel_tm b + d\<rparr> else b\<lparr>user_tm := user_tm b + d\<rparr>))"
proof (cases "current_proc k")
  case Null
  then show ?thesis using account_time_idle [OF Null] assms by (simp add: kernel_rel_def)
next
  case (Ptr p)
  obtain k' where k': "scheduler_account_time for_kernel k = Some k'" "timed k k'"
    using account_time_spec [OF kernel_rel_current [OF assms]] by blast
  show ?thesis using k'(1) timed_kernel_rel [OF k'(2) assms]
    unfolding account_time_running [OF Ptr kernel_relD(3) [OF assms Ptr]] Let_def
    by (auto simp: Ptr charge_def)
qed

lemma account_time_exact_example:
  "\<exists>k'. scheduler_account_time False (demo_run UMPS) = Some k' \<and>
    user_tm (pcbTable (st k') 19) = user_tm (pcbTable (st (demo_run UMPS)) 19) +
      ucast (clock (demo_run UMPS) (reads (demo_run UMPS)) - switch_tick (demo_run UMPS))"
proof -
  obtain k' where k': "scheduler_account_time False (demo_run UMPS) = Some k'"
      "\<forall>q. let b = pcbTable (st (demo_run UMPS)) q; b' = pcbTable (st k') q;
         d = ucast (clock (demo_run UMPS) (reads (demo_run UMPS)) - switch_tick (demo_run UMPS)) in
       b' = (if current_proc (demo_run UMPS) \<noteq> Ptr q then b
             else if False then b\<lparr>kernel_tm := kernel_tm b + d\<rparr> else b\<lparr>user_tm := user_tm b + d\<rparr>)"
    using account_time_exact [OF demo_run(1), of False UMPS] by blast
  show ?thesis using k'(1) spec [OF k'(2), of 19] demo_run(2) [of UMPS] by (auto simp: Let_def)
qed

section \<open>No ready process waits forever\<close>

text \<open>
  A tick is a run of the user program followed by an interrupt that ends the time slice; devices may
  interrupt together with the timer, and wake processes.
\<close>

definition timer_ends :: "kst \<Rightarrow> bool" where
  "timer_ends k \<longleftrightarrow> INT_IS_PENDING (target k) (CAUSE (areas k (INT_OLDAREA (target k)))) IL_TIMER"

definition tick :: "kst \<Rightarrow> kst \<Rightarrow> bool" where
  "tick k k' \<longleftrightarrow> (\<exists>k1 v. user_run k k1 \<and> (\<forall>a. kernel_rel k1 a \<longrightarrow> expected k1 a) \<and> timer_ends k1 \<and>
     interrupts_handler k1 = Some (v, k'))"

definition base :: "kst \<Rightarrow> nat \<Rightarrow> int" where
  "base k q = sint (original_priority (pcbTable (st k) q))"

lemma base_cong: "same_base k k' \<Longrightarrow> base k' q = base k q"
  by (simp add: same_base_def base_def)

text \<open>The processes that would run before \<open>p\<close>.\<close>

definition rivals :: "kst \<Rightarrow> proc_abs \<Rightarrow> nat \<Rightarrow> nat set" where
  "rivals k a p = {q \<in> set (a_ready a). q \<noteq> p \<and> prio (st k) p \<le> prio (st k) q}"

lemma ready_lt: "kernel_rel k a \<Longrightarrow> set (a_ready a) \<subseteq> {..<MAXPROC} \<and> distinct (a_ready a)"
  using queue_atD(1,2) [OF store_relD(2) [OF kernel_relD(1)]] by fastforce

lemma rivals_card: "kernel_rel k a \<Longrightarrow> finite (rivals k a p) \<and> card (rivals k a p) \<le> MAXPROC"
proof -
  assume "kernel_rel k a"
  then have s: "rivals k a p \<subseteq> {..<MAXPROC}" using ready_lt unfolding rivals_def by blast
  then show ?thesis using card_mono [OF _ s] finite_subset [OF s] by simp
qed

text \<open>
  The processes the devices wake join the queue at the priority they started from; those that were
  there keep theirs.
\<close>

lemma tick_wakes:
  assumes r: "kernel_rel k a" and s: "ready_sorted k a" and e: "expected k a" and t: "timer_ends k"
  shows "\<exists>k2 a2 old. interrupts_handler k = scheduler_resume True old k2 \<and> old \<noteq> 0 \<and> kernel_rel k2 a2 \<and>
    current_proc k2 = current_proc k \<and> ready_sorted k2 a2 \<and> same_base k k2 \<and> set (a_ready a) \<subseteq> set (a_ready a2) \<and>
    (\<forall>q\<in>set (a_ready a2). prio (st k2) q = (if q \<in> set (a_ready a) then prio (st k) q else base k q))"
proof -
  let ?old = "INT_OLDAREA (target k)"
  obtain k0 k2 a2 ds where k2: "timed k k0" "woke (int_wakes k) ds (int_entry k k0) a k2 a2"
      "interrupts_handler k = scheduler_resume True ?old k2"
    using interrupts_handler_woke [OF r e] t unfolding timer_ends_def by auto
  let ?e = "int_entry k k0"
  note f = int_entry_fields [OF k2(1) r]
  have st: "st ?e = st k0" by (simp add: int_entry_def Let_def setTIMER_def)
  have pe: "priority (pcbTable (st ?e) q) = priority (pcbTable (st k) q)"
      "original_priority (pcbTable (st ?e) q) = original_priority (pcbTable (st k) q)" for q
    using timed_pcb [OF k2(1), of q] st by simp_all
  have so: "ready_sorted ?e a" using s pe by (simp add: ready_sorted_def prio_def)
  have w: "kernel_rel k2 a2" "ready_sorted k2 a2" "rebased (int_wakes k) ?e a k2" "devices_only ?e k2"
      "mset (a_ready a2) = mset (a_ready a) + mset (map (\<lambda>x. hd (a_sem a x)) (int_wakes k))"
    using k2(2) so by (auto simp: woke_def)
  have sb: "same_base k k2" using w(3) pe by (simp add: rebased_def same_base_def)
  have blk: "\<exists>x. q \<in> set (a_sem a x)" if "x \<in> set (int_wakes k)" "q = hd (a_sem a x)" for q x
    using e that unfolding expected_def int_wakes_def Let_def by (auto intro!: exI [of _ x] hd_in_set)
  have dis: "q \<notin> set (a_ready a)" if "\<exists>x. q \<in> set (a_sem a x)" for q
  proof -
    have "set (a_ready a) \<inter> blocked (a_sem a) = {}" using store_relD(5) [OF kernel_relD(1) [OF r]] by (simp add: places_def)
    then show ?thesis using that by (auto simp: blocked_def)
  qed
  have pr: "prio (st k2) q = (if \<exists>x\<in>set (int_wakes k). q = hd (a_sem a x) then base k q else prio (st k) q)" for q
    using w(3) pe by (simp add: rebased_def prio_def base_def)
  have set2: "set (a_ready a2) = set (a_ready a) \<union> (\<lambda>x. hd (a_sem a x)) ` set (int_wakes k)"
    using arg_cong [OF w(5), of set_mset] by simp
  have "prio (st k2) q = (if q \<in> set (a_ready a) then prio (st k) q else base k q)" if "q \<in> set (a_ready a2)" for q
  proof (cases "q \<in> set (a_ready a)")
    case True
    then have "\<not> (\<exists>x\<in>set (int_wakes k). q = hd (a_sem a x))" using dis blk by blast
    then show ?thesis using pr [of q] True by simp
  next
    case False
    then have "\<exists>x\<in>set (int_wakes k). q = hd (a_sem a x)" using that set2 by blast
    then show ?thesis using pr [of q] False by simp
  qed
  moreover have "current_proc k2 = current_proc k" using w(4) f(6) by (simp add: devices_only_def)
  ultimately show ?thesis using k2(3) area_nonzero(1) w(1,2) sb set2 by blast
qed

lemma preempt_queue:
  assumes r: "kernel_rel k a" and c: "current_proc k = Ptr c" and s: "ready_sorted k a" and old: "old \<noteq> 0"
    and N: "\<forall>q\<in>set (a_ready a). prio (st k) q \<le> N" "N < 2 ^ 31 - 1" and e: "scheduler_resume True old k = Some (v, k')"
  shows "\<exists>q rq. current_proc k' = Ptr q \<and> kernel_rel k' (a\<lparr>a_ready := rq\<rparr>) \<and> ready_sorted k' (a\<lparr>a_ready := rq\<rparr>) \<and>
    same_base k k' \<and> q \<notin> set rq \<and> insert q (set rq) = insert c (set (a_ready a)) \<and>
    (\<forall>y\<in>insert c (set (a_ready a)). prio (st k') y \<le> prio (st k') q) \<and>
    (\<forall>y\<in>set (a_ready a). prio (st k') y = prio (st k) y + 1) \<and> prio (st k') c = base k c"
proof -
  let ?rq = "set (a_ready a)" and ?f = "aged_prio (st k) (a_ready a)"
  have nomax: "priority (pcbTable (st k) q) \<noteq> 0x7FFFFFFF" if "q \<in> ?rq" for q
    using bspec [OF N(1) that] N(2) by (auto simp: prio_def)
  have age: "?f q = prio (st k) q + 1" if "q \<in> ?rq" for q
    using sint_Suc [OF nomax [OF that]] that by (simp add: aged_prio_def prio_def)
  have "c \<notin> ?rq" using kernel_relD(4) [OF r c] by auto
  then have fc: "?f c = base k c" by (simp add: aged_prio_def base_def)
  obtain q rq where q: "current_proc k' = Ptr q" "kernel_rel k' (a\<lparr>a_ready := rq\<rparr>)" "ready_sorted k' (a\<lparr>a_ready := rq\<rparr>)"
      "mset (q # rq) = add_mset c (mset (a_ready a))" "\<forall>x\<in>insert c ?rq. ?f x \<le> ?f q"
      "\<forall>x\<in>insert c ?rq. prio (st k') x = ?f x" "same_base k k'"
    using preempt_spec [OF r c old s] nomax e by (metis option.inject prod.inject)
  have set: "insert q (set rq) = insert c ?rq" using arg_cong [OF q(4), of set_mset] by simp
  have qin: "q \<in> insert c ?rq" using set by blast
  have "\<forall>y\<in>insert c ?rq. prio (st k') y \<le> prio (st k') q" using q(5) bspec [OF q(6)] qin by metis
  moreover have "\<forall>y\<in>?rq. prio (st k') y = prio (st k) y + 1" using bspec [OF q(6)] age by simp
  moreover have "prio (st k') c = base k c" using bspec [OF q(6), of c] fc by simp
  moreover have "q \<notin> set rq" using kernel_relD(4) [OF q(2,1)] by simp
  ultimately show ?thesis using q(1-3,7) set by blast
qed

lemma tick_step:
  assumes r: "kernel_rel k a" and c: "current_proc k = Ptr c" and s: "ready_sorted k a" and p: "p \<in> set (a_ready a)"
    and N: "\<forall>q\<in>set (a_ready a). prio (st k) q \<le> N" and M: "\<forall>q<MAXPROC. base k q \<le> M"
    and MN: "M \<le> N" "N < 2 ^ 31 - 1" and t: "tick k k'"
  shows "\<exists>a' q. kernel_rel k' a' \<and> current_proc k' = Ptr q \<and> ready_sorted k' a' \<and> same_base k k' \<and>
    (q = p \<or> p \<in> set (a_ready a') \<and> prio (st k') p = prio (st k) p + 1 \<and>
      (\<forall>y\<in>set (a_ready a'). prio (st k') y \<le> N + 1) \<and> (M < prio (st k) p \<longrightarrow> rivals k' a' p \<subset> rivals k a p))"
proof -
  obtain k1 v where k1: "user_run k k1" "expected k1 a" "timer_ends k1" "interrupts_handler k1 = Some (v, k')" "kernel_rel k1 a"
    using t user_run_kernel_rel [OF _ r] unfolding tick_def by blast
  have u: "st k1 = st k" "current_proc k1 = Ptr c" "ready_sorted k1 a" using k1(1) c s by (simp_all add: user_run_def ready_sorted_def)
  obtain k2 a2 old where k2: "scheduler_resume True old k2 = Some (v, k')" "old \<noteq> 0" "kernel_rel k2 a2" "current_proc k2 = Ptr c"
      "ready_sorted k2 a2" "same_base k k2" "set (a_ready a) \<subseteq> set (a_ready a2)"
      "\<forall>q\<in>set (a_ready a2). prio (st k2) q = (if q \<in> set (a_ready a) then prio (st k) q else base k q)"
    using tick_wakes [OF k1(5) u(3) k1(2,3)] k1(4) u(1,2) by (auto simp: same_base_def base_def)
  let ?rq = "set (a_ready a2)"
  have c2: "c < MAXPROC" "c \<notin> ?rq" using kernel_relD(3,4) [OF k2(3,4)] by auto
  have le: "prio (st k2) q \<le> N \<and> (q \<notin> set (a_ready a) \<longrightarrow> prio (st k2) q \<le> M)" if "q \<in> ?rq" for q
    using that ready_lt [OF k2(3)] bspec [OF k2(8) that] N M MN(1) by (cases "q \<in> set (a_ready a)") auto
  then have le2: "\<forall>q\<in>?rq. prio (st k2) q \<le> N" by blast
  obtain q rq where q: "current_proc k' = Ptr q" "kernel_rel k' (a2\<lparr>a_ready := rq\<rparr>)" "ready_sorted k' (a2\<lparr>a_ready := rq\<rparr>)"
      "same_base k2 k'" "q \<notin> set rq" "insert q (set rq) = insert c ?rq" "\<forall>y\<in>insert c ?rq. prio (st k') y \<le> prio (st k') q"
      "\<forall>y\<in>?rq. prio (st k') y = prio (st k2) y + 1" "prio (st k') c = base k2 c"
    using preempt_queue [OF k2(3-5,2) le2 MN(2) k2(1)] by blast
  have p2: "p \<in> ?rq" "p \<noteq> c" "prio (st k') p = prio (st k) p + 1" using p k2(7,8) c2(2) q(8) by auto
  have pc: "prio (st k') c \<le> M" using q(9) M c2(1) base_cong [OF k2(6), of c] by simp
  have riv: "y \<in> rivals k a p" if y: "y \<in> insert c ?rq" "y \<noteq> p" "prio (st k') p \<le> prio (st k') y" "M < prio (st k) p" for y
  proof -
    have y2: "y \<in> ?rq" using y p2(3) pc by auto
    then have "prio (st k) p \<le> prio (st k2) y" using y(3) p2(3) bspec [OF q(8) y2] by simp
    moreover have "y \<in> set (a_ready a)" using le [OF y2] calculation y(4) by force
    ultimately show ?thesis using y(2) bspec [OF k2(8) y2] by (auto simp: rivals_def)
  qed
  let ?a = "a2\<lparr>a_ready := rq\<rparr>"
  have "rivals k' ?a p \<subset> rivals k a p" if m: "M < prio (st k) p" and qp: "q \<noteq> p"
  proof -
    have in_rq: "y \<in> insert c ?rq" if "y \<in> insert q (set rq)" for y using that q(6) by blast
    have "q \<in> rivals k a p" using riv [of q] in_rq [of q] q(7) p2(1) m qp by simp
    moreover have "rivals k' ?a p \<subseteq> rivals k a p" using riv in_rq m by (auto simp: rivals_def [of k' ?a])
    ultimately show ?thesis using q(5) by (auto simp: rivals_def [of k' ?a])
  qed
  moreover have "prio (st k') y \<le> N + 1" if "y \<in> set rq" for y
  proof (cases "y = c")
    case False
    then have "y \<in> ?rq" using that q(6) by blast
    then show ?thesis using q(8) le2 by simp
  qed (use pc MN(1) in simp)
  moreover have "p \<in> set rq" if "q \<noteq> p" using that q(6) p2(1) by (metis insert_iff)
  ultimately show ?thesis using q(1-3) p2(3) k2(6) q(4)
    by (intro exI [of _ ?a] exI [of _ q]) (auto simp: same_base_def)
qed

text \<open>How far \<open>p\<close> is from the processor: steps until it is older than any process that joins the
  queue, then the processes before it.\<close>

definition distance :: "int \<Rightarrow> kst \<Rightarrow> proc_abs \<Rightarrow> nat \<Rightarrow> nat" where
  "distance M k a p = nat (M + 1 - prio (st k) p) + (if M < prio (st k) p then card (rivals k a p) else MAXPROC)"

lemma runs_within:
  assumes "\<And>i. tick (f i) (f (Suc i))" and "kernel_rel (f 0) a" and "current_proc (f 0) = Ptr c"
    and "ready_sorted (f 0) a" and "p \<in> set (a_ready a)" and "\<forall>q\<in>set (a_ready a). prio (st (f 0)) q \<le> N"
    and "\<forall>q<MAXPROC. base (f 0) q \<le> M" and "M \<le> N" and "N + int n < 2 ^ 31 - 1" and "distance M (f 0) a p \<le> n"
  shows "\<exists>i\<le>Suc n. 0 < i \<and> current_proc (f i) = Ptr p"
  using assms
proof (induction n arbitrary: f a c N)
  case (0 f a c N)
  then have "M < prio (st (f 0)) p" "card (rivals (f 0) a p) = 0"
    by (auto simp: distance_def MAXPROC_def split: if_splits)
  then have "M < prio (st (f 0)) p" "rivals (f 0) a p = {}" using rivals_card [OF 0(2), of p] by auto
  then show ?case using tick_step [OF 0(2-8) _ 0(1)] 0(9) by fastforce
next
  case (Suc n f a c N)
  obtain a' q where a': "kernel_rel (f 1) a'" "current_proc (f 1) = Ptr q" "ready_sorted (f 1) a'" "same_base (f 0) (f 1)"
    and q: "q = p \<or> p \<in> set (a_ready a') \<and> prio (st (f 1)) p = prio (st (f 0)) p + 1 \<and>
      (\<forall>y\<in>set (a_ready a'). prio (st (f 1)) y \<le> N + 1) \<and> (M < prio (st (f 0)) p \<longrightarrow> rivals (f 1) a' p \<subset> rivals (f 0) a p)"
    using tick_step [OF Suc.prems(2-8) _ Suc.prems(1)] Suc.prems(9) by auto
  show ?case
  proof (cases "q = p")
    case True
    then show ?thesis using a'(2) by (intro exI [of _ 1]) simp
  next
    case False
    have "distance M (f 1) a' p < distance M (f 0) a p"
    proof (cases "M < prio (st (f 0)) p")
      case True
      then have "card (rivals (f 1) a' p) < card (rivals (f 0) a p)"
        using q False rivals_card [OF Suc.prems(2)] by (intro psubset_card_mono) auto
      then show ?thesis using True q False by (simp add: distance_def)
    next
      case n: False
      then show ?thesis using q False rivals_card [OF a'(1), of p] by (auto simp: distance_def)
    qed
    then have "distance M (f 1) a' p \<le> n" using Suc.prems(10) by simp
    then have "\<exists>i\<le>Suc n. 0 < i \<and> current_proc (f (Suc i)) = Ptr p"
      using Suc.IH [of "\<lambda>i. f (Suc i)" a' q "N + 1"] Suc.prems(1,7,8,9) a' q False base_cong [OF a'(4)] by auto
    then show ?thesis by (metis Suc_le_mono zero_less_Suc)
  qed
qed

text \<open>
  C9. No ready process starves: if \<open>M\<close> bounds the priorities processes start from and \<open>N\<close> those in
  the ordered ready queue, a process waiting at priority \<open>x\<close> runs after at most
  \<open>(M + 1 - x) + MAXPROC + 1\<close> ends of a time slice, whatever the running processes compute in between
  without calling the kernel and whichever processes the devices wake, as long as no priority reaches
  the end of \<open>int\<close> in that time.
\<close>

theorem no_starvation:
  assumes "\<And>i. tick (f i) (f (Suc i))" and "kernel_rel (f 0) a" and "current_proc (f 0) = Ptr c"
    and "ready_sorted (f 0) a" and "p \<in> set (a_ready a)" and "\<forall>q\<in>set (a_ready a). prio (st (f 0)) q \<le> N"
    and "\<forall>q<MAXPROC. base (f 0) q \<le> M" and "M \<le> N"
    and "N + int (nat (M + 1 - prio (st (f 0)) p) + MAXPROC) < 2 ^ 31 - 1"
  shows "\<exists>i\<le>Suc (nat (M + 1 - prio (st (f 0)) p) + MAXPROC). 0 < i \<and> current_proc (f i) = Ptr p"
proof (rule runs_within [OF assms])
  show "distance M (f 0) a p \<le> nat (M + 1 - prio (st (f 0)) p) + MAXPROC"
    using rivals_card [OF assms(2), of p] by (simp add: distance_def)
qed

text \<open>A machine on which only the timer interrupts.\<close>

definition timer_state :: state_t where
  "timer_state = UmpsState \<lparr>um_entry_hi = 0, um_cause = 0x400, um_status = 0, um_pc_epc = 0,
     um_gpr = replicate STATE_GPR_LEN 0, um_hi = 0, um_lo = 0\<rparr>"

definition timed_out :: "kst \<Rightarrow> kst" where
  "timed_out k = k\<lparr>areas := (areas k)(INT_OLDAREA UMPS := timer_state)\<rparr>"

primrec demo_ticks :: "nat \<Rightarrow> kst" where
  "demo_ticks 0 = demo_two UMPS"
| "demo_ticks (Suc i) = snd (the (interrupts_handler (timed_out (demo_ticks i))))"

lemma timed_out_tick:
  assumes "kernel_rel k a" and "target k = UMPS"
  shows "\<exists>a'. tick k (snd (the (interrupts_handler (timed_out k)))) \<and>
    kernel_rel (snd (the (interrupts_handler (timed_out k)))) a' \<and> target (snd (the (interrupts_handler (timed_out k)))) = UMPS"
proof -
  let ?k = "timed_out k"
  have u: "user_run k ?k" by (simp add: user_run_def timed_out_def)
  have c: "target ?k = UMPS" "CAUSE (areas ?k (INT_OLDAREA UMPS)) = 0x400"
    using assms(2) by (simp_all add: timed_out_def timer_state_def)
  have e: "expected ?k b" for b unfolding expected_def Let_def c
    by (simp add: pending_defs handled_lines_def il_defs push_bit_eq_mult)
  have t: "timer_ends ?k" unfolding timer_ends_def c by (simp add: pending_defs il_defs push_bit_eq_mult)
  obtain v k' a' where "interrupts_handler ?k = Some (v, k')" "kernel_rel k' a'" "target k' = UMPS"
    using interrupts_handler_rel [OF user_run_kernel_rel [OF u assms(1)] e] c by auto
  then show ?thesis using u e t by (auto simp: tick_def)
qed

lemma demo_ticks: "tick (demo_ticks i) (demo_ticks (Suc i))"
proof -
  have "\<exists>a. kernel_rel (demo_ticks i) a \<and> target (demo_ticks i) = UMPS"
  proof (induction i)
    case 0
    then show ?case using demo_two(1,3) [of UMPS] by auto
  next
    case (Suc i)
    then show ?case using timed_out_tick by auto
  qed
  then show ?thesis using timed_out_tick by auto
qed

theorem no_starvation_witness: "\<exists>i\<le>22. 0 < i \<and> current_proc (demo_ticks i) = Ptr 18"
proof -
  have "prio (st (demo_two UMPS)) 18 = 1" "\<forall>q<MAXPROC. base (demo_two UMPS) q \<le> 1"
    using demo_two(4,5) [of UMPS] by (simp_all add: prio_def base_def)
  then show ?thesis
    using no_starvation [of demo_ticks two_abs 19 18 1 1] demo_ticks demo_two(1,2) [of UMPS]
    by (auto simp: two_abs_def ready_sorted_def MAXPROC_def)
qed

end
