(* ===== verification/Calls.thy ===== *)
theory Calls
  imports Kernel
begin

text \<open>
  What the system calls promise to the process that makes them, and what an exception does to it:
  each call on every branch, the pairs of calls that undo each other, and the call that leaves the
  kernel with a running process on its free list.
\<close>

section \<open>Processes\<close>

text \<open>
  C19. \<open>CREATEPROCESS\<close> fails, and changes nothing, exactly when no table entry is free. Otherwise the
  new process is ready at the priority asked for, a zeroed entry with the registers the caller gave,
  the last child of the caller, and its identifier is stored where the caller asked.
\<close>

theorem create_process_result:
  assumes "kernel_rel k a" and "current_proc k = Ptr c" and "state \<noteq> 0"
  shows "case a_free a of
      [] \<Rightarrow> create_process state pri cpid k = Some (SYSCALL_FAILURE, k)
    | p # fs \<Rightarrow> \<exists>s'. create_process state pri cpid k = Some (SYSCALL_SUCCESS,
          k\<lparr>st := s', mem := (if cpid \<noteq> 0 then (mem k)(cpid := addr_of_pcb k (Ptr p)) else mem k)\<rparr>) \<and>
        kernel_rel (k\<lparr>st := s'\<rparr>) (a\<lparr>a_free := fs, a_ready := prio_insert (prio s') p (a_ready a),
          a_kids := (a_kids a)(c := a_kids a c @ [p])\<rparr>) \<and>
        pcbTable s' = (pcbTable (st k))(p := (zero_pcb (pcbTable (st k) p))\<lparr>p_s := areas k state,
          original_priority := pri, priority := pri, p_parent := Ptr c\<rparr>)"
  using create_process_full [OF assms(1)] create_process_spec [OF assms(1,2) _ assms(3)]
  by (simp add: new_pcb_def split: list.split)

theorem create_process_result_witness:
  "\<exists>s'. create_process 4 7 0x9000 (demo_run UARM) = Some (SYSCALL_SUCCESS, (demo_run UARM)\<lparr>st := s',
      mem := (mem (demo_run UARM))(0x9000 := addr_of_pcb (demo_run UARM) (Ptr 18))\<rparr>) \<and>
    sint (priority (pcbTable s' 18)) = 7 \<and> p_parent (pcbTable s' 18) = Ptr 19"
proof -
  have f: "a_free running_abs = 18 # rev [0..<18]" by (simp add: running_abs_def MAXPROC_def upt_rec)
  show ?thesis using create_process_result [OF demo_run(1,2), of 4 7 "0x9000" UARM] f by auto
qed

lemma removed_free: "removed D s a L s' a' L' \<Longrightarrow> set (a_free a') = set (a_free a) \<union> D"
  by (auto simp: removed_def)

text \<open>
  C20. \<open>TERMINATEPROCESS\<close> of a process that does not exist fails and changes nothing. Of a process
  that is the caller or not above it, it frees exactly that process and its descendants, wherever
  they are, and the caller goes on unless it named itself; without an argument it names itself.
\<close>

theorem terminate_result:
  assumes "kernel_rel k a" and "current_proc k = Ptr c" and "p < MAXPROC" and "p = c \<or> c \<notin> subtree a p"
  shows "terminate_process Null k = terminate_process (Ptr c) k \<and>
    (if p \<in> set (a_free a) then terminate_process (Ptr p) k = Some (SYSCALL_FAILURE, k)
     else \<exists>k' a'. terminate_process (Ptr p) k = Some (SYSCALL_SUCCESS, k') \<and> kernel_rel k' a' \<and>
       current_proc k' = (if p = c then Null else Ptr c) \<and> set (a_free a') = set (a_free a) \<union> subtree a p \<and>
       a_ready a' = filter (\<lambda>q. q \<notin> subtree a p) (a_ready a) \<and>
       (\<forall>x. a_sem a' x = filter (\<lambda>q. q \<notin> subtree a p) (a_sem a x)) \<and>
       (\<forall>q. q \<notin> subtree a p \<longrightarrow> pcbTable (st k') q = pcbTable (st k) q))"
proof (cases "p \<in> set (a_free a)")
  case True
  then show ?thesis using terminate_free [OF assms(1)] terminate_self [OF assms(2)] by simp
next
  case False
  have "current_proc k = Ptr p \<or> running (current_proc k) \<inter> subtree a p = {}" using assms(2,4) by auto
  then obtain k' a' where k': "scheduler_kill_process (Ptr p) k = Some k'" "kernel_rel k' a'"
      "removed (subtree a p) (st k) a (running (current_proc k)) (st k') a' (running (current_proc k'))"
      "current_proc k' = (if current_proc k = Ptr p then Null else current_proc k)"
    using kill_process_spec [OF assms(1,3) False] by blast
  have "terminate_process (Ptr p) k = Some (SYSCALL_SUCCESS, k')" using terminate_alive [OF assms(1) False] k'(1) by simp
  then show ?thesis using False k' removed_free [OF k'(3)] terminate_self [OF assms(2)] assms(2)
    unfolding removed_def by auto
qed

theorem terminate_result_witness:
  "\<exists>k' a'. terminate_process (Ptr 18) (demo_two UMPS) = Some (SYSCALL_SUCCESS, k') \<and> kernel_rel k' a' \<and>
     current_proc k' = Ptr 19 \<and> 18 \<in> set (a_free a') \<and> a_ready a' = []"
proof -
  have n: "a_kids two_abs 18 = []" "18 \<notin> set (a_free two_abs)" "a_ready two_abs = [18]" by (auto simp: two_abs_def)
  have s: "subtree two_abs 18 = {18}" using subtree_split [of two_abs 18] n(1) by simp
  show ?thesis using terminate_result [OF demo_two(1,2), of 18 UMPS] n(2,3) unfolding s by (auto simp: MAXPROC_def)
qed

text \<open>
  C22. \<open>TERMINATEPROCESS\<close> of a proper ancestor of the caller frees the caller with the others but
  leaves it the running process: the kernel goes on with a running process that is on the free list,
  and no view of the tables describes that state any more.
\<close>

theorem terminate_ancestor_dangling:
  assumes "kernel_rel k a" and "current_proc k = Ptr c" and "p < MAXPROC" and "p \<notin> set (a_free a)"
    and "c \<in> subtree a p" and "p \<noteq> c"
  shows "\<exists>k'. terminate_process (Ptr p) k = Some (SYSCALL_SUCCESS, k') \<and> current_proc k' = Ptr c \<and>
    pcb_is_free (Ptr c) (st k') = Some True \<and> \<not> (\<exists>a'. kernel_rel k' a')"
proof -
  obtain s' a' where s': "kill_tree TREE_FUEL (Ptr p) (st k) = Some s'"
      "removed (subtree a p) (st k) a (running (current_proc k)) s' a' (running (current_proc k) - subtree a p)"
    using kill_tree_spec [OF kernel_relD(1) [OF assms(1)] assms(3,4)] by blast
  let ?k = "k\<lparr>st := s'\<rparr>"
  have "terminate_process (Ptr p) k = Some (SYSCALL_SUCCESS, ?k)"
    using terminate_alive [OF assms(1,4)] s'(1) assms(2,6) by (simp add: scheduler_kill_process_def on_st_def)
  moreover have "kernel_rel (?k\<lparr>current_proc := Null\<rparr>) a'"
    using s'(2) removed_areas_ok [OF s'(2) kernel_relD(2) [OF assms(1)]] assms(2,5)
    by (simp add: kernel_rel_def removed_def)
  then have free: "pcb_is_free (Ptr c) s' = Some True"
    using pcb_is_free_kernel [of "?k\<lparr>current_proc := Null\<rparr>" a' c] removed_free [OF s'(2)] assms(5) by auto
  moreover have "\<not> kernel_rel ?k b" for b
    using pcb_is_free_kernel [of ?k b c] kernel_relD(4) [of ?k b c] free assms(2) by auto
  ultimately show ?thesis using assms(2) by auto
qed

theorem terminate_ancestor_dangling_witness:
  "\<exists>k'. terminate_process (Ptr 19) (demo_wait UMPS 0x100) = Some (SYSCALL_SUCCESS, k') \<and>
     current_proc k' = Ptr 18 \<and> pcb_is_free (Ptr 18) (st k') = Some True"
proof -
  have "18 \<in> subtree (wait_abs 0x100) 19" using subtree_step [of 18 "wait_abs 0x100" 19] by (auto simp: wait_abs_def)
  then show ?thesis using terminate_ancestor_dangling [OF demo_wait(1,2), of 19 "0x100" UMPS]
    by (auto simp: wait_abs_def MAXPROC_def)
qed

section \<open>Semaphores\<close>

text \<open>
  \<open>VERHOGEN\<close> on a semaphore somebody waits on wakes the first of its queue, which is ready again
  at the priority it started from, and leaves the value alone; on one nobody waits on it adds one to
  the value, modulo the width of \<open>int\<close>.
\<close>

lemma verhogen_result:
  assumes "kernel_rel k a" and "x \<noteq> 0"
  shows "case a_sem a x of
      [] \<Rightarrow> verhogen x k = Some (k\<lparr>mem := (mem k)(x := mem k x + 1)\<rparr>)
    | p # ps \<Rightarrow> \<exists>s'. verhogen x k = Some (k\<lparr>st := s'\<rparr>) \<and>
        kernel_rel (k\<lparr>st := s'\<rparr>) (a\<lparr>a_sem := (a_sem a)(x := ps), a_ready := prio_insert (prio s') p (a_ready a)\<rparr>) \<and>
        prio s' p = sint (original_priority (pcbTable (st k) p)) \<and> p_s (pcbTable s' p) = p_s (pcbTable (st k) p) \<and>
        (\<forall>q. q \<noteq> p \<longrightarrow> pcbTable s' q = pcbTable (st k) q)"
proof (cases "a_sem a x")
  case Nil
  then show ?thesis using verhogen_counts [OF assms(1) Nil assms(2)] by simp
next
  case (Cons p ps)
  then show ?thesis using verhogen_wakes [OF assms(1) Cons] by (auto simp: prio_def)
qed

lemma verhogen_result_example:
  "\<exists>s'. verhogen 0x100 (demo_wait UARM 0x100) = Some ((demo_wait UARM 0x100)\<lparr>st := s'\<rparr>) \<and>
     kernel_rel ((demo_wait UARM 0x100)\<lparr>st := s'\<rparr>) ((wait_abs 0x100)\<lparr>a_sem := (\<lambda>_. [])(0x100 := []), a_ready := [19]\<rparr>)"
  using verhogen_result [OF demo_wait(1), of "0x100" UARM "0x100"] by (auto simp: wait_abs_def prio_insert_def)

text \<open>
  \<open>PASSEREN\<close> takes one from a semaphore that is not zero and the caller goes on; at zero the caller
  joins the queue of the semaphore by priority, with the registers to go on with saved, and nothing
  runs until the scheduler gives the processor away.
\<close>

lemma passeren_result:
  assumes "kernel_rel k a" and "current_proc k = Ptr p" and "old_state k \<noteq> 0" and "x \<noteq> 0"
  shows "if mem k x \<noteq> 0 then passeren x k = Some (k\<lparr>mem := (mem k)(x := mem k x - 1)\<rparr>)
    else \<exists>k'. passeren x k = Some k' \<and> current_proc k' = Null \<and> mem k' = mem k \<and>
      kernel_rel k' (a\<lparr>a_sem := (a_sem a)(x := prio_insert (prio (st k)) p (a_sem a x))\<rparr>) \<and>
      p_s (pcbTable (st k') p) = areas k (old_state k)"
proof (cases "mem k x = 0")
  case True
  obtain k' where "scheduler_block_current x (old_state k) k = Some k'" "current_proc k' = Null" "kernel_only k k'"
      "kernel_rel k' (a\<lparr>a_sem := (a_sem a)(x := prio_insert (prio (st k)) p (a_sem a x))\<rparr>)"
      "p_s (pcbTable (st k') p) = areas k (old_state k)"
    using block_spec [OF assms(1-3), of x] by blast
  then show ?thesis using True passeren_blocks [OF assms(4) True] kernel_only_fields(6) by auto
next
  case False
  then show ?thesis using passeren_takes [OF assms(4) False] by simp
qed

lemma passeren_result_example:
  "\<exists>k'. passeren 0x200 ((demo_two UMPS)\<lparr>old_state := 4, mem := (\<lambda>_. 0)\<rparr>) = Some k' \<and> current_proc k' = Null \<and>
     kernel_rel k' (two_abs\<lparr>a_sem := (\<lambda>_. [])(0x200 := [19])\<rparr>)"
proof -
  have "kernel_rel ((demo_two UMPS)\<lparr>old_state := 4, mem := (\<lambda>_. 0)\<rparr>) two_abs"
    by (rule kernel_rel_cong [OF demo_two(1) [of UMPS]]) simp_all
  from passeren_result [OF this, of 19 "0x200"] show ?thesis
    using demo_two(2) [of UMPS] by (auto simp: two_abs_def prio_insert_def)
qed

text \<open>
  C15. \<open>VERHOGEN\<close> undoes \<open>PASSEREN\<close>: on a semaphore that was free to take the two leave the state as
  it was; on one at zero nobody waited for, the process that blocked is ready again with the
  registers it had, and the semaphore is as before, value and queue.
\<close>

theorem passeren_verhogen:
  assumes "kernel_rel k a" and "current_proc k = Ptr p" and "old_state k \<noteq> 0" and "x \<noteq> 0" and "a_sem a x = []"
  shows "\<exists>k1. passeren x k = Some k1 \<and>
    (if mem k x \<noteq> 0 then verhogen x k1 = Some k
     else \<exists>s2. verhogen x k1 = Some (k1\<lparr>st := s2\<rparr>) \<and> mem k1 = mem k \<and>
       kernel_rel (k1\<lparr>st := s2\<rparr>) (a\<lparr>a_ready := prio_insert (prio s2) p (a_ready a)\<rparr>) \<and>
       p_s (pcbTable s2 p) = areas k (old_state k))"
proof (cases "mem k x = 0")
  case False
  let ?k = "k\<lparr>mem := (mem k)(x := mem k x - 1)\<rparr>"
  have "kernel_rel ?k a" by (rule kernel_rel_cong [OF assms(1)]) simp_all
  then have "verhogen x ?k = Some k" using verhogen_counts [OF _ assms(5,4)] by simp
  then show ?thesis using passeren_takes [OF assms(4) False] False by simp
next
  case True
  let ?a = "a\<lparr>a_sem := (a_sem a)(x := [p])\<rparr>"
  obtain k1 where k1: "scheduler_block_current x (old_state k) k = Some k1" "current_proc k1 = Null" "kernel_only k k1"
      "kernel_rel k1 ?a" "p_s (pcbTable (st k1) p) = areas k (old_state k)"
    using block_spec [OF assms(1-3), of x] assms(5) by (auto simp: prio_insert_def)
  have q: "a_sem ?a x = [p]" by simp
  obtain s2 where s2: "verhogen x k1 = Some (k1\<lparr>st := s2\<rparr>)"
      "kernel_rel (k1\<lparr>st := s2\<rparr>) (?a\<lparr>a_sem := (a_sem ?a)(x := []), a_ready := prio_insert (prio s2) p (a_ready ?a)\<rparr>)"
      "p_s (pcbTable s2 p) = p_s (pcbTable (st k1) p)"
    using verhogen_wakes [OF k1(4) q] by auto
  have "?a\<lparr>a_sem := (a_sem ?a)(x := []), a_ready := prio_insert (prio s2) p (a_ready ?a)\<rparr> =
      a\<lparr>a_ready := prio_insert (prio s2) p (a_ready a)\<rparr>"
    using assms(5) by (auto intro!: proc_abs.equality)
  then show ?thesis using k1(1,5) s2 True passeren_blocks [OF assms(4) True] kernel_only_fields(6) [OF k1(3)] by auto
qed

theorem passeren_verhogen_witness:
  "\<exists>k1. passeren 0x200 ((demo_two UMPS)\<lparr>old_state := 4, mem := (\<lambda>_. 3)\<rparr>) = Some k1 \<and> mem k1 0x200 = 2 \<and>
     verhogen 0x200 k1 = Some ((demo_two UMPS)\<lparr>old_state := 4, mem := (\<lambda>_. 3)\<rparr>)"
proof -
  let ?k = "(demo_two UMPS)\<lparr>old_state := 4, mem := (\<lambda>_. 3)\<rparr>"
  have "kernel_rel ?k two_abs" by (rule kernel_rel_cong [OF demo_two(1) [of UMPS]]) simp_all
  moreover have "a_sem two_abs 0x200 = []" by (simp add: two_abs_def)
  ultimately show ?thesis using passeren_verhogen [of ?k two_abs 19 "0x200"] demo_two(2) [of UMPS]
    by (auto simp: passeren_takes)
qed

section \<open>Exceptions\<close>

text \<open>
  \<open>SPECPASSUP\<close> works once per kind of exception: the first call records the two areas in the
  caller and nothing else, and a later exception of that kind then loads the new area and leaves the
  registers of the process in the old one; a second call frees the caller and its descendants.
\<close>

lemma spec_pass_up_result:
  assumes r: "kernel_rel k a" and c: "current_proc k = Ptr p" and n: "unat ty < 3"
    and old: "old \<noteq> 0" and oa: "oa \<noteq> 0" "na \<noteq> 0" "oa \<noteq> na"
  shows "if exc_new_areas (pcbTable (st k) p) ! unat ty = 0 then
      (\<exists>k' k''. spec_pass_up ty oa na k = Some (SYSCALL_SUCCESS, k') \<and> kernel_rel k' a \<and> current_proc k' = Ptr p \<and>
        scheduler_handle_exception (unat ty) old k' = Some (areas k na, k'') \<and> kernel_rel k'' a \<and>
        current_proc k'' = Ptr p \<and> areas k'' = (areas k)(oa := areas k old))
    else (\<exists>k' a'. spec_pass_up ty oa na k = Some (SYSCALL_FAILURE, k') \<and> kernel_rel k' a' \<and>
        current_proc k' = Null \<and> set (a_free a') = set (a_free a) \<union> subtree a p)"
proof (cases "exc_new_areas (pcbTable (st k) p) ! unat ty = 0")
  case False
  have p: "p < MAXPROC" "p \<notin> set (a_free a)" using kernel_relD(3,4) [OF r c] by auto
  obtain k' a' where k': "scheduler_kill_process (Ptr p) k = Some k'" "kernel_rel k' a'" "current_proc k' = Null"
      "removed (subtree a p) (st k) a (running (current_proc k)) (st k') a' (running (current_proc k'))"
    using kill_process_spec [OF r p] c by auto
  then show ?thesis using False spec_pass_up_again [OF r c n False, of oa na] removed_free [OF k'(4)] by auto
next
  case True
  let ?b = "pcbTable (st k) p"
  define k' where "k' = k\<lparr>st := (st k)\<lparr>pcbTable := (pcbTable (st k))(p := ?b
    \<lparr>exc_new_areas := (exc_new_areas ?b)[unat ty := na], exc_old_areas := (exc_old_areas ?b)[unat ty := oa]\<rparr>)\<rparr>\<rparr>"
  have s: "spec_pass_up ty oa na k = Some (SYSCALL_SUCCESS, k')" "kernel_rel k' a"
    using spec_pass_up_set [OF r c n True, of oa na] by (auto simp: k'_def)
  have c': "current_proc k' = Ptr p" "areas k' = areas k" using c by (simp_all add: k'_def)
  have "length (exc_new_areas ?b) = 3" "length (exc_old_areas ?b) = 3" using kernel_relD(2) [OF r] by (simp_all add: areas_ok_def)
  then have ar: "exc_new_areas (pcbTable (st k') p) ! unat ty = na" "exc_old_areas (pcbTable (st k') p) ! unat ty = oa"
    using n by (simp_all add: k'_def)
  obtain k'' where k'': "scheduler_handle_exception (unat ty) old k' = Some (areas k na, k'')" "kernel_rel k'' a"
      "timed (k'\<lparr>areas := (areas k)(oa := areas k old)\<rparr>) k''"
    using handle_exception_pass [OF s(2) c'(1) old n] ar oa c'(2) by auto
  show ?thesis using True s c'(1) k''(1,2) timed_fields(3,6) [OF k''(3)] by auto
qed

lemma spec_pass_up_result_example:
  "\<exists>k' k''. spec_pass_up 1 0x6000 0x6100 (demo_run UMPS) = Some (SYSCALL_SUCCESS, k') \<and>
     scheduler_handle_exception 1 4 k' = Some (areas (demo_run UMPS) 0x6100, k'') \<and> areas k'' 0x6000 = areas (demo_run UMPS) 4"
proof -
  have "exc_new_areas (pcbTable (st (demo_run UMPS)) 19) ! 1 = 0" using demo_run(6) by simp
  then show ?thesis using spec_pass_up_result [OF demo_run(1,2), of 1 4 "0x6000" "0x6100" UMPS] by auto
qed

text \<open>An exception nobody registered for kills the process and its descendants.\<close>

lemma exception_kills:
  assumes r: "kernel_rel k a" and c: "current_proc k = Ptr p" and ty: "ty < 3"
    and z: "exc_new_areas (pcbTable (st k) p) ! ty = 0"
  shows "\<exists>v k' a'. scheduler_handle_exception ty old k = Some (v, k') \<and> kernel_rel k' a' \<and> set (a_free a') = set (a_free a) \<union> subtree a p \<and>
    (case filter (\<lambda>q. q \<notin> subtree a p) (a_ready a) of
       [] \<Rightarrow> current_proc k' = Null \<and> v = idle_proc_state k \<and> a_ready a' = []
     | q # rq \<Rightarrow> current_proc k' = Ptr q \<and> v = p_s (pcbTable (st k) q) \<and> a_ready a' = rq)"
proof -
  obtain k1 k2 a' where k2: "scheduler_handle_exception ty old k = scheduler_dispatch k2" "timed k k1" "kernel_rel k2 a'"
      "current_proc k2 = Null" "kernel_only k k2" "removed (subtree a p) (st k1) a {p} (st k2) a' {}"
    using handle_exception_kill [OF r c ty z] by blast
  let ?rq = "filter (\<lambda>q. q \<notin> subtree a p) (a_ready a)"
  have rq: "a_ready a' = ?rq" using k2(6) by (simp add: removed_def)
  obtain v k' where k': "scheduler_dispatch k2 = Some (v, k')" "kernel_rel k' (a'\<lparr>a_ready := tl ?rq\<rparr>)"
      "current_proc k' = (case ?rq of [] \<Rightarrow> Null | p # _ \<Rightarrow> Ptr p)"
      "v = (case ?rq of [] \<Rightarrow> idle_proc_state k2 | p # _ \<Rightarrow> p_s (pcbTable (st k2) p))"
    using dispatch_kernel_rel [OF k2(3,4)] rq by auto
  have ps: "p_s (pcbTable (st k2) q) = p_s (pcbTable (st k) q)" if "q \<notin> subtree a p" for q
    using that k2(6) timed_pcb(3) [OF k2(2)] by (auto simp: removed_def)
  have "(case ?rq of [] \<Rightarrow> current_proc k' = Null \<and> v = idle_proc_state k \<and> tl ?rq = []
     | q # rq \<Rightarrow> current_proc k' = Ptr q \<and> v = p_s (pcbTable (st k) q) \<and> tl ?rq = rq)"
  proof (cases ?rq)
    case Nil
    then show ?thesis using k'(3,4) kernel_only_fields(3) [OF k2(5)] by simp
  next
    case (Cons q rq)
    then have "q \<in> set ?rq" by simp
    then have "q \<notin> subtree a p" by simp
    then show ?thesis using Cons k'(3,4) ps by simp
  qed
  then show ?thesis using k2(1) k'(1,2) removed_free [OF k2(6)]
    by (intro exI [of _ v] exI [of _ k'] exI [of _ "a'\<lparr>a_ready := tl ?rq\<rparr>"]) (simp split: list.splits)
qed

text \<open>
  C21. A program trap or a memory exception of the running process, each branch. If the process has
  registered areas for that kind of exception (and the one to save in is not NULL), its state is
  copied from the machine's old area to its own and it goes on with the state in its new area, no
  other area and no table changing but for the times. If not, the process and all its descendants
  are killed and freed, and the first ready process that is left runs with the registers it had, or
  the idle state if there is none.
\<close>

theorem exception_result:
  assumes r: "kernel_rel k a" and c: "current_proc k = Ptr p"
    and e: "(e, ty, old) \<in> {(PgmTrap, SPECPASSUP_TRAP_TYPE, PGMTRAP_OLDAREA (target k)), (Tlb, SPECPASSUP_TLB_TYPE, TLB_OLDAREA (target k))}"
    and new: "new = exc_new_areas (pcbTable (st k) p) ! ty" and own: "own = exc_old_areas (pcbTable (st k) p) ! ty"
    and nz: "new \<noteq> 0 \<longrightarrow> own \<noteq> 0"
  shows "if new \<noteq> 0 then
      (\<exists>k'. handler e k = Some (((areas k)(own := areas k old)) new, k') \<and> kernel_rel k' a \<and> current_proc k' = Ptr p \<and>
         areas k' = (areas k)(own := areas k old) \<and> timed (k\<lparr>areas := areas k'\<rparr>) k')
    else (\<exists>v k' a'. handler e k = Some (v, k') \<and> kernel_rel k' a' \<and> set (a_free a') = set (a_free a) \<union> subtree a p \<and>
       (case filter (\<lambda>q. q \<notin> subtree a p) (a_ready a) of
          [] \<Rightarrow> current_proc k' = Null \<and> v = idle_proc_state k \<and> a_ready a' = []
        | q # rq \<Rightarrow> current_proc k' = Ptr q \<and> v = p_s (pcbTable (st k) q) \<and> a_ready a' = rq))"
proof -
  have h: "handler e k = scheduler_handle_exception ty old k" "ty < 3" "old \<noteq> 0"
    using e area_nonzero by (auto simp: trap_exception_handler_def tlb_exception_handler_def SPECPASSUP_TRAP_TYPE_def SPECPASSUP_TLB_TYPE_def)
  show ?thesis
  proof (cases "new = 0")
    case True
    obtain v k' a' where "handler e k = Some (v, k')" "kernel_rel k' a'" "set (a_free a') = set (a_free a) \<union> subtree a p"
        "case filter (\<lambda>q. q \<notin> subtree a p) (a_ready a) of
          [] \<Rightarrow> current_proc k' = Null \<and> v = idle_proc_state k \<and> a_ready a' = []
        | q # rq \<Rightarrow> current_proc k' = Ptr q \<and> v = p_s (pcbTable (st k) q) \<and> a_ready a' = rq"
      using exception_kills [OF r c h(2), of old] True new h(1) by auto
    then show ?thesis using True by auto
  next
    case False
    obtain k' where k': "scheduler_handle_exception ty old k = Some (((areas k)(own := areas k old)) new, k')"
        "kernel_rel k' a" "timed (k\<lparr>areas := (areas k)(own := areas k old)\<rparr>) k'"
      using handle_exception_pass [OF r c h(3,2)] False nz by (auto simp: new own)
    then show ?thesis using False h(1) c timed_fields(3,6) [OF k'(3)] by auto
  qed
qed

text \<open>The first process registers the areas \<open>0x6000\<close> and \<open>0x6100\<close> for memory exceptions, and one happens; a trap kills it.\<close>

theorem exception_result_witness:
  "\<exists>k1 k2. spec_pass_up 1 0x6000 0x6100 (demo_run UMPS) = Some (SYSCALL_SUCCESS, k1) \<and>
     handler Tlb k1 = Some (areas (demo_run UMPS) 0x6100, k2) \<and> current_proc k2 = Ptr 19 \<and>
     areas k2 0x6000 = areas (demo_run UMPS) (TLB_OLDAREA UMPS) \<and>
     (\<exists>v k3. handler PgmTrap k1 = Some (v, k3) \<and> current_proc k3 = Null \<and> v = idle_proc_state (demo_run UMPS))"
proof -
  let ?k = "demo_run UMPS" and ?na = "exc_new_areas (pcbTable (st (demo_run UMPS)) 19)" and ?oa = "exc_old_areas (pcbTable (st (demo_run UMPS)) 19)"
  have ea: "?na = [0, 0, 0]" "length ?oa = 3" using demo_run(6) kernel_relD(2) [OF demo_run(1), of UMPS] by (auto simp: areas_ok_def)
  obtain k1 where k1: "spec_pass_up 1 0x6000 0x6100 ?k = Some (SYSCALL_SUCCESS, k1)" "kernel_rel k1 running_abs"
      "current_proc k1 = Ptr 19" "target k1 = UMPS" "areas k1 = areas ?k" "idle_proc_state k1 = idle_proc_state ?k"
      "exc_new_areas (pcbTable (st k1) 19) = ?na[1 := 0x6100]" "exc_old_areas (pcbTable (st k1) 19) = ?oa[1 := 0x6000]"
    using spec_pass_up_set [OF demo_run(1,2), of 1 UMPS "0x6000" "0x6100"] ea demo_run(2,3) [of UMPS] by auto
  have sp: "SPECPASSUP_TLB_TYPE = 1" "SPECPASSUP_TRAP_TYPE = 2" by (simp_all add: SPECPASSUP_TRAP_TYPE_def SPECPASSUP_TLB_TYPE_def)
  have "\<exists>k2. handler Tlb k1 = Some (areas ?k 0x6100, k2) \<and> current_proc k2 = Ptr 19 \<and> areas k2 0x6000 = areas ?k (TLB_OLDAREA UMPS)"
    using exception_result [OF k1(2,3), of Tlb SPECPASSUP_TLB_TYPE "TLB_OLDAREA UMPS" "0x6100" "0x6000"] k1(4,5,7,8) ea by (auto simp: sp)
  moreover have "\<exists>v k3. handler PgmTrap k1 = Some (v, k3) \<and> current_proc k3 = Null \<and> v = idle_proc_state ?k"
    using exception_result [OF k1(2,3), of PgmTrap SPECPASSUP_TRAP_TYPE "PGMTRAP_OLDAREA UMPS" 0 "?oa ! 2"] k1(4,6,7,8) ea
    by (auto simp: sp running_abs_def)
  ultimately show ?thesis using k1(1) by blast
qed

section \<open>Times\<close>

text \<open>
  \<open>GETCPUTIME\<close> stores the time since the process first ran, its user time and its kernel time, each
  of them as the low word of the 64-bit sum; the kernel time includes the call itself up to that
  point, and nothing but those three words, the times of the process and the last switch changes.
\<close>

lemma cpu_time_result:
  assumes "kernel_rel k a" and "current_proc k = Ptr p" and "user \<noteq> 0" "kern \<noteq> 0" "wallclock \<noteq> 0"
    and "user \<noteq> kern" "user \<noteq> wallclock" "kern \<noteq> wallclock"
  shows "\<exists>k'. get_cpu_time user kern wallclock k = Some k' \<and> kernel_rel k' a \<and> current_proc k' = Ptr p \<and>
    mem k' wallclock = clock k (reads k) - ucast (start_tm (pcbTable (st k) p)) \<and>
    mem k' user = ucast (user_tm (pcbTable (st k) p)) \<and>
    mem k' kern = ucast (kernel_tm (pcbTable (st k) p)) + (clock k (Suc (reads k)) - switch_tick k) \<and>
    (\<forall>w. w \<notin> {user, kern, wallclock} \<longrightarrow> mem k' w = mem k w) \<and>
    user_tm (pcbTable (st k') p) = user_tm (pcbTable (st k) p)"
  unfolding get_cpu_time_spec [OF assms(1-5)]
  by (intro exI conjI, rule refl, rule kernel_rel_charge [OF assms(1)])
    (use assms(2,6-8) in \<open>simp_all add: charge_def ucast_diff_down ucast_add_down ucast_up_down\<close>)

lemma cpu_time_result_example:
  "\<exists>k'. get_cpu_time 0x9000 0x9004 0x9008 (demo_run UMPS) = Some k' \<and> current_proc k' = Ptr 19 \<and>
     mem k' 0x9000 = ucast (user_tm (pcbTable (st (demo_run UMPS)) 19))"
  using cpu_time_result [OF demo_run(1,2), of "0x9000" "0x9004" "0x9008" UMPS] by auto

end
