(* ===== verification/Devices.thy ===== *)
theory Devices
  imports Kernel
begin

text \<open>
  What the interrupt handler promises to the processes that wait for devices: every device has a
  semaphore of its own inside the array, an interrupt wakes exactly the first process that waits for
  each device that interrupts, a process that asks a device for something is woken with its answer,
  and the cases in which the handler does something else.
\<close>

text \<open>
  C18. \<open>interrupts_get_dev_key\<close> gives each of the forty devices, and each half of the eight terminals,
  an element of \<open>devices_semkeys\<close> of its own, inside the array of 48 words. The second argument is a
  byte the caller chooses: any value above one, for a terminal, is outside the array.
\<close>

theorem dev_keys:
  assumes "line \<in> set dev_lines" and "i \<in> set dev_nums"
  shows "(\<exists>key. interrupts_get_dev_key (DEV_REG_ADDR (target k) line i) (if rcpt then 1 else 0) k = Some key \<and>
      key - devices_semkeys_addr (linked k) \<le> 4 * 47 \<and>
      (\<forall>line'\<in>set dev_lines. \<forall>j\<in>set dev_nums. \<forall>r.
        interrupts_get_dev_key (DEV_REG_ADDR (target k) line' j) (if r then 1 else 0) k = Some key \<longrightarrow>
        line' = line \<and> j = i \<and> (line = IL_TERMINAL \<longrightarrow> r = rcpt))) \<and>
    (\<forall>r>1. interrupts_get_dev_key (DEV_REG_ADDR (target k) IL_TERMINAL i) r k = None)"
proof -
  let ?key = "dev_key k line i rcpt"
  have row: "4 * (row * 8 + j) \<le> 4 * 47" if "row \<in> {0, 1, 2, 3, 4, 5 :: u32}" "j \<in> set dev_nums" for row j
    using that unfolding dev_nums_def list.set insert_iff empty_iff by (elim disjE; simp)
  have "?key - devices_semkeys_addr (linked k) \<le> 4 * 47"
    using row [OF dev_row_range [OF assms(1), of rcpt] assms(2)] by (simp add: dev_key_def il_defs)
  moreover have "line' = line \<and> j = i \<and> (line = IL_TERMINAL \<longrightarrow> r = rcpt)"
    if "line' \<in> set dev_lines" "j \<in> set dev_nums"
      "interrupts_get_dev_key (DEV_REG_ADDR (target k) line' j) (if r then 1 else 0) k = Some ?key" for line' j r
    using that get_dev_key_at [OF that(1,2), of k r] dev_key_inj [OF that(1) assms(1) that(2) assms(2), of k r rcpt] by auto
  moreover have "interrupts_get_dev_key (DEV_REG_ADDR (target k) IL_TERMINAL i) r k = None" if r: "1 < r" for r :: u8
  proof -
    have l: "IL_TERMINAL \<in> set dev_lines" by (simp add: dev_lines_def il_defs)
    have "\<not> IL_TERMINAL - DEV_IL_START + (ucast r :: u32) < N_EXT_IL + 1"
    proof -
      have "unat r < 256" using unsigned_less [of r, where ?'a = nat] by simp
      moreover have "1 < unat r" using r by (simp add: word_less_nat_alt)
      moreover have "unat (ucast r :: u32) = unat r"
        using calculation(1) by (simp add: unsigned_ucast_eq take_bit_nat_eq_self)
      ultimately have "unat (4 + ucast r :: u32) = 4 + unat r" by (simp add: unat_add_lem [THEN iffD1])
      then show ?thesis using \<open>1 < unat r\<close> by (simp add: il_defs word_less_nat_alt)
    qed
    then show ?thesis unfolding get_dev_key_row [OF l assms(2)] devices_semkeys_def by simp
  qed
  ultimately show ?thesis using get_dev_key_at [OF assms, of k rcpt] by blast
qed

theorem dev_keys_witness:
  "\<exists>key. interrupts_get_dev_key 0x10000270 1 (demo_kst UMPS) = Some key \<and> key - 0x20009400 \<le> 4 * 47 \<and>
     interrupts_get_dev_key 0x10000270 2 (demo_kst UMPS) = None"
  using dev_keys [of 7 2 "demo_kst UMPS" True]
  by (auto simp: dev_lines_def dev_nums_def demo_kst_def DEV_REG_ADDR_def il_defs)

lemma interrupt_wakes_all:
  assumes r: "kernel_rel k a" and e: "expected k a"
  shows "\<exists>v k' a'. interrupts_handler k = Some (v, k') \<and> kernel_rel k' a' \<and>
    a_free a' = a_free a \<and> a_kids a' = a_kids a \<and>
    (\<forall>x. a_sem a' x = (if x \<in> set (int_wakes k) then tl (a_sem a x) else a_sem a x)) \<and>
    (\<forall>x\<in>set (int_wakes k). hd (a_sem a x) \<in> set (a_ready a') \<union> running (current_proc k'))"
proof -
  obtain v k' a' where k': "interrupts_handler k = Some (v, k')" "kernel_rel k' a'" "a_free a' = a_free a" "a_kids a' = a_kids a"
      "\<forall>x. a_sem a' x = (if x \<in> set (int_wakes k) then tl (a_sem a x) else a_sem a x)"
    using interrupts_handler_rel [OF assms] by blast
  have "hd (a_sem a x) \<in> set (a_ready a') \<union> running (current_proc k')" if x: "x \<in> set (int_wakes k)" for x
  proof -
    note m = store_relD(3) [OF kernel_relD(1) [OF r]]
    have "a_sem a x \<noteq> []" using e x unfolding expected_def int_wakes_def Let_def by auto
    then obtain p ps where p: "a_sem a x = p # ps" by (cases "a_sem a x") auto
    note pl = store_relD(5) [OF kernel_relD(1) [OF r]] and pl' = store_relD(5) [OF kernel_relD(1) [OF k'(2)]]
    have b: "p \<in> blocked (a_sem a)" using p by (auto simp: blocked_def intro!: exI [of _ x])
    have "p < MAXPROC" using pl b unfolding places_def by blast
    moreover have "p \<notin> set (a_free a')" using pl b k'(3) unfolding places_def by auto
    moreover have "p \<notin> blocked (a_sem a')"
    proof
      assume "p \<in> blocked (a_sem a')"
      then obtain y where y: "p \<in> set (a_sem a' y)" by (auto simp: blocked_def)
      then have "p \<in> set (a_sem a y)" using k'(5) by (metis list.set_sel(2) tl_Nil)
      then have "y = x" using asl_relD(2) [OF m, of p] p by (metis list.set_intros(1))
      then show False using y k'(5) x p asl_rel_distinct [OF m, of x] by auto
    qed
    ultimately show ?thesis using pl' p unfolding places_def by auto
  qed
  then show ?thesis using k' by blast
qed

lemma interrupt_wakes_first:
  assumes "kernel_rel k a" and "expected k a" and "x \<in> set (int_wakes k)"
  shows "\<exists>v k' a'. interrupts_handler k = Some (v, k') \<and> kernel_rel k' a' \<and> a_sem a' x = tl (a_sem a x) \<and>
    hd (a_sem a x) \<in> set (a_ready a') \<union> running (current_proc k')"
  using interrupt_wakes_all [OF assms(1,2)] assms(3) by metis

text \<open>
  C17. When every device that interrupts is waited for and the printer line is quiet, the interrupt
  handler wakes exactly the first process on the semaphore of each interrupting device: each of those
  queues loses its head and no other queue changes, no process is created, killed or moved in the
  tree, and the woken ones are ready or running afterwards.
\<close>

theorem interrupt_wakes:
  assumes r: "kernel_rel k a" and e: "expected k a"
  shows "\<exists>v k' a'. interrupts_handler k = Some (v, k') \<and> kernel_rel k' a' \<and>
    a_free a' = a_free a \<and> a_kids a' = a_kids a \<and>
    (\<forall>x. a_sem a' x = (if x \<in> set (int_wakes k) then tl (a_sem a x) else a_sem a x)) \<and>
    (\<forall>x\<in>set (int_wakes k). hd (a_sem a x) \<in> set (a_ready a') \<union> running (current_proc k'))"
  by (rule interrupt_wakes_all [OF assms])

text \<open>A disk interrupts the process that waits for it.\<close>

definition demo_int :: kst where
  "demo_int = (demo_wait UMPS (dev_key (demo_two UMPS) IL_DISK 2 False))\<lparr>
     areas := (\<lambda>_. UmpsState \<lparr>um_entry_hi = 0, um_cause = 0x800, um_status = 0, um_pc_epc = 0,
       um_gpr = replicate STATE_GPR_LEN 0, um_hi = 0, um_lo = 0\<rparr>), bytes := (\<lambda>_. 4)\<rparr>"

lemma demo_int:
  defines "key \<equiv> dev_key (demo_two UMPS) IL_DISK 2 False"
  shows "kernel_rel demo_int (wait_abs key)" "int_wakes demo_int = [key]" "expected demo_int (wait_abs key)"
proof -
  show "kernel_rel demo_int (wait_abs key)"
    by (rule kernel_rel_cong [OF demo_wait(1) [of UMPS key]]) (simp_all add: demo_int_def key_def)
  have t: "target demo_int = UMPS" and l: "linked demo_int = linked (demo_two UMPS)"
    using demo_wait(3,4) by (simp_all add: demo_int_def)
  have c: "CAUSE (areas demo_int x) = 0x800" "bytes demo_int x = 4" for x by (simp_all add: demo_int_def)
  have h: "handled_lines UMPS 0x800 = [IL_DISK]" by (simp add: handled_lines_def pending_defs il_defs push_bit_eq_mult)
  have d: "dev_wakes demo_int IL_DISK 2 = [key]" using l by (simp add: dev_wakes_def Let_def dev_key_def key_def il_defs)
  have "line_wakes demo_int IL_DISK = [key]"
    unfolding line_wakes_def bit_wakes_def c(2) by (simp add: upt_rec d bit_numeral_rec)
  then show "int_wakes demo_int = [key]" "expected demo_int (wait_abs key)"
    unfolding int_wakes_def expected_def t c(1) Let_def h
    by (simp_all add: wait_abs_def pending_defs il_defs push_bit_eq_mult)
qed

theorem interrupt_wakes_witness:
  "\<exists>v k' a'. interrupts_handler demo_int = Some (v, k') \<and> kernel_rel k' a' \<and>
     a_sem a' (dev_key (demo_two UMPS) IL_DISK 2 False) = [] \<and> 19 \<in> set (a_ready a') \<union> running (current_proc k')"
proof -
  let ?key = "dev_key (demo_two UMPS) IL_DISK 2 False"
  have s: "a_sem (wait_abs ?key) ?key = [19]" by (simp add: wait_abs_def)
  obtain v k' a' where "interrupts_handler demo_int = Some (v, k')" "kernel_rel k' a'"
      "a_sem a' ?key = tl (a_sem (wait_abs ?key) ?key)"
      "hd (a_sem (wait_abs ?key) ?key) \<in> set (a_ready a') \<union> running (current_proc k')"
    using interrupt_wakes [OF demo_int(1,3)] unfolding demo_int(2) by auto
  then show ?thesis unfolding s by auto
qed

text \<open>
  C24. A pending printer line is looked up in the bitmap of the network line. When only the printer and
  possibly the timer interrupt, no semaphore changes and no device is acknowledged: a process that
  waits for a printer goes on waiting.
\<close>

theorem printer_never_wakes:
  assumes r: "kernel_rel k a"
    and pend: "\<forall>l\<in>{IL_DISK, IL_TAPE, IL_ETHERNET, IL_TERMINAL}.
      \<not> INT_IS_PENDING (target k) (CAUSE (areas k (INT_OLDAREA (target k)))) l"
    and b: "bytes k (CDEV_BITMAP_ADDR (target k) IL_ETHERNET) = 0"
  shows "\<exists>v k' rq. interrupts_handler k = Some (v, k') \<and> kernel_rel k' (a\<lparr>a_ready := rq\<rparr>) \<and> devs k' = devs k"
  by (rule printer_ignored [OF assms])

text \<open>The printer interrupts, and a process waits for it.\<close>

definition demo_printer :: kst where
  "demo_printer = (demo_wait UARM (dev_key (demo_two UARM) IL_PRINTER 0 False))\<lparr>
     areas := (\<lambda>_. UarmState \<lparr>ua_a1 = 0, ua_a2 = 0, ua_a3 = 0, ua_a4 = 0, ua_v1 = 0, ua_v2 = 0, ua_v3 = 0,
       ua_v4 = 0, ua_v5 = 0, ua_v6 = 0, ua_sl = 0, ua_fp = 0, ua_ip = 0, ua_sp = 0, ua_lr = 0,
       ua_pc = 0x9100, ua_cpsr = 0, ua_CP15_Control = 0, ua_CP15_EntryHi = 0, ua_CP15_Cause = 0x40000000,
       ua_TOD_Hi = 0, ua_TOD_Low = 0\<rparr>),
     bytes := (\<lambda>_. 0)(CDEV_BITMAP_ADDR UARM IL_PRINTER := 1)\<rparr>"

theorem printer_never_wakes_witness:
  "INT_IS_PENDING UARM (CAUSE (areas demo_printer (INT_OLDAREA UARM))) IL_PRINTER \<and>
   (\<exists>v k' a'. interrupts_handler demo_printer = Some (v, k') \<and> kernel_rel k' a' \<and>
     a_sem a' (dev_key (demo_two UARM) IL_PRINTER 0 False) = [19])"
proof -
  let ?key = "dev_key (demo_two UARM) IL_PRINTER 0 False"
  have r: "kernel_rel demo_printer (wait_abs ?key)"
    by (rule kernel_rel_cong [OF demo_wait(1) [of UARM ?key]]) (simp_all add: demo_printer_def)
  have c: "CAUSE (areas demo_printer x) = 0x40000000" "target demo_printer = UARM"
      "bytes demo_printer (CDEV_BITMAP_ADDR UARM IL_ETHERNET) = 0" for x
    using demo_wait(3) by (simp_all add: demo_printer_def CDEV_BITMAP_ADDR_def il_defs)
  obtain v k' rq where "interrupts_handler demo_printer = Some (v, k')" "kernel_rel k' ((wait_abs ?key)\<lparr>a_ready := rq\<rparr>)"
    using printer_never_wakes [OF r] unfolding c by (auto simp: pending_defs il_defs push_bit_eq_mult)
  moreover have "a_sem ((wait_abs ?key)\<lparr>a_ready := rq\<rparr>) ?key = [19]" by (simp add: wait_abs_def)
  ultimately have "\<exists>v k' a'. interrupts_handler demo_printer = Some (v, k') \<and> kernel_rel k' a' \<and> a_sem a' ?key = [19]" by blast
  moreover have "INT_IS_PENDING UARM 0x40000000 IL_PRINTER" by (simp add: pending_defs IL_PRINTER_def push_bit_eq_mult)
  ultimately show ?thesis unfolding c(1) by blast
qed

text \<open>
  C25. With the printer line quiet, the interrupt handler fails exactly when some device that interrupts
  (of a terminal, a side that is done) has nobody waiting for it: \<open>unblock_process\<close> does not test what
  \<open>asl_remove_blocked\<close> returns and follows the \<open>NULL\<close> pointer.
\<close>

theorem unexpected_interrupt_faults:
  assumes r: "kernel_rel k a" and p: "\<not> INT_IS_PENDING (target k) (CAUSE (areas k (INT_OLDAREA (target k)))) IL_PRINTER"
  shows "interrupts_handler k = None \<longleftrightarrow> (\<exists>x\<in>set (int_wakes k). a_sem a x = [])"
proof
  assume n: "interrupts_handler k = None"
  show "\<exists>x\<in>set (int_wakes k). a_sem a x = []"
  proof (rule ccontr)
    assume "\<not> (\<exists>x\<in>set (int_wakes k). a_sem a x = [])"
    then have "expected k a" using p unfolding expected_def int_wakes_def Let_def by auto
    then show False using interrupts_handler_rel [OF r] n by auto
  qed
qed (rule interrupts_handler_none [OF r p])

text \<open>The disk of \<open>demo_int\<close> interrupts, and nobody waits for it.\<close>

definition demo_unexpected :: kst where
  "demo_unexpected = (demo_run UMPS)\<lparr>areas := areas demo_int, bytes := bytes demo_int\<rparr>"

theorem unexpected_interrupt_faults_witness: "interrupts_handler demo_unexpected = None"
proof -
  have f: "target demo_unexpected = UMPS" "CAUSE (areas demo_unexpected x) = 0x800" "bytes demo_unexpected x = 4" for x
    using demo_run(3) [of UMPS] by (simp_all add: demo_unexpected_def demo_int_def)
  have r: "kernel_rel demo_unexpected running_abs"
    by (rule kernel_rel_cong [OF demo_run(1) [of UMPS]]) (simp_all add: demo_unexpected_def)
  have "handled_lines UMPS 0x800 = [IL_DISK]" by (simp add: handled_lines_def pending_defs il_defs push_bit_eq_mult)
  moreover have "dev_key demo_unexpected IL_DISK 2 False \<in> set (line_wakes demo_unexpected IL_DISK)"
    unfolding line_wakes_def bit_wakes_def f by (simp add: upt_rec bit_numeral_rec dev_wakes_def Let_def il_defs)
  ultimately have "\<exists>x\<in>set (int_wakes demo_unexpected). a_sem running_abs x = []"
    unfolding int_wakes_def f by (auto simp: running_abs_def)
  moreover have "\<not> INT_IS_PENDING UMPS 0x800 IL_PRINTER" by (simp add: pending_defs il_defs push_bit_eq_mult)
  ultimately show ?thesis using unexpected_interrupt_faults [OF r] unfolding f by blast
qed

section \<open>Waiting for a device\<close>

text \<open>What the handler does to the first process that waits for an interrupting device.\<close>

lemma interrupt_result:
  assumes r: "kernel_rel k a" and e: "expected k a" and l: "line \<in> set dev_lines" and i: "i \<in> set dev_nums"
    and w: "dev_key k line i rcpt \<in> set (int_wakes k)" and q: "a_sem a (dev_key k line i rcpt) = p # ps"
  defines "d \<equiv> DEV_REG_ADDR (target k) line i"
  shows "\<exists>v k' a'. interrupts_handler k = Some (v, k') \<and> kernel_rel k' a' \<and> a_sem a' (dev_key k line i rcpt) = ps \<and>
    p_s (pcbTable (st k') p) = set_SYSRETURN (dev_status line rcpt (devs k d)) (p_s (pcbTable (st k) p)) \<and>
    (p \<in> set (a_ready a') \<or> current_proc k' = Ptr p \<and> v = p_s (pcbTable (st k') p)) \<and>
    dev_command line rcpt (devs k' d) = CMD_ACK"
proof -
  let ?key = "dev_key k line i rcpt"
  obtain k0 k1 a1 x ds where k1: "timed k k0" "woke (int_wakes k) ds (int_entry k k0) a k1 a1"
      "interrupts_handler k = scheduler_resume x (INT_OLDAREA (target k)) k1"
    using interrupts_handler_woke [OF r e] by blast
  note f = int_entry_fields [OF k1(1) r] and sv = servedD [OF woke_fields(6) [OF k1(2)]]
  have key: "dev_key (int_entry k k0) line i rcpt = ?key" using f(3) by (simp add: dev_key_def)
  obtain v k' a' where k': "interrupts_handler k = Some (v, k')" "kernel_rel k' a'" "a_sem a' ?key = ps"
      "p \<in> set (a_ready a') \<union> running (current_proc k')"
    using interrupt_wakes_first [OF r e w] q by auto
  have "p \<in> blocked (a_sem a)" using q by (auto simp: blocked_def intro!: exI [of _ ?key])
  then have c: "current_proc k \<noteq> Ptr p" using store_relD(5) [OF kernel_relD(1) [OF r]] by (auto simp: places_def)
  have c1: "current_proc k1 \<noteq> Ptr p" using woke_fields(1) [OF k1(2)] f(6) c by (simp add: devices_only_def)
  have s: "scheduler_resume x (INT_OLDAREA (target k)) k1 = Some (v, k')" using k1(3) k'(1) by simp
  note rs = resume_saved [OF woke_fields(2) [OF k1(2)] _ s c1]
  have "st (int_entry k k0) = st k0" by (simp add: int_entry_def Let_def setTIMER_def)
  moreover obtain t u where "pcbTable (st k0) p = (pcbTable (st k) p)\<lparr>user_tm := t, kernel_tm := u\<rparr>"
    using k1(1) unfolding timed_def by blast
  ultimately have p0: "p_s (pcbTable (st (int_entry k k0)) p) = p_s (pcbTable (st k) p)" by simp
  have "p_s (pcbTable (st k1) p) = set_SYSRETURN (dev_status line rcpt (devs k d)) (p_s (pcbTable (st k) p))"
    using sv(7) [OF l i, of rcpt] w p0 q unfolding key f(2,4) by (simp add: d_def)
  moreover have "p_s (pcbTable (st k') p) = p_s (pcbTable (st k1) p)" "current_proc k' = Ptr p \<Longrightarrow> v = p_s (pcbTable (st k1) p)"
    using rs area_nonzero(1) by blast+
  moreover obtain v2 k2 where "scheduler_resume x (INT_OLDAREA (target k)) k1 = Some (v2, k2)" "kernel_only k1 k2"
    using resume_rel [OF woke_fields(2) [OF k1(2)]] area_nonzero(1) by blast
  then have "devs k' = devs k1" using s kernel_only_fields(8) by fastforce
  then have "dev_command line rcpt (devs k' d) = CMD_ACK"
    using sv(6) [OF l i, of rcpt] w unfolding key f(2,4) by (simp add: d_def)
  ultimately show ?thesis using k' by (cases "current_proc k'") auto
qed

text \<open>
  C16. A process that waits for a device, or one side of a terminal, nobody else waits for blocks with its
  registers saved and its command in the device. From then on, when the device interrupts while the
  process still waits (and every other device that interrupts is waited for, and the printer line is
  quiet), the interrupt handler takes it off the semaphore, with the status of the device as the result
  of its call and its other registers those it called with, makes it ready or runs it in that state, and
  acknowledges the device. The semaphore of a printer is never among those of the interrupting devices.
\<close>

theorem wait_io_roundtrip:
  assumes r: "kernel_rel k a" and c: "current_proc k = Ptr p" and o: "old_state k \<noteq> 0"
    and l: "line \<in> set dev_lines" and i: "i \<in> set dev_nums" and d: "d = DEV_REG_ADDR (target k) line i"
    and x: "key = dev_key k line i rcpt" and e: "a_sem a key = []"
  shows "\<exists>k1. wait_io command d (if rcpt then 1 else 0) k = Some k1 \<and> current_proc k1 = Null \<and>
    target k1 = target k \<and> linked k1 = linked k \<and> kernel_rel k1 (a\<lparr>a_sem := (a_sem a)(key := [p])\<rparr>) \<and>
    dev_command line rcpt (devs k1 d) = command \<and> p_s (pcbTable (st k1) p) = areas k (old_state k) \<and>
    (\<forall>k2 a2 ps. target k2 = target k \<longrightarrow> linked k2 = linked k \<longrightarrow> kernel_rel k2 a2 \<longrightarrow> a_sem a2 key = p # ps \<longrightarrow>
       p_s (pcbTable (st k2) p) = p_s (pcbTable (st k1) p) \<longrightarrow> expected k2 a2 \<longrightarrow> key \<in> set (int_wakes k2) \<longrightarrow>
       (\<exists>v k3 a3. interrupts_handler k2 = Some (v, k3) \<and> kernel_rel k3 a3 \<and> a_sem a3 key = ps \<and>
          p_s (pcbTable (st k3) p) = set_SYSRETURN (dev_status line rcpt (devs k2 d)) (areas k (old_state k)) \<and>
          (p \<in> set (a_ready a3) \<or> current_proc k3 = Ptr p \<and> v = p_s (pcbTable (st k3) p)) \<and>
          dev_command line rcpt (devs k3 d) = CMD_ACK))"
proof -
  obtain k1 where k1: "wait_io command d (if rcpt then 1 else 0) k = Some k1" "current_proc k1 = Null"
      "kernel_rel k1 (a\<lparr>a_sem := (a_sem a)(key := [p])\<rparr>)" "p_s (pcbTable (st k1) p) = areas k (old_state k)"
      "target k1 = target k" "linked k1 = linked k" "dev_command line rcpt (devs k1 d) = command"
    using wait_io_spec [OF r c o l i, of command rcpt] e by (auto simp: d x prio_insert_def dev_command_def)
  have "\<exists>v k3 a3. interrupts_handler k2 = Some (v, k3) \<and> kernel_rel k3 a3 \<and> a_sem a3 key = ps \<and>
      p_s (pcbTable (st k3) p) = set_SYSRETURN (dev_status line rcpt (devs k2 d)) (areas k (old_state k)) \<and>
      (p \<in> set (a_ready a3) \<or> current_proc k3 = Ptr p \<and> v = p_s (pcbTable (st k3) p)) \<and> dev_command line rcpt (devs k3 d) = CMD_ACK"
    if h: "target k2 = target k" "linked k2 = linked k" "kernel_rel k2 a2" "a_sem a2 key = p # ps"
      "p_s (pcbTable (st k2) p) = p_s (pcbTable (st k1) p)" "expected k2 a2" "key \<in> set (int_wakes k2)" for k2 a2 ps
  proof -
    have key: "dev_key k2 line i rcpt = key" using h(2) by (simp add: x dev_key_def)
    show ?thesis using interrupt_result [OF h(3,6) l i, of rcpt p ps] h(4,5,7) k1(4) unfolding key h(1) d by simp
  qed
  then show ?thesis using k1 by blast
qed

text \<open>A process waits for a disk, which interrupts with status 9 while the processor idles.\<close>

definition disk_ready :: "kst \<Rightarrow> kst" where
  "disk_ready k = k\<lparr>areas := areas demo_int, bytes := bytes demo_int,
     devs := (\<lambda>_. \<lparr>dtp_status = 9, dtp_command = 7, dtp_data0 = 0, dtp_data1 = 0\<rparr>)\<rparr>"

theorem wait_io_roundtrip_witness:
  "\<exists>k1 v k3. wait_io 7 (DEV_REG_ADDR UMPS IL_DISK 2) 0 ((demo_two UMPS)\<lparr>old_state := 4\<rparr>) = Some k1 \<and>
     interrupts_handler (disk_ready k1) = Some (v, k3) \<and>
     p_s (pcbTable (st k3) 19) = set_SYSRETURN 9 (areas (demo_two UMPS) 4)"
proof -
  let ?k = "(demo_two UMPS)\<lparr>old_state := 4\<rparr>" and ?d = "DEV_REG_ADDR UMPS IL_DISK 2" and ?key = "dev_key (demo_two UMPS) IL_DISK 2 False"
  let ?a = "two_abs\<lparr>a_sem := (a_sem two_abs)(?key := [19])\<rparr>"
  have r: "kernel_rel ?k two_abs" by (rule kernel_rel_cong [OF demo_two(1) [of UMPS]]) simp_all
  have c: "current_proc ?k = Ptr 19" "old_state ?k \<noteq> 0" "target ?k = UMPS" using demo_two(2,3) [of UMPS] by simp_all
  have l: "IL_DISK \<in> set dev_lines" "2 \<in> set dev_nums" "?d = DEV_REG_ADDR (target ?k) IL_DISK 2"
      "?key = dev_key ?k IL_DISK 2 False" "a_sem two_abs ?key = []"
    using c(3) by (simp_all add: dev_lines_def dev_nums_def il_defs two_abs_def dev_key_def)
  note W = wait_io_roundtrip [OF r c(1,2) l, of 7]
  obtain k1 where k1: "wait_io 7 ?d 0 ?k = Some k1" "target k1 = UMPS" "linked k1 = linked (demo_two UMPS)" "kernel_rel k1 ?a"
      "\<forall>k2 a2 ps. target k2 = UMPS \<longrightarrow> linked k2 = linked (demo_two UMPS) \<longrightarrow> kernel_rel k2 a2 \<longrightarrow> a_sem a2 ?key = 19 # ps \<longrightarrow>
       p_s (pcbTable (st k2) 19) = p_s (pcbTable (st k1) 19) \<longrightarrow> expected k2 a2 \<longrightarrow> ?key \<in> set (int_wakes k2) \<longrightarrow>
       (\<exists>v k3. interrupts_handler k2 = Some (v, k3) \<and>
          p_s (pcbTable (st k3) 19) = set_SYSRETURN (dev_status IL_DISK False (devs k2 ?d)) (areas (demo_two UMPS) 4))"
    using W c(3) by (auto simp: if_False) blast
  let ?k2 = "disk_ready k1"
  have f: "target ?k2 = UMPS" "linked ?k2 = linked (demo_two UMPS)" "st ?k2 = st k1" "CAUSE (areas ?k2 y) = 0x800" "bytes ?k2 y = 4"
      "dev_status IL_DISK False (devs ?k2 y) = 9" for y
    using k1(2,3) by (simp_all add: disk_ready_def demo_int_def dev_status_def il_defs)
  have r2: "kernel_rel ?k2 ?a" by (rule kernel_rel_cong [OF k1(4)]) (simp_all add: disk_ready_def)
  have h: "handled_lines UMPS 0x800 = [IL_DISK]" by (simp add: handled_lines_def pending_defs il_defs push_bit_eq_mult)
  have "dev_wakes ?k2 IL_DISK 2 = [?key]" using f(2) by (simp add: dev_wakes_def Let_def dev_key_def il_defs)
  then have "line_wakes ?k2 IL_DISK = [?key]"
    unfolding line_wakes_def bit_wakes_def f by (simp add: upt_rec bit_numeral_rec)
  then have "int_wakes ?k2 = [?key]" "expected ?k2 ?a"
    unfolding int_wakes_def expected_def f Let_def h by (simp_all add: pending_defs il_defs push_bit_eq_mult)
  then show ?thesis using k1(1) k1(5) [rule_format, OF f(1,2) r2] f(3,6) by auto
qed

end
