(* ===== verification/Requests.thy ===== *)
theory Requests
  imports Calls
begin

text \<open>
  The system call handler as a whole, from the old area the caller's registers are in to the state
  that is loaded: which process runs next, and with which registers. \<open>answer\<close> is the reference: it
  says of a request, from the abstract view of the tables, whether it returns to the caller (and with
  which result), blocks it, kills it or is passed up.
\<close>

section \<open>The reference\<close>

datatype answer = Returns "u32 option" | Blocks | Dies | PassesUp

definition answer :: "kst \<Rightarrow> proc_abs \<Rightarrow> nat \<Rightarrow> state_t \<Rightarrow> answer" where
  "answer k a p v =
     (let n = SYSARG0 v; a1 = SYSARG1 v; b = pcbTable (st k) p in
      if n = GETCPUTIME then Returns None
      else if n = CREATEPROCESS then Returns (Some (if a_free a = [] then SYSCALL_FAILURE else SYSCALL_SUCCESS))
      else if n = TERMINATEPROCESS then
        (case pcb_at_addr k a1 of Null \<Rightarrow> Dies
         | Ptr q \<Rightarrow> if q \<in> set (a_free a) then Returns (Some SYSCALL_FAILURE)
             else if q = p then Dies else Returns (Some SYSCALL_SUCCESS))
      else if n = VERHOGEN then Returns None
      else if n = PASSEREN then (if mem k a1 = 0 then Blocks else Returns None)
      else if n = WAITIO then Blocks
      else if n = SPECPASSUP then
        (if exc_new_areas b ! unat a1 = 0 then Returns (Some SYSCALL_SUCCESS) else Dies)
      else if n = GETPID then Returns None
      else if exc_new_areas b ! SPECPASSUP_SYSBK_TYPE = 0 then Dies
      else PassesUp)"

definition with_result :: "u32 option \<Rightarrow> state_t \<Rightarrow> state_t" where
  "with_result r v = (case r of None \<Rightarrow> v | Some x \<Rightarrow> set_SYSRETURN x v)"

text \<open>The first process of a queue runs, with the registers in its entry, or the idle state does.\<close>

definition next_runs :: "nat list \<Rightarrow> kst \<Rightarrow> state_t \<Rightarrow> kst \<Rightarrow> bool" where
  "next_runs rq k v k' \<longleftrightarrow> (case rq of
     [] \<Rightarrow> current_proc k' = Null \<and> v = idle_proc_state k
   | q # _ \<Rightarrow> current_proc k' = Ptr q \<and> v = p_s (pcbTable (st k) q))"

section \<open>The calls, one by one\<close>

text \<open>What the switch has done when the call it ran has the answer \<open>r\<close>.\<close>

definition answered :: "kst \<Rightarrow> proc_abs \<Rightarrow> nat \<Rightarrow> answer \<Rightarrow> kst \<Rightarrow> proc_abs \<Rightarrow> bool" where
  "answered k a p r k' a' \<longleftrightarrow> kernel_rel k' a' \<and> keeps k k' \<and> idle_proc_state k' = idle_proc_state k \<and>
     (case r of
        Returns x \<Rightarrow> current_proc k' = Ptr p \<and> areas k' (old_state k) = with_result x (areas k (old_state k))
      | Blocks \<Rightarrow> current_proc k' = Null \<and> a_ready a' = a_ready a \<and> p \<in> blocked (a_sem a') \<and>
          p_s (pcbTable (st k') p) = areas k (old_state k) \<and>
          (\<forall>q. q \<noteq> p \<longrightarrow> p_s (pcbTable (st k') q) = p_s (pcbTable (st k) q))
      | Dies \<Rightarrow> current_proc k' = Null \<and> a_ready a' = filter (\<lambda>q. q \<notin> subtree a p) (a_ready a) \<and>
          set (a_free a') = set (a_free a) \<union> subtree a p \<and>
          (\<forall>q. q \<notin> subtree a p \<longrightarrow> p_s (pcbTable (st k') q) = p_s (pcbTable (st k) q))
      | PassesUp \<Rightarrow> False)"

lemma answers_None:
  assumes "kernel_rel k' a'" and "keeps k k'" and "idle_proc_state k' = idle_proc_state k" "areas k' = areas k"
    and "current_proc k' = Ptr p"
  shows "answered k a p (Returns None) k' a'"
  using assms by (simp add: answered_def with_result_def)

lemma returning_answers:
  assumes r: "kernel_rel k1 a1" and k: "keeps k k1" "idle_proc_state k1 = idle_proc_state k" "areas k1 = areas k"
    and c: "current_proc k1 = Ptr p" and o: "old_state k \<noteq> 0"
  shows "\<exists>k'. returning (Some (x, k1)) = Some k' \<and> answered k a p (Returns (Some x)) k' a1"
proof -
  let ?k = "k1\<lparr>areas := (areas k1)(old_state k1 := set_SYSRETURN x (areas k1 (old_state k1)))\<rparr>"
  have "returning (Some (x, k1)) = Some ?k" using k(1) o by (simp add: returning_def load_area_def store_area_def keeps_def)
  moreover have "kernel_rel ?k a1" by (rule kernel_rel_cong [OF r]) simp_all
  ultimately show ?thesis using k c by (auto simp: answered_def keeps_def with_result_def)
qed

lemma returning_dies:
  assumes d: "answered k a p Dies k1 a1" and o: "old_state k \<noteq> 0"
  shows "\<exists>k'. returning (Some (x, k1)) = Some k' \<and> answered k a p Dies k' a1"
proof -
  let ?k = "k1\<lparr>areas := (areas k1)(old_state k1 := set_SYSRETURN x (areas k1 (old_state k1)))\<rparr>"
  have "returning (Some (x, k1)) = Some ?k" using d o
    by (simp add: returning_def load_area_def store_area_def answered_def keeps_def)
  moreover have "kernel_rel ?k a1" by (rule kernel_rel_cong [of k1]) (use d in \<open>simp_all add: answered_def\<close>)
  ultimately show ?thesis using d by (auto simp: answered_def keeps_def)
qed

lemma block_answers:
  assumes "kernel_rel k a" and "current_proc k = Ptr p" and "old_state k \<noteq> 0"
  shows "\<exists>k' a'. scheduler_block_current x (old_state k) k = Some k' \<and> answered k a p Blocks k' a'"
proof -
  let ?a = "a\<lparr>a_sem := (a_sem a)(x := prio_insert (prio (st k)) p (a_sem a x))\<rparr>"
  obtain k' where k': "scheduler_block_current x (old_state k) k = Some k'" "current_proc k' = Null" "kernel_rel k' ?a"
      "kernel_only k k'" "p_s (pcbTable (st k') p) = areas k (old_state k)"
      "\<forall>q. q \<noteq> p \<longrightarrow> pcbTable (st k') q = pcbTable (st k) q"
    using block_spec [OF assms] by blast
  have "p \<in> blocked (a_sem ?a)" by (auto simp: blocked_def intro!: exI [of _ x])
  then have "answered k a p Blocks k' ?a"
    using k' keeps_kernel_only [OF k'(4)] kernel_only_fields(3) [OF k'(4)] by (simp add: answered_def)
  then show ?thesis using k'(1) by blast
qed

text \<open>Killing the caller itself.\<close>

lemma suicide_answers:
  assumes r: "kernel_rel k a" and c: "current_proc k = Ptr p"
  shows "\<exists>k' a'. scheduler_kill_process (Ptr p) k = Some k' \<and> answered k a p Dies k' a'"
proof -
  have p: "p < MAXPROC" "p \<notin> set (a_free a)" using kernel_relD(3,4) [OF r c] by auto
  obtain k' a' where k': "scheduler_kill_process (Ptr p) k = Some k'" "kernel_rel k' a'"
      "removed (subtree a p) (st k) a {p} (st k') a' {}" "current_proc k' = Null"
      "k' = k\<lparr>st := st k', current_proc := current_proc k'\<rparr>"
    using kill_process_spec [OF r p] c by auto
  have ko: "kernel_only k k'" using k'(5) by (rule kernel_onlyI)
  have "answered k a p Dies k' a'"
    using k'(2-4) keeps_kernel_only [OF ko] kernel_only_fields(3) [OF ko] removed_free [OF k'(3)]
    by (simp add: answered_def removed_def)
  then show ?thesis using k'(1) by blast
qed

lemma create_answers:
  assumes r: "kernel_rel k a" and c: "current_proc k = Ptr p" and s: "state \<noteq> 0" and o: "old_state k \<noteq> 0"
  shows "\<exists>k' a'. returning (create_process state pri cpid k) = Some k' \<and>
    answered k a p (Returns (Some (if a_free a = [] then SYSCALL_FAILURE else SYSCALL_SUCCESS))) k' a'"
proof (cases "a_free a")
  case Nil
  have "keeps k k" by (simp add: keeps_def)
  from returning_answers [OF r this refl refl c o, of SYSCALL_FAILURE a] create_process_full [OF r Nil] Nil
  show ?thesis by auto
next
  case (Cons q fs)
  let ?m = "if cpid \<noteq> 0 then (mem k)(cpid := addr_of_pcb k (Ptr q)) else mem k"
  obtain s' a' where s': "create_process state pri cpid k = Some (SYSCALL_SUCCESS, k\<lparr>st := s', mem := ?m\<rparr>)"
      "kernel_rel (k\<lparr>st := s'\<rparr>) a'"
    using create_process_spec [OF r c Cons s] by blast
  let ?k = "k\<lparr>st := s', mem := ?m\<rparr>"
  have "kernel_rel ?k a'" by (rule kernel_rel_cong [OF s'(2)]) simp_all
  moreover have "keeps k ?k" "idle_proc_state ?k = idle_proc_state k" "areas ?k = areas k" "current_proc ?k = Ptr p"
    using c by (simp_all add: keeps_def)
  ultimately show ?thesis using returning_answers [OF _ _ _ _ _ o, of ?k a' p SYSCALL_SUCCESS a] s'(1) Cons by auto
qed

lemma terminate_answers:
  assumes r: "kernel_rel k a" and c: "current_proc k = Ptr p" and o: "old_state k \<noteq> 0"
    and q: "case q of Null \<Rightarrow> True | Ptr i \<Rightarrow> i < MAXPROC \<and> (i \<in> set (a_free a) \<or> i = p \<or> p \<notin> subtree a i)"
  shows "\<exists>k' a'. returning (terminate_process q k) = Some k' \<and>
    answered k a p (case q of Null \<Rightarrow> Dies | Ptr i \<Rightarrow> if i \<in> set (a_free a) then Returns (Some SYSCALL_FAILURE)
      else if i = p then Dies else Returns (Some SYSCALL_SUCCESS)) k' a'"
proof -
  have p: "p \<notin> set (a_free a)" using kernel_relD(4) [OF r c] by auto
  have self: "\<exists>k' a'. returning (terminate_process (Ptr p) k) = Some k' \<and> answered k a p Dies k' a'"
    using suicide_answers [OF r c] returning_dies [OF _ o] terminate_alive [OF r p] by fastforce
  consider "q = Null \<or> q = Ptr p" | i where "q = Ptr i" "i \<in> set (a_free a)"
    | i where "q = Ptr i" "i \<notin> set (a_free a)" "i \<noteq> p" by (cases q) auto
  then show ?thesis
  proof cases
    case 1
    then show ?thesis using self terminate_self [OF c] p by auto
  next
    case 2
    have "keeps k k" by (simp add: keeps_def)
    from returning_answers [OF r this refl refl c o, of SYSCALL_FAILURE a] terminate_free [OF r 2(2)] 2
    show ?thesis by auto
  next
    case 3
    then obtain k' a' where k': "scheduler_kill_process (Ptr i) k = Some k'" "kernel_rel k' a'"
        "current_proc k' = Ptr p" "k' = k\<lparr>st := st k', current_proc := current_proc k'\<rparr>"
      using kill_process_spec [OF r _ 3(2)] q c by auto
    note ko = kernel_onlyI [OF k'(4)]
    have "terminate_process (Ptr i) k = Some (SYSCALL_SUCCESS, k')" using terminate_alive [OF r 3(2)] k'(1) by simp
    then show ?thesis using returning_answers [OF k'(2) keeps_kernel_only [OF ko] kernel_only_fields(3,5) [OF ko] k'(3) o,
        of SYSCALL_SUCCESS a] 3 by auto
  qed
qed

lemma verhogen_answers:
  assumes r: "kernel_rel k a" and c: "current_proc k = Ptr p" and x: "x \<noteq> 0"
  shows "\<exists>k' a'. verhogen x k = Some k' \<and> answered k a p (Returns None) k' a'"
proof (cases "a_sem a x")
  case Nil
  show ?thesis unfolding verhogen_counts [OF r Nil x]
    by (rule exI, rule exI [of _ a], rule conjI [OF refl], rule answers_None [OF kernel_rel_cong [OF r]])
      (simp_all add: keeps_def c)
next
  case (Cons q qs)
  obtain s' a' where s': "verhogen x k = Some (k\<lparr>st := s'\<rparr>)" "kernel_rel (k\<lparr>st := s'\<rparr>) a'"
    using verhogen_wakes [OF r Cons] by blast
  have "answered k a p (Returns None) (k\<lparr>st := s'\<rparr>) a'" by (rule answers_None [OF s'(2)]) (simp_all add: keeps_def c)
  then show ?thesis using s'(1) by blast
qed

lemma passeren_answers:
  assumes r: "kernel_rel k a" and c: "current_proc k = Ptr p" and o: "old_state k \<noteq> 0" and x: "x \<noteq> 0"
  shows "\<exists>k' a'. passeren x k = Some k' \<and> answered k a p (if mem k x = 0 then Blocks else Returns None) k' a'"
proof (cases "mem k x = 0")
  case True
  then show ?thesis using block_answers [OF r c o] passeren_blocks [OF x] by simp
next
  case False
  let ?k = "k\<lparr>mem := (mem k)(x := mem k x - 1)\<rparr>"
  have "answered k a p (Returns None) ?k a"
    by (rule answers_None [OF kernel_rel_cong [OF r]]) (simp_all add: keeps_def c)
  then show ?thesis using passeren_takes [OF x False] False by auto
qed

lemma wait_io_answers:
  assumes r: "kernel_rel k a" and c: "current_proc k = Ptr p" and o: "old_state k \<noteq> 0"
    and d: "\<exists>line\<in>set dev_lines. \<exists>i\<in>set dev_nums. d = DEV_REG_ADDR (target k) line i" and s: "sub = 0 \<or> sub = (1 :: u32)"
  shows "\<exists>k' a'. wait_io cmd d (ucast sub) k = Some k' \<and> answered k a p Blocks k' a'"
proof -
  obtain line i where l: "line \<in> set dev_lines" "i \<in> set dev_nums" "d = DEV_REG_ADDR (target k) line i" using d by blast
  obtain f where f: "wait_io cmd d (ucast sub) k =
      scheduler_block_current (dev_key k line i (sub = 1)) (old_state k) (upd_dev d f k)"
    using wait_io_blocks [OF l s] by blast
  let ?k = "upd_dev d f k"
  have e: "target ?k = target k" "linked ?k = linked k" "areas ?k = areas k" "old_state ?k = old_state k"
      "current_proc ?k = current_proc k" "st ?k = st k" "idle_proc_state ?k = idle_proc_state k" by (simp_all add: upd_dev_def)
  obtain k' a' where "scheduler_block_current (dev_key k line i (sub = 1)) (old_state ?k) ?k = Some k'"
      "answered ?k a p Blocks k' a'"
    using block_answers [OF kernel_rel_dev [OF r], of d f p "dev_key k line i (sub = 1)"] c o e by auto
  then show ?thesis using e f by (auto simp: answered_def keeps_def)
qed

lemma spec_pass_up_answers:
  assumes r: "kernel_rel k a" and c: "current_proc k = Ptr p" and o: "old_state k \<noteq> 0" and n: "unat ty < 3"
  shows "\<exists>k' a'. returning (spec_pass_up ty oa na k) = Some k' \<and>
    answered k a p (if exc_new_areas (pcbTable (st k) p) ! unat ty = 0 then Returns (Some SYSCALL_SUCCESS) else Dies) k' a'"
proof (cases "exc_new_areas (pcbTable (st k) p) ! unat ty = 0")
  case True
  obtain s' where s': "spec_pass_up ty oa na k = Some (SYSCALL_SUCCESS, k\<lparr>st := s'\<rparr>)" "kernel_rel (k\<lparr>st := s'\<rparr>) a"
    using spec_pass_up_set [OF r c n True, of oa na] by blast
  have "keeps k (k\<lparr>st := s'\<rparr>)" by (simp add: keeps_def)
  from returning_answers [OF s'(2) this _ _ _ o, of p SYSCALL_SUCCESS a] s'(1) c True show ?thesis by auto
next
  case False
  then show ?thesis using suicide_answers [OF r c] returning_dies [OF _ o] spec_pass_up_again [OF r c n False] by fastforce
qed

lemma get_cpu_time_answers:
  assumes r: "kernel_rel k a" and c: "current_proc k = Ptr p" and nz: "x \<noteq> 0" "y \<noteq> 0" "z \<noteq> 0"
  shows "\<exists>k' a'. get_cpu_time x y z k = Some k' \<and> answered k a p (Returns None) k' a'"
  unfolding get_cpu_time_spec [OF r c nz]
  by (rule exI, rule exI [of _ a], rule conjI [OF refl], rule answers_None [OF kernel_rel_charge [OF r]])
    (simp_all add: keeps_def c)

lemma get_pid_answers:
  assumes r: "kernel_rel k a" and c: "current_proc k = Ptr p"
  shows "\<exists>k' a'. get_pid x y k = Some k' \<and> answered k a p (Returns None) k' a'"
  unfolding get_pid_spec [OF c kernel_relD(3) [OF r c]]
  by (rule exI, rule exI [of _ a], rule conjI [OF refl], rule answers_None [OF kernel_rel_cong [OF r]])
    (simp_all add: keeps_def c)

section \<open>The switch\<close>

text \<open>Every request but an unknown one leaves the switch with its answer.\<close>

lemma switch_answers:
  assumes r: "kernel_rel k a" and c: "current_proc k = Ptr p" and o: "old_state k \<noteq> 0" and q: "request_ok k a p v"
    and n: "SYSARG0 v \<in> {GETCPUTIME, CREATEPROCESS, TERMINATEPROCESS, VERHOGEN, PASSEREN, WAITIO, SPECPASSUP, GETPID}"
  shows "\<exists>k' a'. syscall_switch v k = Some (Inl k') \<and> answered k a p (answer k a p v) k' a'"
proof -
  define n where "n = SYSARG0 v"
  note S = syscall_switch_def answer_def Let_def n_def [symmetric] and Q = q [unfolded request_ok_def Let_def n_def [symmetric]]
  from n have "n \<in> {GETCPUTIME, CREATEPROCESS, TERMINATEPROCESS, VERHOGEN, PASSEREN, WAITIO, SPECPASSUP, GETPID}"
    by (simp add: n_def)
  then consider "n = GETCPUTIME" | "n = CREATEPROCESS" | "n = TERMINATEPROCESS" | "n = VERHOGEN" | "n = PASSEREN"
    | "n = WAITIO" | "n = SPECPASSUP" | "n = GETPID" by blast
  then show ?thesis
  proof cases
    case 1
    then show ?thesis using get_cpu_time_answers [OF r c] Q by (simp add: S)
  next
    case 2
    then show ?thesis using create_answers [OF r c _ o] Q by (simp add: S syscall_nos)
  next
    case 3
    then show ?thesis using terminate_answers [OF r c o, of "pcb_at_addr k (SYSARG1 v)"] Q by (simp add: S syscall_nos)
  next
    case 4
    then show ?thesis using verhogen_answers [OF r c] Q by (simp add: S syscall_nos)
  next
    case 5
    then show ?thesis using passeren_answers [OF r c o] Q by (simp add: S syscall_nos)
  next
    case 6
    then show ?thesis using wait_io_answers [OF r c o] Q by (simp add: S syscall_nos)
  next
    case 7
    then show ?thesis using spec_pass_up_answers [OF r c o] Q by (simp add: S syscall_nos)
  next
    case 8
    then show ?thesis using get_pid_answers [OF r c] by (simp add: S syscall_nos)
  qed
qed

text \<open>The end of the handler: the caller goes on, or the processor goes to the next process.\<close>

lemma resume_answers:
  assumes an: "answered k a p r k1 a1" and o: "old_state k \<noteq> 0"
  shows "\<exists>u k'. scheduler_resume False (old_state k) k1 = Some (u, k') \<and> kernel_rel k' (a1\<lparr>a_ready := (case r of Returns x \<Rightarrow> a_ready a1 | _ \<Rightarrow> tl (a_ready a1))\<rparr>) \<and>
    (case r of
       Returns x \<Rightarrow> current_proc k' = Ptr p \<and> u = with_result x (areas k (old_state k))
     | _ \<Rightarrow> next_runs (a_ready a1) k1 u k')"
proof -
  have k1: "kernel_rel k1 a1" using an by (simp add: answered_def)
  show ?thesis
  proof (cases "current_proc k1")
    case (Ptr q)
    then obtain x where x: "r = Returns x" "q = p" "areas k1 (old_state k) = with_result x (areas k (old_state k))"
      using an by (auto simp: answered_def split: answer.splits)
    have "p < MAXPROC" using kernel_relD(3) [OF k1 Ptr] x(2) by simp
    then obtain k' where k': "scheduler_resume False (old_state k) k1 = Some (areas k1 (old_state k), k')" "timed k1 k'"
      using resume_continue [of k1 p, OF _ _ o] Ptr x(2) by auto
    then show ?thesis using x Ptr timed_kernel_rel [OF k'(2) k1] timed_fields(3) [OF k'(2)] by simp
  next
    case Null
    then have r: "case r of Returns x \<Rightarrow> False | _ \<Rightarrow> True" using an by (auto simp: answered_def split: answer.splits)
    show ?thesis using dispatch_kernel_rel [OF k1 Null] resume_idle [OF Null] r
      by (auto simp: next_runs_def split: answer.splits list.splits)
  qed
qed

section \<open>The handler\<close>

lemma dispatch_keeps_states:
  assumes "kernel_rel k a" and "current_proc k = Null" and "scheduler_dispatch k = Some (u, k')"
  shows "p_s (pcbTable (st k') q) = p_s (pcbTable (st k) q)"
proof (cases "a_ready a")
  case Nil
  then show ?thesis using dispatch_spec(1) [OF kernel_relD(1,2) [OF assms(1)]] assms(3) by simp
next
  case (Cons r rs)
  have "store_rel (st k) a {}" using kernel_relD(1) [OF assms(1)] assms(2) by simp
  from run_kernel_rel [OF this kernel_relD(2) [OF assms(1)] Cons] show ?thesis
    using dispatch_spec(2) [OF kernel_relD(1,2) [OF assms(1)]] assms(3) Cons by auto
qed

lemma answer_entered:
  assumes "entered k w k1"
  shows "answer k1 a p (after_call ar v) = answer k a p v"
proof -
  have e: "target k1 = target k" "linked k1 = linked k" "mem k1 = mem k"
      "exc_new_areas (pcbTable (st k1) p) = exc_new_areas (pcbTable (st k) p)"
    using assms by (simp_all add: entered_def)
  show ?thesis unfolding answer_def Let_def after_call_args pcb_at_addr_cong [OF e(1,2)] e by (rule refl)
qed

lemma next_runs_cong:
  assumes "next_runs rq k1 u k'" and "idle_proc_state k1 = idle_proc_state k"
    and "\<And>q. q \<in> set rq \<Longrightarrow> p_s (pcbTable (st k1) q) = p_s (pcbTable (st k) q)"
  shows "next_runs rq k u k'"
  using assms by (auto simp: next_runs_def split: list.splits)

text \<open>The last part of the handler on each answer of the switch.\<close>

lemma known_outcome:
  assumes an: "answered k1 a p r k2 a2" and o: "old_state k1 \<noteq> 0" and e: "entered k w k1" and p: "p \<notin> set (a_ready a)"
    and "r \<noteq> PassesUp"
  shows "\<exists>u k' a'. scheduler_resume False (old_state k1) k2 = Some (u, k') \<and> kernel_rel k' a' \<and>
    (case r of
       Returns x \<Rightarrow> current_proc k' = Ptr p \<and> u = with_result x w
     | Blocks \<Rightarrow> next_runs (a_ready a) k u k' \<and> p \<in> blocked (a_sem a') \<and> p_s (pcbTable (st k') p) = w
     | Dies \<Rightarrow> next_runs (filter (\<lambda>q. q \<notin> subtree a p) (a_ready a)) k u k' \<and>
         set (a_free a') = set (a_free a) \<union> subtree a p
     | PassesUp \<Rightarrow> False)"
proof -
  obtain u k' where k': "scheduler_resume False (old_state k1) k2 = Some (u, k')"
      "kernel_rel k' (a2\<lparr>a_ready := (case r of Returns x \<Rightarrow> a_ready a2 | _ \<Rightarrow> tl (a_ready a2))\<rparr>)"
      "case r of Returns x \<Rightarrow> current_proc k' = Ptr p \<and> u = with_result x (areas k1 (old_state k1))
       | _ \<Rightarrow> next_runs (a_ready a2) k2 u k'"
    using resume_answers [OF an o] by auto
  note A = an [unfolded answered_def] and E = e [unfolded entered_def]
  have keep: "p_s (pcbTable (st k') q) = p_s (pcbTable (st k2) q)" if "current_proc k2 = Null" for q
    using dispatch_keeps_states [of k2 a2 u k'] A k'(1) resume_idle [OF that] that by simp
  show ?thesis
  proof (cases r)
    case (Returns x)
    then show ?thesis using k' E by auto
  next
    case Blocks
    have "next_runs (a_ready a) k u k'"
      by (rule next_runs_cong [of _ k2]) (use k'(3) A E Blocks p in auto)
    then show ?thesis using k'(1,2) A E Blocks keep by auto
  next
    case Dies
    have "next_runs (filter (\<lambda>q. q \<notin> subtree a p) (a_ready a)) k u k'"
      by (rule next_runs_cong [of _ k2]) (use k'(3) A E Dies in auto)
    then show ?thesis using k'(1,2) A Dies by auto
  qed (use assms(5) in simp)
qed

text \<open>A number the kernel does not know.\<close>

lemma unknown_dies:
  assumes r: "kernel_rel k a" and c: "current_proc k = Ptr p" and n: "exc_new_areas (pcbTable (st k) p) ! SPECPASSUP_SYSBK_TYPE = 0"
  shows "\<exists>k' a'. scheduler_handle_exception SPECPASSUP_SYSBK_TYPE old k = scheduler_resume False x k' \<and> answered k a p Dies k' a'"
proof -
  obtain k1 k2 a' where k2: "scheduler_handle_exception SPECPASSUP_SYSBK_TYPE old k = scheduler_dispatch k2" "timed k k1"
      "kernel_rel k2 a'" "current_proc k2 = Null" "kernel_only k k2" "removed (subtree a p) (st k1) a {p} (st k2) a' {}"
    using handle_exception_kill [OF r c _ n, of old] by (auto simp: SPECPASSUP_SYSBK_TYPE_def)
  have "answered k a p Dies k2 a'"
    using k2(3,4,6) keeps_kernel_only [OF k2(5)] kernel_only_fields(3) [OF k2(5)] removed_free [OF k2(6)] timed_pcb(3) [OF k2(2)]
    by (simp add: answered_def removed_def)
  moreover have "scheduler_handle_exception SPECPASSUP_SYSBK_TYPE old k = scheduler_resume False x k2"
    using k2(1) resume_idle [OF k2(4)] by simp
  ultimately show ?thesis by blast
qed

lemma unknown_outcome:
  assumes k1: "kernel_rel k1 a" and c1: "current_proc k1 = Ptr p" and e: "entered k w k1" and p: "p \<notin> set (a_ready a)"
    and q: "request_ok k a p v"
    and n: "SYSARG0 v \<notin> {GETCPUTIME, CREATEPROCESS, TERMINATEPROCESS, VERHOGEN, PASSEREN, WAITIO, SPECPASSUP, GETPID}"
  shows "\<exists>u k' a'. scheduler_handle_exception SPECPASSUP_SYSBK_TYPE (SYSBK_OLDAREA (target k)) k1 = Some (u, k') \<and>
    kernel_rel k' a' \<and>
    (case answer k a p v of
       Returns x \<Rightarrow> current_proc k' = Ptr p \<and> u = with_result x w
     | Blocks \<Rightarrow> next_runs (a_ready a) k u k' \<and> p \<in> blocked (a_sem a') \<and> p_s (pcbTable (st k') p) = w
     | Dies \<Rightarrow> next_runs (filter (\<lambda>q. q \<notin> subtree a p) (a_ready a)) k u k' \<and>
         set (a_free a') = set (a_free a) \<union> subtree a p
     | PassesUp \<Rightarrow> a' = a \<and> current_proc k' = Ptr p \<and>
         (let b = pcbTable (st k) p; old = exc_old_areas b ! SPECPASSUP_SYSBK_TYPE;
              ar = (areas k)(SYSBK_OLDAREA (target k) := w, old := w)
          in areas k' = ar \<and> u = ar (exc_new_areas b ! SPECPASSUP_SYSBK_TYPE)))"
proof -
  let ?n = "exc_new_areas (pcbTable (st k) p) ! SPECPASSUP_SYSBK_TYPE"
    and ?o = "exc_old_areas (pcbTable (st k) p) ! SPECPASSUP_SYSBK_TYPE"
  note e' = e [unfolded entered_def]
  have o1: "old_state k1 \<noteq> 0" using e' area_nonzero(2) by auto
  have ans: "answer k a p v = (if ?n = 0 then Dies else PassesUp)" and req: "?n \<noteq> 0 \<longrightarrow> ?o \<noteq> 0"
    using n q by (simp_all add: answer_def request_ok_def Let_def)
  show ?thesis
  proof (cases "?n = 0")
    case True
    obtain k2 a2 where k2: "scheduler_handle_exception SPECPASSUP_SYSBK_TYPE (SYSBK_OLDAREA (target k)) k1 =
          scheduler_resume False (old_state k1) k2" "answered k1 a p Dies k2 a2"
      using unknown_dies [OF k1 c1] e' True by metis
    show ?thesis using known_outcome [OF k2(2) o1 e p] ans True unfolding k2(1) by simp
  next
    case False
    then show ?thesis
      using handle_exception_pass [OF k1 c1 area_nonzero(2), of SPECPASSUP_SYSBK_TYPE "target k"] e' req ans c1
      by (auto simp: SPECPASSUP_SYSBK_TYPE_def Let_def timed_fields)
  qed
qed

definition demo_passeren :: kst where
  "demo_passeren = (let u = (case bss_state UARM of UarmState u \<Rightarrow> u)
     in (demo_two UARM)\<lparr>mem := (\<lambda>_. 0), areas := (\<lambda>_. UarmState (u\<lparr>ua_a1 := PASSEREN, ua_a2 := 0x200, ua_CP15_Cause := EXC_SYSCALL\<rparr>))\<rparr>)"

text \<open>
  C4. What a system call does to the process that makes it, and who runs next. A call that returns
  resumes the caller with exactly the registers it had, after the call and with the result in its
  register if the call has one; a call that blocks it leaves those registers in its entry, the
  process on a semaphore and the processor to the first ready process; one that kills it frees it
  with its descendants and leaves the processor to the first ready process that survives; a number
  the kernel does not know goes to the area the process has registered, with its registers where it
  asked for them.
\<close>

theorem syscall_outcome:
  assumes r: "kernel_rel k a" and c: "current_proc k = Ptr p" and v: "v = areas k (SYSBK_OLDAREA (target k))"
    and s: "CAUSE_EXC v = CAUSE_SYSCALL (target k)" and q: "request_ok k a p v"
    and w: "w = after_call (target k) v"
  shows "\<exists>u k' a'. syscall_handler k = Some (u, k') \<and> kernel_rel k' a' \<and>
    (case answer k a p v of
       Returns x \<Rightarrow> current_proc k' = Ptr p \<and> u = with_result x w
     | Blocks \<Rightarrow> next_runs (a_ready a) k u k' \<and> p \<in> blocked (a_sem a') \<and> p_s (pcbTable (st k') p) = w
     | Dies \<Rightarrow> next_runs (filter (\<lambda>q. q \<notin> subtree a p) (a_ready a)) k u k' \<and>
         set (a_free a') = set (a_free a) \<union> subtree a p
     | PassesUp \<Rightarrow> a' = a \<and> current_proc k' = Ptr p \<and>
         (let b = pcbTable (st k) p; old = exc_old_areas b ! SPECPASSUP_SYSBK_TYPE;
              ar = (areas k)(SYSBK_OLDAREA (target k) := w, old := w)
          in areas k' = ar \<and> u = ar (exc_new_areas b ! SPECPASSUP_SYSBK_TYPE)))"
proof -
  obtain k1 where k1: "kernel_rel k1 a" and e: "entered k w k1" and h: "syscall_handler k = do {
       r \<leftarrow> syscall_switch w k1;
       (case r of
          Inl k \<Rightarrow> scheduler_resume False (old_state k) k
        | Inr out \<Rightarrow> Some out) }"
    using syscall_handler_entry [OF r] s v w by auto
  note e' = e [unfolded entered_def]
  have c1: "current_proc k1 = Ptr p" and o1: "old_state k1 \<noteq> 0" using e' c area_nonzero(2) by auto
  have p: "p \<notin> set (a_ready a)" using kernel_relD(4) [OF r c] by simp
  have q1: "request_ok k1 a p w" unfolding w
    by (subst request_ok_cong [where k = k and v = v]) (use e' q in auto)
  show ?thesis
  proof (cases "SYSARG0 v \<in> {GETCPUTIME, CREATEPROCESS, TERMINATEPROCESS, VERHOGEN, PASSEREN, WAITIO, SPECPASSUP, GETPID}")
    case True
    then obtain k2 a2 where k2: "syscall_switch w k1 = Some (Inl k2)" "answered k1 a p (answer k a p v) k2 a2"
      using switch_answers [OF k1 c1 o1 q1] answer_entered [OF e, of a p "target k" v] w by auto
    have "old_state k2 = old_state k1" using k2(2) by (simp add: answered_def keeps_def)
    then have h2: "syscall_handler k = scheduler_resume False (old_state k1) k2" using h k2(1) by simp
    have "answer k a p v \<noteq> PassesUp" using k2(2) by (auto simp: answered_def)
    then show ?thesis using known_outcome [OF k2(2) o1 e p] unfolding h2 by (auto split: answer.splits)
  next
    case False
    have "syscall_switch w k1 = map_option Inr (scheduler_handle_exception SPECPASSUP_SYSBK_TYPE (SYSBK_OLDAREA (target k)) k1)"
      using False e' w by (simp add: syscall_switch_def Let_def)
    then have h1: "syscall_handler k = scheduler_handle_exception SPECPASSUP_SYSBK_TYPE (SYSBK_OLDAREA (target k)) k1"
      using h by (simp add: map_option_case split: option.splits bind_splits)
    show ?thesis using unknown_outcome [OF k1 c1 e p q False] unfolding h1 .
  qed
qed

theorem syscall_outcome_witness:
  "\<exists>u k'. syscall_handler demo_passeren = Some (u, k') \<and> current_proc k' = Ptr 18 \<and>
     u = p_s (pcbTable (st demo_passeren) 18) \<and>
     p_s (pcbTable (st k') 19) = areas demo_passeren (SYSBK_OLDAREA UARM)"
proof -
  let ?v = "areas demo_passeren (SYSBK_OLDAREA UARM)"
  have "kernel_rel demo_passeren two_abs"
    by (rule kernel_rel_cong [OF demo_two(1) [of UARM]]) (simp_all add: demo_passeren_def)
  moreover have "current_proc demo_passeren = Ptr 19" "target demo_passeren = UARM"
    using demo_two(2,3) [of UARM] by (simp_all add: demo_passeren_def)
  moreover have "CAUSE_EXC ?v = CAUSE_SYSCALL UARM" "request_ok demo_passeren two_abs 19 ?v"
      "answer demo_passeren two_abs 19 ?v = Blocks" "after_call UARM ?v = ?v"
    by (simp_all add: demo_passeren_def request_ok_def answer_def syscall_nos after_call_def
        CAUSE_SYSCALL_def CAUSE_EXCCODE_GET_def EXC_SYSCALL_def)
  ultimately show ?thesis using syscall_outcome [of demo_passeren two_abs 19 ?v ?v]
    by (auto simp: next_runs_def two_abs_def)
qed

end
