(* ===== verification/Arm.thy ===== *)
theory Arm
  imports Arch
begin

text \<open>
  The processor of uARM as far as \<open>uarm/BIOS.s\<close> and \<open>uarm/libuarm.s\<close> use it: registers \<open>r0\<close> to
  \<open>r12\<close> and \<open>r15\<close>, a bank of \<open>r13\<close> and \<open>r14\<close> for each processor mode (user and system mode share
  one), the current and the saved program status, the registers of coprocessor 15 by opcode, register
  number and second opcode, and memory by word address. Each instruction is a function on this state;
  an assembler routine is their composition. The six modes are those of \<open>uARMconst.h\<close>: none of them
  has banked registers below \<open>r13\<close>.
\<close>

record arm =
  gpr :: "nat \<Rightarrow> u32"
  bank :: "u32 \<Rightarrow> nat \<Rightarrow> u32"
  cpsr :: u32
  spsr :: "u32 \<Rightarrow> u32"
  cp15 :: "nat \<times> nat \<times> nat \<Rightarrow> u32"
  ram :: "u32 \<Rightarrow> u32"

definition mode_of :: "u32 \<Rightarrow> u32" where
  "mode_of psr = psr AND 0x1F"

definition bank_of :: "u32 \<Rightarrow> u32" where
  "bank_of psr = (if mode_of psr = STATUS_SYS_MODE then STATUS_USER_MODE else mode_of psr)"

definition rget :: "nat \<Rightarrow> arm \<Rightarrow> u32" where
  "rget n s = (if n = 13 \<or> n = 14 then bank s (bank_of (cpsr s)) n else gpr s n)"

definition rset :: "nat \<Rightarrow> u32 \<Rightarrow> arm \<Rightarrow> arm" where
  "rset n v s = (if n = 13 \<or> n = 14
     then s\<lparr>bank := (bank s)(bank_of (cpsr s) := (bank s (bank_of (cpsr s)))(n := v))\<rparr>
     else s\<lparr>gpr := (gpr s)(n := v)\<rparr>)"

text \<open>
  The instructions. \<open>MOV\<close>, \<open>ADD\<close>, \<open>AND\<close>, \<open>BIC\<close>, \<open>ORR\<close> with an immediate operand (a routine writes
  \<open>ADD\<close> of a negative number for \<open>SUB\<close>) or, with the suffix \<open>_r\<close>, a register; loads and stores at a
  base register and an offset; \<open>LDM\<close> and \<open>STM\<close> are \<open>LDMIA\<close> and \<open>STMIA\<close> without writeback.
\<close>

definition MOV :: "nat \<Rightarrow> u32 \<Rightarrow> arm \<Rightarrow> arm" where "MOV d v s = rset d v s"
definition MOV_r :: "nat \<Rightarrow> nat \<Rightarrow> arm \<Rightarrow> arm" where "MOV_r d n s = rset d (rget n s) s"
definition ADD :: "nat \<Rightarrow> nat \<Rightarrow> u32 \<Rightarrow> arm \<Rightarrow> arm" where "ADD d n v s = rset d (rget n s + v) s"
definition SUB :: "nat \<Rightarrow> nat \<Rightarrow> u32 \<Rightarrow> arm \<Rightarrow> arm" where "SUB d n v s = rset d (rget n s - v) s"
definition AND_i :: "nat \<Rightarrow> nat \<Rightarrow> u32 \<Rightarrow> arm \<Rightarrow> arm" where "AND_i d n v s = rset d (rget n s AND v) s"
definition BIC :: "nat \<Rightarrow> nat \<Rightarrow> u32 \<Rightarrow> arm \<Rightarrow> arm" where "BIC d n v s = rset d (rget n s AND NOT v) s"
definition ORR :: "nat \<Rightarrow> nat \<Rightarrow> u32 \<Rightarrow> arm \<Rightarrow> arm" where "ORR d n v s = rset d (rget n s OR v) s"
definition ORR_r :: "nat \<Rightarrow> nat \<Rightarrow> nat \<Rightarrow> arm \<Rightarrow> arm" where "ORR_r d n k s = rset d (rget n s OR rget k s) s"

definition ADD_r :: "nat \<Rightarrow> nat \<Rightarrow> nat \<Rightarrow> arm \<Rightarrow> arm" where "ADD_r d n k s = rset d (rget n s + rget k s) s"
definition SUB_r :: "nat \<Rightarrow> nat \<Rightarrow> nat \<Rightarrow> arm \<Rightarrow> arm" where "SUB_r d n k s = rset d (rget n s - rget k s) s"
definition AND_r :: "nat \<Rightarrow> nat \<Rightarrow> nat \<Rightarrow> arm \<Rightarrow> arm" where "AND_r d n k s = rset d (rget n s AND rget k s) s"
definition MUL :: "nat \<Rightarrow> nat \<Rightarrow> nat \<Rightarrow> arm \<Rightarrow> arm" where "MUL d n k s = rset d (rget n s * rget k s) s"
definition LSR :: "nat \<Rightarrow> nat \<Rightarrow> nat \<Rightarrow> arm \<Rightarrow> arm" where "LSR d n i s = rset d (drop_bit i (rget n s)) s"

definition MRS_SPSR :: "nat \<Rightarrow> arm \<Rightarrow> arm" where "MRS_SPSR n s = rset n (spsr s (mode_of (cpsr s))) s"
definition MSR_SPSR :: "nat \<Rightarrow> arm \<Rightarrow> arm" where
  "MSR_SPSR n s = s\<lparr>spsr := (spsr s)(mode_of (cpsr s) := rget n s)\<rparr>"
definition MSR_SPSR_cf :: "nat \<Rightarrow> arm \<Rightarrow> arm" where \<comment> \<open>only the control and the flag byte\<close>
  "MSR_SPSR_cf n s = s\<lparr>spsr := (spsr s)(mode_of (cpsr s) :=
     (spsr s (mode_of (cpsr s)) AND 0x00FFFF00) OR (rget n s AND 0xFF0000FF))\<rparr>"
definition MRS_CPSR :: "nat \<Rightarrow> arm \<Rightarrow> arm" where "MRS_CPSR n s = rset n (cpsr s) s"
definition MSR_CPSR :: "nat \<Rightarrow> arm \<Rightarrow> arm" where "MSR_CPSR n s = s\<lparr>cpsr := rget n s\<rparr>"
definition MRC :: "nat \<times> nat \<times> nat \<Rightarrow> nat \<Rightarrow> arm \<Rightarrow> arm" where "MRC c n s = rset n (cp15 s c) s"
definition MCR :: "nat \<times> nat \<times> nat \<Rightarrow> nat \<Rightarrow> arm \<Rightarrow> arm" where
  "MCR c n s = s\<lparr>cp15 := (cp15 s)(c := rget n s)\<rparr>"
definition LDR :: "nat \<Rightarrow> nat \<Rightarrow> u32 \<Rightarrow> arm \<Rightarrow> arm" where "LDR d n v s = rset d (ram s (rget n s + v)) s"
definition STR_w :: "nat \<Rightarrow> nat \<Rightarrow> u32 \<Rightarrow> arm \<Rightarrow> arm" where
  "STR_w d n v s = s\<lparr>ram := (ram s)(rget n s + v := rget d s)\<rparr>"

fun load_regs :: "u32 \<Rightarrow> nat list \<Rightarrow> arm \<Rightarrow> arm" where
  "load_regs a [] s = s"
| "load_regs a (n # ns) s = load_regs (a + 4) ns (rset n (ram s a) s)"

fun store_regs :: "u32 \<Rightarrow> nat list \<Rightarrow> arm \<Rightarrow> arm" where
  "store_regs a [] s = s"
| "store_regs a (n # ns) s = store_regs (a + 4) ns (s\<lparr>ram := (ram s)(a := rget n s)\<rparr>)"

definition LDM :: "nat \<Rightarrow> nat list \<Rightarrow> arm \<Rightarrow> arm" where "LDM b ns s = load_regs (rget b s) ns s"
definition STM :: "nat \<Rightarrow> nat list \<Rightarrow> arm \<Rightarrow> arm" where "STM b ns s = store_regs (rget b s) ns s"

text \<open>
  \<open>LDMIA rb, {sp, lr}^\<close> loads the registers of user mode. \<open>MOVS pc, lr\<close>, like a load of \<open>r15\<close> with
  \<open>^\<close>, also restores the saved status.
\<close>

definition LDM_user :: "nat \<Rightarrow> arm \<Rightarrow> arm" where
  "LDM_user b s = s\<lparr>bank := (bank s)(STATUS_USER_MODE := (bank s STATUS_USER_MODE)
     (13 := ram s (rget b s), 14 := ram s (rget b s + 4)))\<rparr>"

definition RESTORE_PSR :: "arm \<Rightarrow> arm" where
  "RESTORE_PSR s = s\<lparr>cpsr := spsr s (mode_of (cpsr s))\<rparr>"

text \<open>A routine is a list of instructions.\<close>

fun run :: "(arm \<Rightarrow> arm) list \<Rightarrow> arm \<Rightarrow> arm" where
  "run [] s = s"
| "run (i # is) s = run is (i s)"

text \<open>
  Exception entry, which the processor does before the first instruction of a handler: save the status
  and the return address in the registers of the mode of the exception, and switch to it with
  interrupts disabled.
\<close>

definition enter :: "u32 \<Rightarrow> u32 \<Rightarrow> arm \<Rightarrow> arm" where
  "enter mode ret s = s\<lparr>spsr := (spsr s)(mode := cpsr s), bank := (bank s)(mode := (bank s mode)(14 := ret)),
     cpsr := mode OR STATUS_ID OR STATUS_TIMER_ID\<rparr>"

section \<open>The registers of a coprocessor\<close>

abbreviation "c_control \<equiv> (0 :: nat, 1 :: nat, 0 :: nat)"
abbreviation "c_entryhi \<equiv> (0 :: nat, 2 :: nat, 0 :: nat)"
abbreviation "c_entryhi1 \<equiv> (0 :: nat, 2 :: nat, 1 :: nat)"
abbreviation "c_entrylo \<equiv> (1 :: nat, 2 :: nat, 0 :: nat)"
abbreviation "c_badvaddr \<equiv> (0 :: nat, 6 :: nat, 0 :: nat)"
abbreviation "c_random \<equiv> (0 :: nat, 8 :: nat, 0 :: nat)"
abbreviation "c_index \<equiv> (0 :: nat, 10 :: nat, 0 :: nat)"
abbreviation "c_cause \<equiv> (0 :: nat, 15 :: nat, 0 :: nat)"
abbreviation "c_cause1 \<equiv> (0 :: nat, 15 :: nat, 1 :: nat)"

section \<open>Processor states in memory\<close>

text \<open>The structure \<open>state_t\<close> at an address.\<close>

definition read_state :: "(u32 \<Rightarrow> u32) \<Rightarrow> u32 \<Rightarrow> uarm_state" where
  "read_state m p = \<lparr>ua_a1 = m p, ua_a2 = m (p + 4), ua_a3 = m (p + 8), ua_a4 = m (p + 12), ua_v1 = m (p + 16),
     ua_v2 = m (p + 20), ua_v3 = m (p + 24), ua_v4 = m (p + 28), ua_v5 = m (p + 32), ua_v6 = m (p + 36),
     ua_sl = m (p + 40), ua_fp = m (p + 44), ua_ip = m (p + 48), ua_sp = m (p + 52), ua_lr = m (p + 56),
     ua_pc = m (p + 60), ua_cpsr = m (p + 64), ua_CP15_Control = m (p + 68), ua_CP15_EntryHi = m (p + 72),
     ua_CP15_Cause = m (p + 76), ua_TOD_Hi = m (p + 80), ua_TOD_Low = m (p + 84)\<rparr>"

text \<open>The registers a program sees in the mode of the status \<open>psr\<close>, with \<open>pc\<close> for its own.\<close>

definition seen_state :: "u32 \<Rightarrow> u32 \<Rightarrow> arm \<Rightarrow> uarm_state" where
  "seen_state psr pc s = \<lparr>ua_a1 = gpr s 0, ua_a2 = gpr s 1, ua_a3 = gpr s 2, ua_a4 = gpr s 3, ua_v1 = gpr s 4,
     ua_v2 = gpr s 5, ua_v3 = gpr s 6, ua_v4 = gpr s 7, ua_v5 = gpr s 8, ua_v6 = gpr s 9, ua_sl = gpr s 10,
     ua_fp = gpr s 11, ua_ip = gpr s 12, ua_sp = bank s (bank_of psr) 13, ua_lr = bank s (bank_of psr) 14,
     ua_pc = pc, ua_cpsr = psr, ua_CP15_Control = cp15 s c_control,
     ua_CP15_EntryHi = cp15 s c_entryhi OR cp15 s c_entryhi1, ua_CP15_Cause = cp15 s c_cause OR cp15 s c_cause1,
     ua_TOD_Hi = ram s BUS_REG_TOD_HI_UARM, ua_TOD_Low = ram s BUS_REG_TOD_LO_UARM\<rparr>"

lemmas arm_defs = rget_def rset_def MOV_def MOV_r_def ADD_def SUB_def AND_i_def BIC_def ORR_def ORR_r_def MRS_SPSR_def
  MSR_SPSR_def MRS_CPSR_def MSR_CPSR_def MRC_def MCR_def LDR_def STR_w_def LDM_def STM_def ADD_r_def SUB_r_def AND_r_def
  MUL_def LSR_def MSR_SPSR_cf_def LDM_user_def

text \<open>Addresses from one base are compared by their offsets.\<close>

lemma offset_simps:
  "(p + numeral a) + numeral b = p + (numeral a + numeral b :: u32)"
  "(p + numeral a) - numeral b = p + (numeral a - numeral b :: u32)"
  by simp_all

lemma run_append: "run (is @ js) s = run js (run is s)"
  by (induction "is" arbitrary: s) simp_all

end
