(* ===== verification/Bios.thy ===== *)
theory Bios
  imports Arm
begin

text \<open>
  The exception handlers of \<open>uarm/BIOS.s\<close>: what runs between a program and the kernel. An exception
  saves the state of the interrupted program into the old area of its kind and loads the new area, where
  the kernel has put its handler; the service \<open>LDST\<close> loads a state the kernel chooses. The kernel's
  model takes both for granted (the old area holds the interrupted state, \<open>LDST\<close> does not return and
  leaves the given state on the processor); the theorems here show them for the BIOS's code.

  A routine is the composition of its instructions, in the order of the file. \<open>link\<close> is the address
  that \<open>BL\<close> leaves in the link register.
\<close>

section \<open>The code\<close>

definition ROMSTACK_TOP :: u32 where "ROMSTACK_TOP = 0x8000"
definition ROMSTACK_OFF :: u32 where "ROMSTACK_OFF = - 0x10"
definition EXCV_INT_OLD :: u32 where "EXCV_INT_OLD = 0"
definition EXCV_INT_NEW :: u32 where "EXCV_INT_NEW = STATE_T_SIZE_UARM"
definition EXCV_TLB_OLD :: u32 where "EXCV_TLB_OLD = 2 * STATE_T_SIZE_UARM"
definition EXCV_TLB_NEW :: u32 where "EXCV_TLB_NEW = 3 * STATE_T_SIZE_UARM"
definition EXCV_PGMT_OLD :: u32 where "EXCV_PGMT_OLD = 4 * STATE_T_SIZE_UARM"
definition EXCV_PGMT_NEW :: u32 where "EXCV_PGMT_NEW = 5 * STATE_T_SIZE_UARM"
definition EXCV_SWI_OLD :: u32 where "EXCV_SWI_OLD = 6 * STATE_T_SIZE_UARM"
definition EXCV_SWI_NEW :: u32 where "EXCV_SWI_NEW = 7 * STATE_T_SIZE_UARM"
definition PSR_OFFSET :: u32 where "PSR_OFFSET = 64"
definition BIOS_SRV_HALT :: u32 where "BIOS_SRV_HALT = 1"
definition BIOS_SRV_PANIC :: u32 where "BIOS_SRV_PANIC = 2"
definition BIOS_SRV_LDST :: u32 where "BIOS_SRV_LDST = 3"
definition BIOS_SRV_SYS :: u32 where "BIOS_SRV_SYS = 8"

lemmas bios_defs = ROMSTACK_TOP_def ROMSTACK_OFF_def EXCV_INT_OLD_def EXCV_INT_NEW_def EXCV_TLB_OLD_def
  EXCV_TLB_NEW_def EXCV_PGMT_OLD_def EXCV_PGMT_NEW_def EXCV_SWI_OLD_def EXCV_SWI_NEW_def PSR_OFFSET_def
  BIOS_SRV_HALT_def BIOS_SRV_PANIC_def BIOS_SRV_LDST_def BIOS_SRV_SYS_def

text \<open>
  \<open>AND\<close>, \<open>CMP\<close>, \<open>ADDeq\<close>, \<open>ORR\<close>: the status with which the registers of a mode can be reached from
  kernel code, system mode in place of user mode, with interrupts disabled.
\<close>

definition reach_mode :: "u32 \<Rightarrow> u32" where
  "reach_mode psr = (if psr AND 0xF = 0 then psr + 0xF else psr) OR 0xC0"

definition REACH :: "nat \<Rightarrow> arm \<Rightarrow> arm" where "REACH d s = rset d (reach_mode (rget d s)) s"

definition SAVE_OLD_STATE :: "u32 \<Rightarrow> (arm \<Rightarrow> arm) list" where
  "SAVE_OLD_STATE link = [
     MOV 14 link,
     MRS_SPSR 13, REACH 13, MSR_CPSR 13,
     ADD 0 0 4, STM 0 [1, 2, 3, 4, 5, 6, 7, 8, 9, 10, 11, 12, 13, 14], SUB 0 0 4,
     MOV 13 ROMSTACK_TOP, ADD 13 13 ROMSTACK_OFF,
     LDR 1 13 0, ADD 13 13 4, STR_w 1 0 0,
     LDR 2 13 0, ADD 13 13 4, ADD 0 0 PSR_OFFSET, STR_w 2 0 (- 4),
     LDR 3 13 0, MSR_CPSR 3,
     MRS_SPSR 3, STR_w 3 0 0, ADD 0 0 4,
     MRC c_control 6, MRC c_entryhi 7, MRC c_entryhi1 9, MRC c_cause 8, MRC c_cause1 10,
     ORR_r 7 7 9, ORR_r 8 8 10,
     STM 0 [6, 7, 8], ADD 0 0 12,
     MOV 6 BUS_REG_TOD_HI_UARM, LDR 7 6 0, MOV 6 BUS_REG_TOD_LO_UARM, LDR 8 6 0,
     STM 0 [7, 8], ADD 0 0 8]"

text \<open>\<open>LDST\<close> ends in a load of \<open>r0\<close> and \<open>r15\<close> that also restores the saved status.\<close>

definition BIOS_LDST :: "(arm \<Rightarrow> arm) list" where
  "BIOS_LDST = [
     MOV_r 12 0, ADD 12 12 PSR_OFFSET, LDR 6 12 0, ADD 12 12 4, MSR_SPSR 6,
     LDR 4 0 0, SUB 2 12 8, LDR 5 2 0,
     MOV 1 ROMSTACK_TOP, ADD 1 1 ROMSTACK_OFF, MRS_CPSR 3, STR_w 12 1 0, ADD 1 1 4, STM 1 [3, 4, 5],
     AND_i 2 6 0xF, REACH 6, MSR_CPSR 6,
     ADD 1 0 4, LDM 1 [1, 2, 3, 4, 5, 6, 7, 8, 9, 10, 11, 12, 13, 14],
     MOV 0 ROMSTACK_TOP, ADD 0 0 ROMSTACK_OFF, ADD 0 0 4, LDR 0 0 0, MSR_CPSR 0,
     MOV 0 ROMSTACK_TOP, ADD 0 0 ROMSTACK_OFF, LDR 0 0 0, LDR 0 0 4, MCR c_entryhi 0, MCR c_entryhi1 0,
     MOV 0 ROMSTACK_TOP, ADD 0 0 ROMSTACK_OFF, LDR 0 0 0, LDR 0 0 8, MCR c_cause 0,
     MOV 0 ROMSTACK_TOP, ADD 0 0 ROMSTACK_OFF, LDR 0 0 0, LDR 0 0 0, MCR c_control 0,
     MOV 0 ROMSTACK_TOP, ADD 0 0 ROMSTACK_OFF, ADD 0 0 8, LDM 0 [0, 15], RESTORE_PSR]"

text \<open>The first instructions of every handler: \<open>r0\<close>, the return address and the status on the ROM stack.\<close>

definition push_frame :: "(arm \<Rightarrow> arm) list" where
  "push_frame = [MOV 13 ROMSTACK_TOP, ADD 13 13 ROMSTACK_OFF, STR_w 0 13 0, ADD 13 13 4, STR_w 14 13 0, ADD 13 13 4,
     MRS_CPSR 0, STR_w 0 13 0]"

text \<open>The last ones: save into the old area, load the new one.\<close>

definition pass_to_kernel :: "u32 \<Rightarrow> u32 \<Rightarrow> u32 \<Rightarrow> (arm \<Rightarrow> arm) list" where
  "pass_to_kernel link old new =
     [MOV 0 EXCV_BASE_UARM, ADD 0 0 old] @ SAVE_OLD_STATE link @ [MOV 0 EXCV_BASE_UARM, ADD 0 0 new] @ BIOS_LDST"

datatype bios = Loaded arm | Halted | Panicked | UnknownService

definition BIOS_SRV_EXEC :: "arm \<Rightarrow> bios" where
  "BIOS_SRV_EXEC s =
     (let s = run [MOV_r 6 0, MOV 13 ROMSTACK_TOP, ADD 13 13 ROMSTACK_OFF, LDR 0 13 0] s in
      if rget 6 s = BIOS_SRV_HALT then Halted
      else if rget 6 s = BIOS_SRV_PANIC then Panicked
      else if rget 6 s = BIOS_SRV_LDST then Loaded (run BIOS_LDST s)
      else UnknownService)"

definition SWI_H_Cont :: "u32 \<Rightarrow> bool \<Rightarrow> (arm \<Rightarrow> arm) list" where
  "SWI_H_Cont link eq =
     [MRC c_cause 0, BIC 0 0 0xFFFFFF, ORR 0 0 (exception_code (if eq then SYSEXCEPTION else BPEXCEPTION)), MCR c_cause 0] @
     pass_to_kernel link EXCV_SWI_OLD EXCV_SWI_NEW"

definition SWI_H :: "u32 \<Rightarrow> arm \<Rightarrow> bios" where
  "SWI_H link s =
     (let s = run (push_frame @ [LDR 0 14 (- 4), AND_i 0 0 0xFFFFFF]) s in
      if rget 0 s = BIOS_SRV_SYS then Loaded (run (SWI_H_Cont link True) s)
      else if rget 0 s = BIOS_SRV_BP then Loaded (run (MOV 0 42 # SWI_H_Cont link False) s)
      else BIOS_SRV_EXEC s)"

definition UNDEF_H :: "u32 \<Rightarrow> (arm \<Rightarrow> arm) list" where
  "UNDEF_H link = push_frame @ pass_to_kernel link EXCV_PGMT_OLD EXCV_PGMT_NEW"

definition IRQ_H :: "u32 \<Rightarrow> (arm \<Rightarrow> arm) list" where
  "IRQ_H link = push_frame @ pass_to_kernel link EXCV_INT_OLD EXCV_INT_NEW"

section \<open>Processor modes\<close>

definition valid_mode :: "u32 \<Rightarrow> bool" where
  "valid_mode psr \<longleftrightarrow> mode_of psr \<in> {STATUS_USER_MODE, STATUS_SYS_MODE, STATUS_SRV_MODE, STATUS_INT_MODE,
     STATUS_PGMT_MODE, STATUS_TLB_MODE}"

lemma reach_mode_user:
  assumes "mode_of psr = 0x10"
  shows "mode_of (reach_mode psr) = 0x1F"
proof -
  have "psr AND 0xF = (psr AND 0x1F) AND 0xF" by (simp add: and.assoc)
  then have z: "psr AND 0xF = 0" unfolding assms [unfolded mode_of_def] by simp
  then have "psr + 0xF = psr OR 0xF" by (simp add: disjunctive_add_eq_or)
  then have "reach_mode psr AND 0x1F = (psr AND 0x1F) OR 0xF"
    using z by (simp add: reach_mode_def bit.conj_disj_distrib2)
  then show ?thesis using assms by (simp add: mode_of_def)
qed

lemma reach_mode_other: "psr AND 0xF \<noteq> 0 \<Longrightarrow> mode_of (reach_mode psr) = mode_of psr"
  by (simp add: reach_mode_def mode_of_def bit.conj_disj_distrib2)

lemma reach_mode_bank: "valid_mode psr \<Longrightarrow> bank_of (reach_mode psr) = bank_of psr"
proof -
  assume v: "valid_mode psr"
  show ?thesis
  proof (cases "mode_of psr = 0x10")
    case True
    then show ?thesis using reach_mode_user [OF True] by (simp add: bank_of_def uarm_mode_defs)
  next
    case False
    have "psr AND 0xF = (psr AND 0x1F) AND 0xF" by (simp add: and.assoc)
    then have "psr AND 0xF \<noteq> 0" using v False by (auto simp: valid_mode_def uarm_mode_defs mode_of_def)
    then show ?thesis by (simp add: bank_of_def reach_mode_other)
  qed
qed

section \<open>Loading a state\<close>

text \<open>The state at \<open>p\<close> does not overlap the ROM stack.\<close>

definition off_stack :: "u32 \<Rightarrow> bool" where
  "off_stack p \<longleftrightarrow> list_all (\<lambda>i. p + 4 * i \<notin> {0x7FF0, 0x7FF4, 0x7FF8, 0x7FFC})
     [0, 1, 2, 3, 4, 5, 6, 7, 8, 9, 10, 11, 12, 13, 14, 15, 16, 17, 18, 19, 20, 21]"

definition rom_stack :: "u32 set" where
  "rom_stack = {0x7FF0, 0x7FF4, 0x7FF8, 0x7FFC}"

lemma ldst_spec:
  assumes p: "gpr s 0 = p" "off_stack p" and v: "valid_mode (ram s (p + 64))"
  defines "s' \<equiv> run BIOS_LDST s"
  shows "seen_state (cpsr s') (gpr s' 15) s' = (read_state (ram s) p)
      \<lparr>ua_CP15_Cause := ram s (p + 76) OR cp15 s c_cause1, ua_TOD_Hi := ram s BUS_REG_TOD_HI_UARM,
       ua_TOD_Low := ram s BUS_REG_TOD_LO_UARM\<rparr>"
    "x \<notin> rom_stack \<Longrightarrow> ram s' x = ram s x" "c \<noteq> bank_of (ram s (p + 64)) \<Longrightarrow> bank s' c = bank s c"
proof -
  obtain g b c q x m where s: "s = \<lparr>gpr = g, bank = b, cpsr = c, spsr = q, cp15 = x, ram = m\<rparr>" by (cases s)
  note sim = BIOS_LDST_def arm_defs REACH_def RESTORE_PSR_def bios_defs off_stack_def offset_simps reach_mode_bank
    seen_state_def read_state_def uarm_map_defs
  show "seen_state (cpsr s') (gpr s' 15) s' = (read_state (ram s) p)
      \<lparr>ua_CP15_Cause := ram s (p + 76) OR cp15 s c_cause1, ua_TOD_Hi := ram s BUS_REG_TOD_HI_UARM,
       ua_TOD_Low := ram s BUS_REG_TOD_LO_UARM\<rparr>"
    using p v by (simp add: s'_def s sim)
  show "ram s' x = ram s x" if "x \<notin> rom_stack" for x
    using p v that by (simp add: s'_def s sim rom_stack_def)
  show "bank s' c = bank s c" if "c \<noteq> bank_of (ram s (p + 64))" for c
    using p v that by (simp add: s'_def s sim)
qed

section \<open>Saving a state\<close>

text \<open>The words of a state, and that an area neither overlaps the ROM stack nor the clock.\<close>

definition state_words :: "u32 \<Rightarrow> u32 set" where
  "state_words p = (\<lambda>i. p + 4 * i) ` {0, 1, 2, 3, 4, 5, 6, 7, 8, 9, 10, 11, 12, 13, 14, 15, 16, 17, 18, 19, 20, 21}"

definition save_area :: "u32 \<Rightarrow> bool" where
  "save_area p \<longleftrightarrow> off_stack p \<and> BUS_REG_TOD_HI_UARM \<notin> state_words p \<and> BUS_REG_TOD_LO_UARM \<notin> state_words p"

lemma save_spec:
  fixes link :: u32
  assumes p: "gpr s 0 = p" "save_area p" and v: "valid_mode (spsr s (mode_of (cpsr s)))"
    and d: "bank_of (spsr s (mode_of (cpsr s))) \<noteq> bank_of (cpsr s)" and c: "ram s 0x7FF8 = cpsr s"
  defines "s' \<equiv> run (SAVE_OLD_STATE link) s" and "psr \<equiv> spsr s (mode_of (cpsr s))"
  shows "read_state (ram s') p = (seen_state psr (ram s 0x7FF4) s)\<lparr>ua_a1 := ram s 0x7FF0\<rparr>"
    "x \<notin> state_words p \<Longrightarrow> ram s' x = ram s x" "cp15 s' = cp15 s" "cpsr s' = cpsr s" "spsr s' = spsr s"
proof -
  obtain g b c q x m where s: "s = \<lparr>gpr = g, bank = b, cpsr = c, spsr = q, cp15 = x, ram = m\<rparr>" by (cases s)
  note sim = SAVE_OLD_STATE_def arm_defs REACH_def bios_defs off_stack_def save_area_def state_words_def offset_simps
    reach_mode_bank seen_state_def read_state_def uarm_map_defs
  show "read_state (ram s') p = (seen_state psr (ram s 0x7FF4) s)\<lparr>ua_a1 := ram s 0x7FF0\<rparr>"
    using assms(1-5) by (simp add: s'_def psr_def s sim)
  show "cp15 s' = cp15 s" "cpsr s' = cpsr s" "spsr s' = spsr s"
    using assms(1-5) by (simp_all add: s'_def s sim)
  show "ram s' x = ram s x" if "x \<notin> state_words p" for x
    using assms(1-5) that by (simp add: s'_def s sim)
qed

section \<open>The handlers\<close>

lemma read_state_cong: "(\<And>x. x \<in> state_words p \<Longrightarrow> m x = m' x) \<Longrightarrow> read_state m p = read_state m' p"
  by (simp add: read_state_def state_words_def)

lemma off_stack_iff: "off_stack p \<longleftrightarrow> state_words p \<inter> rom_stack = {}"
  by (auto simp: off_stack_def state_words_def rom_stack_def)

definition handler_modes :: "u32 set" where
  "handler_modes = {STATUS_SRV_MODE, STATUS_INT_MODE, STATUS_PGMT_MODE, STATUS_TLB_MODE}"

text \<open>What a handler finds once it has pushed its frame: the program \<open>s0\<close> was interrupted at \<open>ret\<close>.\<close>

definition framed :: "u32 \<Rightarrow> u32 \<Rightarrow> arm \<Rightarrow> arm \<Rightarrow> bool" where
  "framed mode ret s0 s \<longleftrightarrow> ram s 0x7FF0 = gpr s0 0 \<and> ram s 0x7FF4 = ret \<and> ram s 0x7FF8 = cpsr s \<and>
     (\<forall>x. x \<notin> rom_stack \<longrightarrow> ram s x = ram s0 x) \<and> (\<forall>n. n \<noteq> 0 \<longrightarrow> gpr s n = gpr s0 n) \<and>
     mode_of (cpsr s) = mode \<and> bank_of (cpsr s) = mode \<and> spsr s mode = cpsr s0 \<and>
     (\<forall>b. b \<noteq> mode \<longrightarrow> bank s b = bank s0 b)"

lemma push_frame_spec:
  assumes "mode \<in> handler_modes"
  shows "framed mode ret s0 (run push_frame (enter mode ret s0))" "cp15 (run push_frame (enter mode ret s0)) = cp15 s0"
    "rget 14 (run push_frame (enter mode ret s0)) = ret"
proof -
  obtain g b c q x m where s: "s0 = \<lparr>gpr = g, bank = b, cpsr = c, spsr = q, cp15 = x, ram = m\<rparr>" by (cases s0)
  have m: "mode_of (mode OR STATUS_ID OR STATUS_TIMER_ID) = mode" "bank_of (mode OR STATUS_ID OR STATUS_TIMER_ID) = mode"
    using assms by (auto simp: handler_modes_def mode_of_def bank_of_def uarm_mode_defs STATUS_ID_def STATUS_TIMER_ID_def)
  show "framed mode ret s0 (run push_frame (enter mode ret s0))" "cp15 (run push_frame (enter mode ret s0)) = cp15 s0"
      "rget 14 (run push_frame (enter mode ret s0)) = ret"
    by (simp_all add: framed_def push_frame_def enter_def s arm_defs bios_defs offset_simps m rom_stack_def)
qed

lemma seen_state_framed:
  assumes "framed mode ret s0 s" and "bank_of (cpsr s0) \<noteq> mode"
  shows "(seen_state (cpsr s0) ret s)\<lparr>ua_a1 := gpr s0 0\<rparr> = (seen_state (cpsr s0) ret s0)
    \<lparr>ua_CP15_Control := cp15 s c_control, ua_CP15_EntryHi := cp15 s c_entryhi OR cp15 s c_entryhi1,
     ua_CP15_Cause := cp15 s c_cause OR cp15 s c_cause1\<rparr>"
  using assms by (simp add: framed_def seen_state_def rom_stack_def uarm_map_defs)

lemma save_framed:
  fixes link p :: u32
  assumes f: "framed mode ret s0 s" and v: "valid_mode (cpsr s0)" "bank_of (cpsr s0) \<noteq> mode" and a: "save_area p"
  defines "s' \<equiv> run (SAVE_OLD_STATE link) (s\<lparr>gpr := (gpr s)(0 := p)\<rparr>)"
  shows "read_state (ram s') p = (seen_state (cpsr s0) ret s0)
      \<lparr>ua_CP15_Control := cp15 s c_control, ua_CP15_EntryHi := cp15 s c_entryhi OR cp15 s c_entryhi1,
       ua_CP15_Cause := cp15 s c_cause OR cp15 s c_cause1\<rparr>"
    "x \<notin> state_words p \<Longrightarrow> x \<notin> rom_stack \<Longrightarrow> ram s' x = ram s0 x" "cp15 s' = cp15 s"
proof -
  define s1 where "s1 = s\<lparr>gpr := (gpr s)(0 := p)\<rparr>"
  have e: "gpr s1 0 = p" "ram s1 = ram s" "cpsr s1 = cpsr s" "spsr s1 (mode_of (cpsr s1)) = cpsr s0" "cp15 s1 = cp15 s"
      "(seen_state (cpsr s0) ret s1)\<lparr>ua_a1 := gpr s0 0\<rparr> = (seen_state (cpsr s0) ret s)\<lparr>ua_a1 := gpr s0 0\<rparr>"
    using f by (simp_all add: s1_def framed_def seen_state_def)
  note sv = save_spec [where s = s1 and p = p and link = link, folded s'_def [folded s1_def]]
  show "read_state (ram s') p = (seen_state (cpsr s0) ret s0)
      \<lparr>ua_CP15_Control := cp15 s c_control, ua_CP15_EntryHi := cp15 s c_entryhi OR cp15 s c_entryhi1,
       ua_CP15_Cause := cp15 s c_cause OR cp15 s c_cause1\<rparr>"
    using sv(1) a v f e seen_state_framed [OF f v(2)] by (simp add: framed_def)
  show "ram s' x = ram s0 x" if "x \<notin> state_words p" "x \<notin> rom_stack"
    using sv(2) a v f e that by (simp add: framed_def)
  show "cp15 s' = cp15 s" using sv(3) a v f e by (simp add: framed_def)
qed

lemma pass_spec:
  fixes link old new :: u32
  assumes f: "framed mode ret s0 s" and v: "valid_mode (cpsr s0)" "bank_of (cpsr s0) \<noteq> mode"
    and a: "save_area (EXCV_BASE_UARM + old)" "off_stack (EXCV_BASE_UARM + new)"
      "state_words (EXCV_BASE_UARM + old) \<inter> state_words (EXCV_BASE_UARM + new) = {}"
    and n: "valid_mode (ram s0 (EXCV_BASE_UARM + new + 64))"
  defines "s' \<equiv> run (pass_to_kernel link old new) s"
  shows "read_state (ram s') (EXCV_BASE_UARM + old) = (seen_state (cpsr s0) ret s0)
      \<lparr>ua_CP15_Control := cp15 s c_control, ua_CP15_EntryHi := cp15 s c_entryhi OR cp15 s c_entryhi1,
       ua_CP15_Cause := cp15 s c_cause OR cp15 s c_cause1\<rparr>"
    "seen_state (cpsr s') (gpr s' 15) s' = (read_state (ram s0) (EXCV_BASE_UARM + new))
      \<lparr>ua_CP15_Cause := ram s0 (EXCV_BASE_UARM + new + 76) OR cp15 s c_cause1,
       ua_TOD_Hi := ram s0 BUS_REG_TOD_HI_UARM, ua_TOD_Low := ram s0 BUS_REG_TOD_LO_UARM\<rparr>"
proof -
  let ?old = "EXCV_BASE_UARM + old" and ?new = "EXCV_BASE_UARM + new"
  define s2 where "s2 = run (SAVE_OLD_STATE link) (s\<lparr>gpr := (gpr s)(0 := ?old)\<rparr>)"
  define s3 where "s3 = s2\<lparr>gpr := (gpr s2)(0 := ?new)\<rparr>"
  note sv = save_framed [OF f v a(1), where link = link, folded s2_def]
  have s': "s' = run BIOS_LDST s3"
    by (simp add: s'_def pass_to_kernel_def run_append s3_def s2_def arm_defs)
  have w: "x \<notin> state_words ?old" "x \<notin> rom_stack" if "x \<in> state_words ?new" for x
    using that a(2,3) by (auto simp: off_stack_iff)
  have nw: "read_state (ram s2) ?new = read_state (ram s0) ?new" by (rule read_state_cong) (use w sv(2) in blast)
  have w64: "?new + 64 \<in> state_words ?new" "?new + 76 \<in> state_words ?new" by (simp_all add: state_words_def)
  have tod: "BUS_REG_TOD_HI_UARM \<notin> rom_stack" "BUS_REG_TOD_LO_UARM \<notin> rom_stack" by (simp_all add: rom_stack_def uarm_map_defs)
  have l: "gpr s3 0 = ?new" "valid_mode (ram s3 (?new + 64))" using n sv(2) [OF w [OF w64(1)]] by (simp_all add: s3_def)
  note ld = ldst_spec [OF l(1) a(2) l(2), folded s']
  show "seen_state (cpsr s') (gpr s' 15) s' = (read_state (ram s0) ?new)
      \<lparr>ua_CP15_Cause := ram s0 (?new + 76) OR cp15 s c_cause1,
       ua_TOD_Hi := ram s0 BUS_REG_TOD_HI_UARM, ua_TOD_Low := ram s0 BUS_REG_TOD_LO_UARM\<rparr>"
    using ld(1) nw sv(3) sv(2) [OF w [OF w64(2)]] sv(2) [OF _ tod(1)] sv(2) [OF _ tod(2)] a(1) by (simp add: s3_def save_area_def)
  have "read_state (ram s') ?old = read_state (ram s2) ?old"
    by (rule read_state_cong) (use ld(2) a(1) in \<open>auto simp: s3_def save_area_def off_stack_iff\<close>)
  then show "read_state (ram s') ?old = (seen_state (cpsr s0) ret s0)
      \<lparr>ua_CP15_Control := cp15 s c_control, ua_CP15_EntryHi := cp15 s c_entryhi OR cp15 s c_entryhi1,
       ua_CP15_Cause := cp15 s c_cause OR cp15 s c_cause1\<rparr>" using sv(1) by simp
qed

text \<open>The eight areas are usable: off the stack, off the clock and apart.\<close>

lemma areas_usable:
  "save_area (EXCV_BASE_UARM + EXCV_INT_OLD)" "off_stack (EXCV_BASE_UARM + EXCV_INT_NEW)"
  "save_area (EXCV_BASE_UARM + EXCV_PGMT_OLD)" "off_stack (EXCV_BASE_UARM + EXCV_PGMT_NEW)"
  "save_area (EXCV_BASE_UARM + EXCV_SWI_OLD)" "off_stack (EXCV_BASE_UARM + EXCV_SWI_NEW)"
  "save_area (EXCV_BASE_UARM + EXCV_TLB_OLD)" "off_stack (EXCV_BASE_UARM + EXCV_TLB_NEW)"
  by (simp_all add: save_area_def off_stack_def state_words_def bios_defs uarm_map_defs)

lemma areas_apart:
  "state_words (EXCV_BASE_UARM + EXCV_INT_OLD) \<inter> state_words (EXCV_BASE_UARM + EXCV_INT_NEW) = {}"
  "state_words (EXCV_BASE_UARM + EXCV_PGMT_OLD) \<inter> state_words (EXCV_BASE_UARM + EXCV_PGMT_NEW) = {}"
  "state_words (EXCV_BASE_UARM + EXCV_SWI_OLD) \<inter> state_words (EXCV_BASE_UARM + EXCV_SWI_NEW) = {}"
  "state_words (EXCV_BASE_UARM + EXCV_TLB_OLD) \<inter> state_words (EXCV_BASE_UARM + EXCV_TLB_NEW) = {}"
  by (simp_all add: state_words_def bios_defs uarm_map_defs)

lemma area_names:
  "EXCV_BASE_UARM + EXCV_INT_OLD = INT_OLDAREA UARM" "EXCV_BASE_UARM + EXCV_INT_NEW = INT_NEWAREA UARM"
  "EXCV_BASE_UARM + EXCV_PGMT_OLD = PGMTRAP_OLDAREA UARM" "EXCV_BASE_UARM + EXCV_PGMT_NEW = PGMTRAP_NEWAREA UARM"
  "EXCV_BASE_UARM + EXCV_SWI_OLD = SYSBK_OLDAREA UARM" "EXCV_BASE_UARM + EXCV_SWI_NEW = SYSBK_NEWAREA UARM"
  "EXCV_BASE_UARM + EXCV_TLB_OLD = TLB_OLDAREA UARM" "EXCV_BASE_UARM + EXCV_TLB_NEW = TLB_NEWAREA UARM"
  by (simp_all add: area_defs bios_defs)

text \<open>
  A program runs in user or system mode. \<open>running s\<close> is the state the processor shows it, \<open>same_regs\<close>
  compares states up to what the BIOS does not load: the second Cause register and the clock.
\<close>

definition program_mode :: "u32 \<Rightarrow> bool" where
  "program_mode psr \<longleftrightarrow> mode_of psr = STATUS_USER_MODE \<or> mode_of psr = STATUS_SYS_MODE"

definition running_state :: "arm \<Rightarrow> uarm_state" where
  "running_state s = seen_state (cpsr s) (gpr s 15) s"

definition same_regs :: "uarm_state \<Rightarrow> uarm_state \<Rightarrow> bool" where
  "same_regs v w \<longleftrightarrow> v\<lparr>ua_CP15_Cause := 0, ua_TOD_Hi := 0, ua_TOD_Low := 0\<rparr> =
     w\<lparr>ua_CP15_Cause := 0, ua_TOD_Hi := 0, ua_TOD_Low := 0\<rparr>"

lemma same_regs_upd: "same_regs (v\<lparr>ua_CP15_Cause := x, ua_TOD_Hi := y, ua_TOD_Low := z\<rparr>) v"
  by (simp add: same_regs_def)

lemma program_mode_bank:
  assumes "program_mode psr" and "mode \<in> handler_modes"
  shows "valid_mode psr" "bank_of psr \<noteq> mode"
  using assms by (auto simp: program_mode_def valid_mode_def bank_of_def handler_modes_def uarm_mode_defs)

lemma pass_from_program:
  fixes link old new :: u32
  assumes f: "framed mode ret s0 s" and m: "mode \<in> handler_modes" and v: "program_mode (cpsr s0)"
    and a: "save_area (EXCV_BASE_UARM + old)" "off_stack (EXCV_BASE_UARM + new)"
      "state_words (EXCV_BASE_UARM + old) \<inter> state_words (EXCV_BASE_UARM + new) = {}"
    and n: "valid_mode (ram s0 (EXCV_BASE_UARM + new + 64))"
    and c: "cp15 s = (cp15 s0)(c_cause := x)"
  defines "s' \<equiv> run (pass_to_kernel link old new) s"
  shows "read_state (ram s') (EXCV_BASE_UARM + old) = (seen_state (cpsr s0) ret s0)
      \<lparr>ua_CP15_Cause := x OR cp15 s0 c_cause1\<rparr>"
    "same_regs (running_state s') (read_state (ram s0) (EXCV_BASE_UARM + new))"
proof -
  note p = pass_spec [OF f program_mode_bank [OF v m] a n, where link = link, folded s'_def]
  show "read_state (ram s') (EXCV_BASE_UARM + old) = (seen_state (cpsr s0) ret s0)\<lparr>ua_CP15_Cause := x OR cp15 s0 c_cause1\<rparr>"
    using p(1) c by (simp add: seen_state_def)
  show "same_regs (running_state s') (read_state (ram s0) (EXCV_BASE_UARM + new))"
    unfolding running_state_def p(2) by (rule same_regs_upd)
qed

lemma swi_number:
  fixes s :: arm
  assumes "ret - 4 \<notin> rom_stack"
  defines "s1 \<equiv> run (push_frame @ [LDR 0 14 (- 4), AND_i 0 0 0xFFFFFF]) (enter STATUS_SRV_MODE ret s)"
  shows "rget 0 s1 = ram s (ret - 4) AND 0xFFFFFF" "framed STATUS_SRV_MODE ret s s1" "cp15 s1 = cp15 s"
proof -
  have m: "STATUS_SRV_MODE \<in> handler_modes" by (simp add: handler_modes_def)
  define s0 where "s0 = run push_frame (enter STATUS_SRV_MODE ret s)"
  note p = push_frame_spec [OF m, of ret s, folded s0_def]
  have e: "s1 = s0\<lparr>gpr := (gpr s0)(0 := ram s (ret - 4) AND 0xFFFFFF)\<rparr>"
    using p(1,3) assms(1) by (simp add: s1_def run_append s0_def [symmetric] arm_defs framed_def)
  show "rget 0 s1 = ram s (ret - 4) AND 0xFFFFFF" "framed STATUS_SRV_MODE ret s s1" "cp15 s1 = cp15 s"
    using p by (simp_all add: e arm_defs framed_def)
qed

lemma swi_cont_framed:
  fixes eq :: bool
  assumes "framed mode ret s0 s" and "cp15 s = cp15 s0"
  defines "code \<equiv> exception_code (if eq then SYSEXCEPTION else BPEXCEPTION)"
  shows "\<exists>s1. run (SWI_H_Cont link eq) s = run (pass_to_kernel link EXCV_SWI_OLD EXCV_SWI_NEW) s1 \<and>
    framed mode ret s0 s1 \<and> cp15 s1 = (cp15 s0)(c_cause := CAUSE_EXCCODE_SET (cp15 s0 c_cause) code)"
proof -
  have "- 0x1000000 = (0xFF000000 :: u32)" by simp
  then have neg: "w AND - 0x1000000 = w AND 0xFF000000" for w :: u32 by (simp only:)
  define x where "x = CAUSE_EXCCODE_SET (cp15 s0 c_cause) code"
  let ?s1 = "s\<lparr>gpr := (gpr s)(0 := x), cp15 := (cp15 s)(c_cause := x)\<rparr>"
  have "run (SWI_H_Cont link eq) s = run (pass_to_kernel link EXCV_SWI_OLD EXCV_SWI_NEW) ?s1"
    using assms(2) neg by (simp add: SWI_H_Cont_def arm_defs x_def code_def CAUSE_EXCCODE_SET_def)
  moreover have "framed mode ret s0 ?s1" using assms(1) by (simp add: framed_def)
  ultimately show ?thesis using assms(2) by (intro exI [of _ ?s1]) (simp add: x_def)
qed

text \<open>Both kinds of \<open>SWI\<close> that the kernel handles.\<close>

lemma swi_delivers:
  fixes link ret :: u32 and s :: arm
  assumes v: "program_mode (cpsr s)" and r: "ret - 4 \<notin> rom_stack" and n: "valid_mode (ram s (SYSBK_NEWAREA UARM + 64))"
    and i: "ram s (ret - 4) AND 0xFFFFFF = (if eq then BIOS_SRV_SYS else BIOS_SRV_BP)"
  defines "code \<equiv> exception_code (if eq then SYSEXCEPTION else BPEXCEPTION)"
  shows "\<exists>s'. SWI_H link (enter STATUS_SRV_MODE ret s) = Loaded s' \<and>
    read_state (ram s') (SYSBK_OLDAREA UARM) =
      (seen_state (cpsr s) ret s)\<lparr>ua_CP15_Cause := CAUSE_EXCCODE_SET (cp15 s c_cause) code OR cp15 s c_cause1\<rparr> \<and>
    same_regs (running_state s') (read_state (ram s) (SYSBK_NEWAREA UARM))"
proof -
  have m: "STATUS_SRV_MODE \<in> handler_modes" by (simp add: handler_modes_def)
  define s1 where "s1 = run (push_frame @ [LDR 0 14 (- 4), AND_i 0 0 0xFFFFFF]) (enter STATUS_SRV_MODE ret s)"
  note s1 = swi_number [OF r, of s, folded s1_def]
  define s2 where "s2 = (if eq then s1 else s1\<lparr>gpr := (gpr s1)(0 := 42)\<rparr>)"
  have s2: "framed STATUS_SRV_MODE ret s s2" "cp15 s2 = cp15 s" using s1(2,3) by (auto simp: s2_def framed_def)
  have w: "SWI_H link (enter STATUS_SRV_MODE ret s) = Loaded (run (SWI_H_Cont link eq) s2)"
    using s1(1) i by (auto simp: SWI_H_def Let_def s1_def [symmetric] s2_def BIOS_SRV_SYS_def BIOS_SRV_BP_def arm_defs)
  obtain s3 where s3: "run (SWI_H_Cont link eq) s2 = run (pass_to_kernel link EXCV_SWI_OLD EXCV_SWI_NEW) s3"
      "framed STATUS_SRV_MODE ret s s3" "cp15 s3 = (cp15 s)(c_cause := CAUSE_EXCCODE_SET (cp15 s c_cause) code)"
    using swi_cont_framed [OF s2, of link eq] unfolding code_def by blast
  have "valid_mode (ram s (EXCV_BASE_UARM + EXCV_SWI_NEW + 64))" unfolding area_names by (rule n)
  note pass = pass_from_program [OF s3(2) m v areas_usable(5,6) areas_apart(3) this s3(3), where link = link,
      unfolded area_names]
  show ?thesis using pass unfolding w s3(1) by blast
qed

lemma handler_delivers:
  fixes link ret old new :: u32 and s :: arm
  assumes v: "program_mode (cpsr s)" and m: "mode \<in> handler_modes"
    and a: "save_area (EXCV_BASE_UARM + old)" "off_stack (EXCV_BASE_UARM + new)"
      "state_words (EXCV_BASE_UARM + old) \<inter> state_words (EXCV_BASE_UARM + new) = {}"
    and n: "valid_mode (ram s (EXCV_BASE_UARM + new + 64))"
  defines "s' \<equiv> run (push_frame @ pass_to_kernel link old new) (enter mode ret s)"
  shows "read_state (ram s') (EXCV_BASE_UARM + old) = seen_state (cpsr s) ret s"
    "same_regs (running_state s') (read_state (ram s) (EXCV_BASE_UARM + new))"
proof -
  have c: "cp15 (run push_frame (enter mode ret s)) = (cp15 s)(c_cause := cp15 s c_cause)"
    using push_frame_spec(2) [OF m] by simp
  note p = pass_from_program [OF push_frame_spec(1) [OF m] m v a n c, where link = link, folded run_append,
      folded s'_def]
  show "read_state (ram s') (EXCV_BASE_UARM + old) = seen_state (cpsr s) ret s" using p(1) by (simp add: seen_state_def)
  show "same_regs (running_state s') (read_state (ram s) (EXCV_BASE_UARM + new))" by (rule p(2))
qed

section \<open>Properties\<close>

text \<open>
  C10. The BIOS delivers exceptions to the kernel: when a program in user or system mode is interrupted,
  executes an undefined instruction, a system call or a breakpoint, the BIOS stores all of its registers,
  its status, the return address and the coprocessor's registers, with the code of the exception, in
  the old area of that kind of exception, and the processor continues with the registers, status and
  program counter of the new area, where the kernel's handler is. The number in the \<open>SWI\<close> instruction
  decides between system call and breakpoint.
\<close>

theorem bios_delivers:
  fixes link ret :: u32 and s :: arm
  assumes v: "program_mode (cpsr s)" and r: "ret - 4 \<notin> rom_stack"
    and n: "\<forall>new\<in>{INT_NEWAREA UARM, PGMTRAP_NEWAREA UARM, SYSBK_NEWAREA UARM}. valid_mode (ram s (new + 64))"
  defines "u \<equiv> seen_state (cpsr s) ret s"
    and "irq \<equiv> run (IRQ_H link) (enter STATUS_INT_MODE ret s)"
    and "undef \<equiv> run (UNDEF_H link) (enter STATUS_PGMT_MODE ret s)"
  shows "read_state (ram irq) (INT_OLDAREA UARM) = u \<and>
    same_regs (running_state irq) (read_state (ram s) (INT_NEWAREA UARM)) \<and>
    read_state (ram undef) (PGMTRAP_OLDAREA UARM) = u \<and>
    same_regs (running_state undef) (read_state (ram s) (PGMTRAP_NEWAREA UARM)) \<and>
    (\<forall>no \<in> {BIOS_SRV_SYS, BIOS_SRV_BP}. ram s (ret - 4) AND 0xFFFFFF = no \<longrightarrow>
      (\<exists>s'. SWI_H link (enter STATUS_SRV_MODE ret s) = Loaded s' \<and>
        read_state (ram s') (SYSBK_OLDAREA UARM) = u\<lparr>ua_CP15_Cause := CAUSE_EXCCODE_SET (cp15 s c_cause)
          (if no = BIOS_SRV_SYS then EXC_SYSCALL else EXC_BREAKPOINT) OR cp15 s c_cause1\<rparr> \<and>
        same_regs (running_state s') (read_state (ram s) (SYSBK_NEWAREA UARM))))"
proof -
  have nv: "valid_mode (ram s (EXCV_BASE_UARM + EXCV_INT_NEW + 64))" "valid_mode (ram s (EXCV_BASE_UARM + EXCV_PGMT_NEW + 64))"
      "valid_mode (ram s (SYSBK_NEWAREA UARM + 64))" unfolding area_names using n by simp_all
  have "STATUS_INT_MODE \<in> handler_modes" "STATUS_PGMT_MODE \<in> handler_modes" by (simp_all add: handler_modes_def)
  note i = handler_delivers [OF v this(1) areas_usable(1,2) areas_apart(1) nv(1), where link = link and ret = ret,
      folded IRQ_H_def, folded irq_def u_def, unfolded area_names]
    and un = handler_delivers [OF v this(2) areas_usable(3,4) areas_apart(2) nv(2), where link = link and ret = ret,
      folded UNDEF_H_def, folded undef_def u_def, unfolded area_names]
  note sw = swi_delivers [OF v r nv(3), where link = link, folded u_def]
  show ?thesis
    using i un sw [of True] sw [of False] by (simp add: EXC_SYSCALL_def EXC_BREAKPOINT_def BIOS_SRV_SYS_def BIOS_SRV_BP_def)
qed

text \<open>A program in system mode whose system call is at \<open>0x8000\<close>; all other words are valid statuses.\<close>

definition demo_arm :: arm where
  "demo_arm = \<lparr>gpr = of_nat, bank = (\<lambda>_ n. of_nat n), cpsr = 0x1F, spsr = (\<lambda>_. 0), cp15 = (\<lambda>_. 0),
     ram = (\<lambda>x. if x = 0x8000 then 0xEF000008 else if x = 0x8100 then 0xEF000003 else 0x1F)\<rparr>"

lemma demo_arm:
  "program_mode (cpsr demo_arm)" "ram demo_arm 0x8000 = 0xEF000008" "ram demo_arm 0x8100 = 0xEF000003"
  "x \<noteq> 0x8000 \<Longrightarrow> x \<noteq> 0x8100 \<Longrightarrow> valid_mode (ram demo_arm x)"
  by (simp_all add: demo_arm_def program_mode_def valid_mode_def mode_of_def uarm_mode_defs)

theorem bios_delivers_witness:
  "\<exists>s'. SWI_H 0 (enter STATUS_SRV_MODE 0x8004 demo_arm) = Loaded s' \<and>
     ua_CP15_Cause (read_state (ram s') (SYSBK_OLDAREA UARM)) = 4 \<and>
     ua_pc (read_state (ram s') (SYSBK_OLDAREA UARM)) = 0x8004"
proof -
  have h: "0x8004 - 4 \<notin> rom_stack"
      "\<forall>new\<in>{INT_NEWAREA UARM, PGMTRAP_NEWAREA UARM, SYSBK_NEWAREA UARM}. valid_mode (ram demo_arm (new + 64))"
    by (auto simp: rom_stack_def area_defs intro!: demo_arm(4))
  have "\<forall>no \<in> {BIOS_SRV_SYS, BIOS_SRV_BP}. ram demo_arm (0x8004 - 4) AND 0xFFFFFF = no \<longrightarrow>
      (\<exists>s'. SWI_H 0 (enter STATUS_SRV_MODE 0x8004 demo_arm) = Loaded s' \<and>
        read_state (ram s') (SYSBK_OLDAREA UARM) = (seen_state (cpsr demo_arm) 0x8004 demo_arm)\<lparr>ua_CP15_Cause :=
          CAUSE_EXCCODE_SET (cp15 demo_arm c_cause) (if no = BIOS_SRV_SYS then EXC_SYSCALL else EXC_BREAKPOINT) OR
          cp15 demo_arm c_cause1\<rparr> \<and>
        same_regs (running_state s') (read_state (ram demo_arm) (SYSBK_NEWAREA UARM)))"
    using bios_delivers [OF demo_arm(1) h, of 0] by blast
  from bspec [OF this, of BIOS_SRV_SYS] obtain s' where
    "SWI_H 0 (enter STATUS_SRV_MODE 0x8004 demo_arm) = Loaded s'"
    "read_state (ram s') (SYSBK_OLDAREA UARM) = (seen_state (cpsr demo_arm) 0x8004 demo_arm)\<lparr>ua_CP15_Cause :=
      CAUSE_EXCCODE_SET (cp15 demo_arm c_cause) EXC_SYSCALL OR cp15 demo_arm c_cause1\<rparr>"
    using demo_arm(2) by (auto simp: BIOS_SRV_SYS_def)
  then show ?thesis by (auto simp: seen_state_def demo_arm_def CAUSE_EXCCODE_SET_def EXC_SYSCALL_def)
qed

lemma ldst_service:
  fixes link :: u32 and k :: arm
  assumes r: "bret - 4 \<notin> rom_stack" and p: "off_stack (gpr k 0)" and n: "valid_mode (ram k (gpr k 0 + 64))"
    and i: "ram k (bret - 4) AND 0xFFFFFF = BIOS_SRV_LDST"
  shows "\<exists>s'. SWI_H link (enter STATUS_SRV_MODE bret k) = Loaded s' \<and>
    same_regs (running_state s') (read_state (ram k) (gpr k 0))"
proof -
  define s1 where "s1 = run (push_frame @ [LDR 0 14 (- 4), AND_i 0 0 0xFFFFFF]) (enter STATUS_SRV_MODE bret k)"
  note s1 = swi_number [OF r, of k, folded s1_def]
  define s2 where "s2 = run [MOV_r 6 0, MOV 13 ROMSTACK_TOP, ADD 13 13 ROMSTACK_OFF, LDR 0 13 0] s1"
  have s2: "gpr s2 0 = gpr k 0" "ram s2 = ram s1" "rget 6 s2 = rget 0 s1"
    using s1(2) by (simp_all add: s2_def arm_defs bios_defs framed_def)
  have "BIOS_SRV_EXEC s1 = Loaded (run BIOS_LDST s2)"
    unfolding BIOS_SRV_EXEC_def Let_def s2_def [symmetric] using s1(1) s2(3) i by (simp add: bios_defs)
  then have w: "SWI_H link (enter STATUS_SRV_MODE bret k) = Loaded (run BIOS_LDST s2)"
    using s1(1) i by (simp add: SWI_H_def Let_def s1_def [symmetric] bios_defs BIOS_SRV_BP_def)
  have m: "ram s2 x = ram k x" if "x \<notin> rom_stack" for x using s1(2) s2(2) that by (simp add: framed_def)
  have st: "x \<notin> rom_stack" if "x \<in> state_words (gpr k 0)" for x using p that by (auto simp: off_stack_iff)
  have "valid_mode (ram s2 (gpr k 0 + 64))" using n m st by (simp add: state_words_def)
  from ldst_spec(1) [OF s2(1) p this] have "same_regs (running_state (run BIOS_LDST s2)) (read_state (ram s2) (gpr k 0))"
    unfolding running_state_def by (simp add: same_regs_upd)
  moreover have "read_state (ram s2) (gpr k 0) = read_state (ram k) (gpr k 0)" by (rule read_state_cong) (use m st in blast)
  ultimately show ?thesis using w by simp
qed

text \<open>
  The services of the BIOS: \<open>LDST\<close>, called with the address of a state outside the ROM stack, leaves
  exactly that state on the processor, its program counter and mode included; \<open>HALT\<close> and \<open>PANIC\<close> stop
  the machine, and any other number that is not a system call or a breakpoint is reported as unknown.
\<close>

lemma bios_services:
  fixes link bret :: u32 and k :: arm
  assumes "bret - 4 \<notin> rom_stack"
  defines "service \<equiv> ram k (bret - 4) AND 0xFFFFFF" and "out \<equiv> SWI_H link (enter STATUS_SRV_MODE bret k)"
  shows "(service = BIOS_SRV_LDST \<longrightarrow> off_stack (gpr k 0) \<longrightarrow> valid_mode (ram k (gpr k 0 + 64)) \<longrightarrow>
      (\<exists>s'. out = Loaded s' \<and> same_regs (running_state s') (read_state (ram k) (gpr k 0)))) \<and>
    (service = BIOS_SRV_HALT \<longrightarrow> out = Halted) \<and> (service = BIOS_SRV_PANIC \<longrightarrow> out = Panicked) \<and>
    (service \<notin> {BIOS_SRV_LDST, BIOS_SRV_HALT, BIOS_SRV_PANIC, BIOS_SRV_SYS, BIOS_SRV_BP} \<longrightarrow> out = UnknownService)"
proof -
  note s1 = swi_number(1) [OF assms(1), of k, folded service_def]
  have "out = BIOS_SRV_EXEC (run (push_frame @ [LDR 0 14 (- 4), AND_i 0 0 0xFFFFFF]) (enter STATUS_SRV_MODE bret k))"
    if "service \<noteq> BIOS_SRV_SYS" "service \<noteq> BIOS_SRV_BP"
    using that s1 by (simp add: out_def SWI_H_def Let_def)
  moreover have "rget 6 (run [MOV_r 6 0, MOV 13 ROMSTACK_TOP, ADD 13 13 ROMSTACK_OFF, LDR 0 13 0] x) = rget 0 x" for x
    by (simp add: arm_defs)
  ultimately show ?thesis
    using ldst_service [OF assms(1), of k link] s1
    by (auto simp: BIOS_SRV_EXEC_def Let_def bios_defs BIOS_SRV_BP_def service_def out_def)
qed

lemma bios_services_example:
  "\<exists>s'. SWI_H 0 (enter STATUS_SRV_MODE 0x8104 (demo_arm\<lparr>gpr := (\<lambda>_. 0x9000)\<rparr>)) = Loaded s' \<and>
     same_regs (running_state s') (read_state (ram demo_arm) 0x9000)"
  using bios_services [of "0x8104" "demo_arm\<lparr>gpr := (\<lambda>_. 0x9000)\<rparr>" 0] demo_arm(3) demo_arm(4) [of "0x9040"]
  by (simp add: rom_stack_def off_stack_def bios_defs)

text \<open>
  A system call comes back: when a program makes a system call and the kernel, leaving the old area as
  the BIOS filled it, ends by loading that area, the program continues behind its \<open>SWI\<close> instruction
  with all its registers, in its own mode.
\<close>

lemma syscall_comes_back:
  fixes link ret bret :: u32 and s t k :: arm
  assumes v: "program_mode (cpsr s)" and r: "ret - 4 \<notin> rom_stack" and n: "valid_mode (ram s (SYSBK_NEWAREA UARM + 64))"
    and i: "ram s (ret - 4) AND 0xFFFFFF = BIOS_SRV_SYS" and t: "SWI_H link (enter STATUS_SRV_MODE ret s) = Loaded t"
    and k: "gpr k 0 = SYSBK_OLDAREA UARM" "read_state (ram k) (SYSBK_OLDAREA UARM) = read_state (ram t) (SYSBK_OLDAREA UARM)"
    and l: "bret - 4 \<notin> rom_stack" "ram k (bret - 4) AND 0xFFFFFF = BIOS_SRV_LDST"
  shows "\<exists>s'. SWI_H link (enter STATUS_SRV_MODE bret k) = Loaded s' \<and>
    same_regs (running_state s') (seen_state (cpsr s) ret s)"
proof -
  let ?v = "seen_state (cpsr s) ret s"
  obtain x where x: "read_state (ram k) (SYSBK_OLDAREA UARM) = ?v\<lparr>ua_CP15_Cause := x\<rparr>"
    using swi_delivers [OF v r n, of True link] i t k(2) by auto
  have "ram k (SYSBK_OLDAREA UARM + 64) = cpsr s" using arg_cong [OF x, of ua_cpsr] by (simp add: read_state_def seen_state_def)
  moreover have "valid_mode (cpsr s)" using v by (auto simp: program_mode_def valid_mode_def)
  moreover have "off_stack (SYSBK_OLDAREA UARM)" using areas_usable(5) unfolding area_names by (simp add: save_area_def)
  ultimately obtain s' where "SWI_H link (enter STATUS_SRV_MODE bret k) = Loaded s'" "same_regs (running_state s') (?v\<lparr>ua_CP15_Cause := x\<rparr>)"
    using ldst_service [OF l(1), of k link] l(2) k(1) x by auto
  then show ?thesis by (auto simp: same_regs_def)
qed

lemma syscall_comes_back_example:
  "\<exists>t. SWI_H 0 (enter STATUS_SRV_MODE 0x8004 demo_arm) = Loaded t \<and>
     (\<exists>s'. SWI_H 0 (enter STATUS_SRV_MODE 0x8104
         (t\<lparr>gpr := (\<lambda>_. SYSBK_OLDAREA UARM), ram := (ram t)(0x8100 := 0xEF000003)\<rparr>)) = Loaded s' \<and>
       same_regs (running_state s') (seen_state (cpsr demo_arm) 0x8004 demo_arm))"
proof -
  have h: "0x8004 - 4 \<notin> rom_stack" "valid_mode (ram demo_arm (SYSBK_NEWAREA UARM + 64))"
      "ram demo_arm (0x8004 - 4) AND 0xFFFFFF = BIOS_SRV_SYS"
    using demo_arm(2) by (auto simp: rom_stack_def area_defs BIOS_SRV_SYS_def intro!: demo_arm(4))
  obtain t where t: "SWI_H 0 (enter STATUS_SRV_MODE 0x8004 demo_arm) = Loaded t"
    using swi_delivers [OF demo_arm(1) h(1,2), of True 0] h(3) by auto
  let ?k = "t\<lparr>gpr := (\<lambda>_. SYSBK_OLDAREA UARM), ram := (ram t)(0x8100 := 0xEF000003)\<rparr>"
  have "read_state (ram ?k) (SYSBK_OLDAREA UARM) = read_state (ram t) (SYSBK_OLDAREA UARM)"
    by (rule read_state_cong) (auto simp: state_words_def area_defs)
  then show ?thesis
    using syscall_comes_back [OF demo_arm(1) h t, of ?k "0x8104"] t by (simp add: rom_stack_def BIOS_SRV_LDST_def)
qed

end
