(* ===== verification/System.thy ===== *)
theory System
  imports Requests Bios
begin

text \<open>
  The BIOS of uARM and the kernel together: from a program that traps, through the BIOS that saves its
  registers, the handler of the kernel and the \<open>LDST\<close> service that loads the state the handler
  chose, back to a program.

  The BIOS works on the processor and memory of \<open>Arm\<close>, the kernel on the kernel state of \<open>Machine\<close>.
  They meet in the exception areas: \<open>finds\<close> says that the kernel finds in an old area what the BIOS
  has left there, and \<open>calls_LDST\<close> that the kernel, executing its \<open>SWI\<close> instruction, asks the BIOS to
  load the state its model returned.
\<close>

section \<open>Where the two models meet\<close>

definition finds :: "kst \<Rightarrow> u32 \<Rightarrow> arm \<Rightarrow> bool" where
  "finds k area t \<longleftrightarrow> target k = UARM \<and> areas k area = UarmState (read_state (ram t) area)"

definition calls_LDST :: "arm \<Rightarrow> u32 \<Rightarrow> state_t \<Rightarrow> bool" where
  "calls_LDST b bret v \<longleftrightarrow> off_stack (gpr b 0) \<and> UarmState (read_state (ram b) (gpr b 0)) = v \<and>
     bret - 4 \<notin> rom_stack \<and> ram b (bret - 4) AND 0xFFFFFF = BIOS_SRV_LDST"

text \<open>The program that runs after the handler has chosen the state \<open>v\<close>.\<close>

definition continues :: "u32 \<Rightarrow> state_t \<Rightarrow> uarm_state \<Rightarrow> bool" where
  "continues link v w \<longleftrightarrow> (\<forall>b bret. calls_LDST b bret v \<longrightarrow>
     (\<exists>s'. SWI_H link (enter STATUS_SRV_MODE bret b) = Loaded s' \<and> same_regs (running_state s') w))"

lemma continuesI:
  assumes "valid_mode (ua_cpsr v)" and "same_regs v w"
  shows "continues link (UarmState v) w"
  unfolding continues_def
proof (intro allI impI)
  fix b bret
  assume c: "calls_LDST b bret (UarmState v)"
  then have v: "read_state (ram b) (gpr b 0) = v" by (simp add: calls_LDST_def)
  then have "ram b (gpr b 0 + 64) = ua_cpsr v" by (auto simp: read_state_def)
  then obtain s' where "SWI_H link (enter STATUS_SRV_MODE bret b) = Loaded s'" "same_regs (running_state s') v"
    using ldst_service [of bret b link] c v assms(1) by (auto simp: calls_LDST_def)
  then show "\<exists>s'. SWI_H link (enter STATUS_SRV_MODE bret b) = Loaded s' \<and> same_regs (running_state s') w"
    using assms(2) by (auto simp: same_regs_def)
qed

lemma program_mode_valid: "program_mode psr \<Longrightarrow> valid_mode psr"
  by (auto simp: program_mode_def valid_mode_def)

section \<open>System calls\<close>

text \<open>The code the BIOS writes is the one the kernel looks for; the second Cause register has no code.\<close>

lemma syscall_code_found:
  assumes "c1 AND 0xFFFFFF = 0"
  shows "CAUSE_EXCCODE_GET (CAUSE_EXCCODE_SET c EXC_SYSCALL OR c1) = EXC_SYSCALL"
  using assms unfolding CAUSE_EXCCODE_GET_def CAUSE_EXCCODE_SET_def EXC_SYSCALL_def
  by (simp add: bit.conj_disj_distrib2 and.assoc)

definition result_arm :: "u32 option \<Rightarrow> uarm_state \<Rightarrow> uarm_state" where
  "result_arm x u = (case x of None \<Rightarrow> u | Some r \<Rightarrow> u\<lparr>ua_a1 := r\<rparr>)"

lemma with_result_arm: "with_result x (UarmState u) = UarmState (result_arm x u)"
  by (simp add: with_result_def result_arm_def split: option.splits)

text \<open>
  C5. A system call on uARM, from the program through BIOS and kernel and back: when a program in user
  or system mode executes \<open>SWI 8\<close> the BIOS saves its registers and enters the kernel, and for a call
  that returns, the kernel ends by loading a state with which the BIOS resumes the program right
  after the instruction, in its mode, with all its registers, but for the result in \<open>a1\<close> of a call
  that has one. A program whose call blocks is left in its table entry with exactly those registers.
\<close>

theorem arm_system_call:
  fixes link ret :: u32 and s :: arm
  assumes v: "program_mode (cpsr s)" and r: "ret - 4 \<notin> rom_stack" and n: "valid_mode (ram s (SYSBK_NEWAREA UARM + 64))"
    and i: "ram s (ret - 4) AND 0xFFFFFF = BIOS_SRV_SYS" and c1: "cp15 s c_cause1 AND 0xFFFFFF = 0"
  defines "u \<equiv> seen_state (cpsr s) ret s"
  shows "\<exists>t. SWI_H link (enter STATUS_SRV_MODE ret s) = Loaded t \<and>
    same_regs (running_state t) (read_state (ram s) (SYSBK_NEWAREA UARM)) \<and>
    (\<forall>k a p. finds k (SYSBK_OLDAREA UARM) t \<longrightarrow> kernel_rel k a \<longrightarrow> current_proc k = Ptr p \<longrightarrow>
       request_ok k a p (UarmState u) \<longrightarrow>
       (\<exists>w k'. syscall_handler k = Some (w, k') \<and>
         (case answer k a p (UarmState u) of
            Returns x \<Rightarrow> current_proc k' = Ptr p \<and> continues link w (result_arm x u)
          | Blocks \<Rightarrow> next_runs (a_ready a) k w k' \<and> continues link (p_s (pcbTable (st k') p)) u
          | Dies \<Rightarrow> next_runs (filter (\<lambda>q. q \<notin> subtree a p) (a_ready a)) k w k'
          | PassesUp \<Rightarrow> current_proc k' = Ptr p)))"
proof -
  obtain t where t: "SWI_H link (enter STATUS_SRV_MODE ret s) = Loaded t"
      "read_state (ram t) (SYSBK_OLDAREA UARM) = u\<lparr>ua_CP15_Cause := CAUSE_EXCCODE_SET (cp15 s c_cause) EXC_SYSCALL OR cp15 s c_cause1\<rparr>"
      "same_regs (running_state t) (read_state (ram s) (SYSBK_NEWAREA UARM))"
    using swi_delivers [OF v r n, of True link] i by (auto simp: u_def EXC_SYSCALL_def)
  define x where "x = CAUSE_EXCCODE_SET (cp15 s c_cause) EXC_SYSCALL OR cp15 s c_cause1"
  define u' where "u' = u\<lparr>ua_CP15_Cause := x\<rparr>"
  have code: "CAUSE_EXCCODE_GET x = EXC_SYSCALL" unfolding x_def by (rule syscall_code_found [OF c1])
  have psr: "valid_mode (ua_cpsr (result_arm y u'))" for y
    using program_mode_valid [OF v] by (simp add: u'_def u_def seen_state_def result_arm_def split: option.splits)
  have same: "same_regs (result_arm y u') (result_arm y u)" for y
    by (simp add: u'_def same_regs_def result_arm_def split: option.splits)
  have go: "continues link (UarmState (result_arm y u')) (result_arm y u)" for y by (rule continuesI [OF psr same])
  have "\<exists>w k'. syscall_handler k = Some (w, k') \<and>
      (case answer k a p (UarmState u) of
         Returns x \<Rightarrow> current_proc k' = Ptr p \<and> continues link w (result_arm x u)
       | Blocks \<Rightarrow> next_runs (a_ready a) k w k' \<and> continues link (p_s (pcbTable (st k') p)) u
       | Dies \<Rightarrow> next_runs (filter (\<lambda>q. q \<notin> subtree a p) (a_ready a)) k w k'
       | PassesUp \<Rightarrow> current_proc k' = Ptr p)"
    if k: "finds k (SYSBK_OLDAREA UARM) t" "kernel_rel k a" "current_proc k = Ptr p" "request_ok k a p (UarmState u)" for k a p
  proof -
    have e: "target k = UARM" "areas k (SYSBK_OLDAREA (target k)) = UarmState u'"
      using k(1) t(2) by (simp_all add: finds_def u'_def x_def)
    have q: "request_ok k a p (UarmState u')" "answer k a p (UarmState u') = answer k a p (UarmState u)"
      using k(4) by (simp_all add: request_ok_def answer_def u'_def)
    have "CAUSE_EXC (UarmState u') = CAUSE_SYSCALL (target k)" using code e(1) by (simp add: u'_def CAUSE_SYSCALL_def)
    moreover have "after_call (target k) (UarmState u') = UarmState u'" using e(1) by (simp add: after_call_def)
    ultimately show ?thesis
      using syscall_outcome [OF k(2,3) e(2) [symmetric] _ q(1) refl] go go [of None] unfolding q(2)
      by (fastforce simp: with_result_arm result_arm_def split: answer.splits)
  qed
  then show ?thesis using t(1,3) by blast
qed

text \<open>
  A process whose request, identifier \<open>0xEF000008\<close> at \<open>0x8000\<close>, is the number in \<open>a1\<close>; here \<open>GETPID\<close>.
\<close>

definition demo_caller :: arm where
  "demo_caller = demo_arm\<lparr>gpr := (of_nat)(0 := GETPID, 1 := 0, 2 := 0)\<rparr>"

lemma demo_caller:
  "program_mode (cpsr demo_caller)" "ram demo_caller = ram demo_arm" "cp15 demo_caller c_cause1 = 0"
  "0x8004 - 4 \<notin> rom_stack" "valid_mode (ram demo_caller (SYSBK_NEWAREA UARM + 64))"
  "ram demo_caller (0x8004 - 4) AND 0xFFFFFF = BIOS_SRV_SYS"
  using demo_arm(1,2) demo_arm(4) [of "SYSBK_NEWAREA UARM + 64"]
  by (auto simp: demo_caller_def rom_stack_def area_defs BIOS_SRV_SYS_def) (simp add: demo_arm_def)

theorem arm_system_call_witness:
  "\<exists>t k w k'. SWI_H 0 (enter STATUS_SRV_MODE 0x8004 demo_caller) = Loaded t \<and> finds k (SYSBK_OLDAREA UARM) t \<and>
     syscall_handler k = Some (w, k') \<and> continues 0 w (seen_state (cpsr demo_caller) 0x8004 demo_caller)"
proof -
  let ?u = "seen_state (cpsr demo_caller) 0x8004 demo_caller"
  have "cp15 demo_caller c_cause1 AND 0xFFFFFF = 0" by (simp only: demo_caller(3) and.left_neutral) simp
  from arm_system_call [OF demo_caller(1,4-6) this, of 0] obtain t where t:
      "SWI_H 0 (enter STATUS_SRV_MODE 0x8004 demo_caller) = Loaded t"
      "\<And>k a p. finds k (SYSBK_OLDAREA UARM) t \<Longrightarrow> kernel_rel k a \<Longrightarrow> current_proc k = Ptr p \<Longrightarrow>
       request_ok k a p (UarmState ?u) \<Longrightarrow>
       \<exists>w k'. syscall_handler k = Some (w, k') \<and>
         (case answer k a p (UarmState ?u) of
            Returns x \<Rightarrow> current_proc k' = Ptr p \<and> continues 0 w (result_arm x ?u)
          | Blocks \<Rightarrow> next_runs (a_ready a) k w k' \<and> continues 0 (p_s (pcbTable (st k') p)) ?u
          | Dies \<Rightarrow> next_runs (filter (\<lambda>q. q \<notin> subtree a p) (a_ready a)) k w k'
          | PassesUp \<Rightarrow> current_proc k' = Ptr p)" by blast
  define k where "k = (demo_two UARM)\<lparr>areas := (\<lambda>x. UarmState (read_state (ram t) x))\<rparr>"
  have k: "finds k (SYSBK_OLDAREA UARM) t" "kernel_rel k two_abs" "current_proc k = Ptr 19"
    using demo_two(2,3) [of UARM] kernel_rel_cong [OF demo_two(1) [of UARM], of k] by (simp_all add: finds_def k_def)
  have "request_ok k two_abs 19 (UarmState ?u)" "answer k two_abs 19 (UarmState ?u) = Returns None"
    by (simp_all add: seen_state_def demo_caller_def request_ok_def answer_def syscall_nos)
  then show ?thesis using t(1) t(2) [OF k] k(1) by (auto simp: result_arm_def)
qed

section \<open>Interrupts\<close>

lemma interrupts_handler_returns:
  assumes r: "kernel_rel k a" and e: "expected k a" and c: "current_proc k = Ptr p"
    and t: "\<not> INT_IS_PENDING (target k) (CAUSE (areas k (INT_OLDAREA (target k)))) IL_TIMER"
  defines "v \<equiv> areas k (INT_OLDAREA (target k))"
  shows "\<exists>k'. interrupts_handler k = Some (if target k = UARM then set_PC (PC v - WORD_SIZE) v else v, k') \<and>
    current_proc k' = Ptr p"
proof -
  obtain k0 k1 a1 ds where k1: "timed k k0" "woke (int_wakes k) ds (int_entry k k0) a k1 a1"
      "interrupts_handler k = scheduler_resume False (INT_OLDAREA (target k)) k1"
    using interrupts_handler_woke [OF r e] t by auto
  have d: "current_proc k1 = Ptr p" "areas k1 = areas (int_entry k k0)"
    using woke_fields(1) [OF k1(2)] int_entry_fields(6) [OF k1(1) r] c by (simp_all add: devices_only_def)
  have "areas k1 (INT_OLDAREA (target k)) = (if target k = UARM then set_PC (PC v - WORD_SIZE) v else v)"
    using timed_fields(6) [OF k1(1)] by (simp add: d(2) int_entry_def Let_def v_def setTIMER_def)
  moreover obtain k' where "scheduler_resume False (INT_OLDAREA (target k)) k1 = Some (areas k1 (INT_OLDAREA (target k)), k')"
      "timed k1 k'"
    using resume_continue [OF d(1) kernel_relD(3) [OF woke_fields(2) [OF k1(2)] d(1)] area_nonzero(1)] by blast
  ultimately show ?thesis using k1(3) d(1) timed_fields(3) by auto
qed

text \<open>
  C6. A device interrupt on uARM is transparent: the processor enters the BIOS with the address of the
  next instruction plus four, as the architecture has it; the BIOS saves the registers, the kernel
  wakes the processes that waited for the devices, and when the time slice is not over it ends by
  loading a state with which the BIOS resumes the interrupted program, in its mode, with all its
  registers, at exactly the instruction that had not been executed.
\<close>

theorem arm_interrupt:
  fixes link pc :: u32 and s :: arm
  assumes v: "program_mode (cpsr s)" and n: "valid_mode (ram s (INT_NEWAREA UARM + 64))"
  defines "t \<equiv> run (IRQ_H link) (enter STATUS_INT_MODE (pc + 4) s)"
  shows "same_regs (running_state t) (read_state (ram s) (INT_NEWAREA UARM)) \<and>
    (\<forall>k a p. finds k (INT_OLDAREA UARM) t \<longrightarrow> kernel_rel k a \<longrightarrow> current_proc k = Ptr p \<longrightarrow> expected k a \<longrightarrow>
       \<not> INT_IS_PENDING UARM (cp15 s c_cause OR cp15 s c_cause1) IL_TIMER \<longrightarrow>
       (\<exists>w k' a'. interrupts_handler k = Some (w, k') \<and> current_proc k' = Ptr p \<and> kernel_rel k' a' \<and>
         (\<forall>x. a_sem a' x = (if x \<in> set (int_wakes k) then tl (a_sem a x) else a_sem a x)) \<and>
         continues link w (seen_state (cpsr s) pc s)))"
proof -
  let ?u = "seen_state (cpsr s) (pc + 4) s"
  have m: "STATUS_INT_MODE \<in> handler_modes" by (simp add: handler_modes_def)
  have nv: "valid_mode (ram s (EXCV_BASE_UARM + EXCV_INT_NEW + 64))" unfolding area_names by (rule n)
  note d = handler_delivers [OF v m areas_usable(1,2) areas_apart(1) nv, where link = link and ret = "pc + 4",
      folded IRQ_H_def, folded t_def, unfolded area_names]
  have psr: "valid_mode (ua_cpsr (?u\<lparr>ua_pc := pc\<rparr>))" using program_mode_valid [OF v] by (simp add: seen_state_def)
  have "?u\<lparr>ua_pc := pc\<rparr> = seen_state (cpsr s) pc s" by (simp add: seen_state_def)
  then have go: "continues link (UarmState (?u\<lparr>ua_pc := pc\<rparr>)) (seen_state (cpsr s) pc s)"
    using continuesI [OF psr] by (simp add: same_regs_def)
  have "\<exists>w k' a'. interrupts_handler k = Some (w, k') \<and> current_proc k' = Ptr p \<and> kernel_rel k' a' \<and>
      (\<forall>x. a_sem a' x = (if x \<in> set (int_wakes k) then tl (a_sem a x) else a_sem a x)) \<and>
      continues link w (seen_state (cpsr s) pc s)"
    if k: "finds k (INT_OLDAREA UARM) t" "kernel_rel k a" "current_proc k = Ptr p" "expected k a"
      "\<not> INT_IS_PENDING UARM (cp15 s c_cause OR cp15 s c_cause1) IL_TIMER" for k a p
  proof -
    have e: "target k = UARM" "areas k (INT_OLDAREA (target k)) = UarmState ?u"
      using k(1) d(1) by (simp_all add: finds_def)
    have "\<not> INT_IS_PENDING (target k) (CAUSE (areas k (INT_OLDAREA (target k)))) IL_TIMER"
      using k(5) e by (simp add: seen_state_def)
    then obtain k' where k': "interrupts_handler k = Some (UarmState (?u\<lparr>ua_pc := pc\<rparr>), k')" "current_proc k' = Ptr p"
      using interrupts_handler_returns [OF k(2,4,3)] e by (auto simp: WORD_SIZE_def seen_state_def)
    obtain a' where "kernel_rel k' a'" "\<forall>x. a_sem a' x = (if x \<in> set (int_wakes k) then tl (a_sem a x) else a_sem a x)"
      using interrupts_handler_rel [OF k(2,4)] k'(1) by auto
    then show ?thesis using k' go by blast
  qed
  then show ?thesis using d(2) by blast
qed

text \<open>A disk interrupts process 18 on uARM, and process 19 waits for it.\<close>

definition demo_disk :: arm where
  "demo_disk = demo_arm\<lparr>cp15 := (\<lambda>_. 0)(c_cause := 0x08000000)\<rparr>"

lemma demo_disk:
  "program_mode (cpsr demo_disk)" "valid_mode (ram demo_disk (INT_NEWAREA UARM + 64))"
  "cp15 demo_disk c_cause OR cp15 demo_disk c_cause1 = 0x08000000"
proof -
  show "program_mode (cpsr demo_disk)" using demo_arm(1) by (simp add: demo_disk_def)
  show "valid_mode (ram demo_disk (INT_NEWAREA UARM + 64))"
    using demo_arm(4) [of "INT_NEWAREA UARM + 64"] by (simp add: demo_disk_def area_defs)
  show "cp15 demo_disk c_cause OR cp15 demo_disk c_cause1 = 0x08000000" by (simp add: demo_disk_def)
qed

theorem arm_interrupt_witness:
  "\<exists>k w k'. finds k (INT_OLDAREA UARM) (run (IRQ_H 0) (enter STATUS_INT_MODE 0x9004 demo_disk)) \<and>
     interrupts_handler k = Some (w, k') \<and> continues 0 w (seen_state (cpsr demo_disk) 0x9000 demo_disk)"
proof -
  define t where "t = run (IRQ_H 0) (enter STATUS_INT_MODE (0x9000 + 4) demo_disk)"
  define key where "key = dev_key (demo_two UARM) IL_DISK 2 False"
  define k where "k = (demo_wait UARM key)\<lparr>areas := (\<lambda>_. UarmState (read_state (ram t) (INT_OLDAREA UARM))), bytes := (\<lambda>_. 4)\<rparr>"
  note D = arm_interrupt [OF demo_disk(1,2), where link = 0 and pc = "0x9000", folded t_def]
  have f: "finds k (INT_OLDAREA UARM) t" "current_proc k = Ptr 18" "target k = UARM" "linked k = linked (demo_two UARM)"
    using demo_wait(2-4) [of UARM key] by (simp_all add: k_def finds_def)
  have r: "kernel_rel k (wait_abs key)" by (rule kernel_rel_cong [OF demo_wait(1) [of UARM key]]) (simp_all add: k_def)
  have nv: "valid_mode (ram demo_disk (EXCV_BASE_UARM + EXCV_INT_NEW + 64))" unfolding area_names by (rule demo_disk(2))
  have "STATUS_INT_MODE \<in> handler_modes" by (simp add: handler_modes_def)
  note d = handler_delivers [OF demo_disk(1) this areas_usable(1,2) areas_apart(1) nv, where link = 0 and ret = "0x9000 + 4",
      folded IRQ_H_def, folded t_def, unfolded area_names]
  have c: "CAUSE (areas k x) = 0x08000000" "bytes k x = 4" for x
    using d(1) demo_disk(3) by (simp_all add: k_def seen_state_def)
  have h: "handled_lines UARM 0x08000000 = [IL_DISK]" by (simp add: handled_lines_def pending_defs il_defs push_bit_eq_mult)
  have dw: "dev_wakes k IL_DISK 2 = [key]" using f(4) by (simp add: dev_wakes_def Let_def dev_key_def key_def il_defs)
  have "line_wakes k IL_DISK = [key]"
    unfolding line_wakes_def bit_wakes_def c(2) by (simp add: upt_rec dw bit_numeral_rec)
  then have e: "expected k (wait_abs key)"
    unfolding expected_def f(3) c(1) Let_def h by (simp add: wait_abs_def pending_defs il_defs push_bit_eq_mult)
  have "\<not> INT_IS_PENDING UARM (cp15 demo_disk c_cause OR cp15 demo_disk c_cause1) IL_TIMER"
    unfolding demo_disk(3) by (simp add: pending_defs il_defs push_bit_eq_mult)
  then have "\<exists>w k' a'. interrupts_handler k = Some (w, k') \<and> continues 0 w (seen_state (cpsr demo_disk) 0x9000 demo_disk)"
    using D f(1,2) r e by blast
  then show ?thesis using f(1) by (auto simp: t_def)
qed

end
