(* ===== verification/Semaphores.thy ===== *)
theory Semaphores
  imports Requests
begin

text \<open>
  The semaphores of the processes, across all runs of the kernel: a process waits on a semaphore only
  while its value is zero. The value is a word of the program's own memory, so this holds of programs
  that leave the word of a semaphore with waiters alone and do not ask the kernel to store a result
  there; the semaphores of the devices, which have no value, are left aside.
\<close>

section \<open>Discipline\<close>

definition device_key :: "kst \<Rightarrow> u32 \<Rightarrow> bool" where
  "device_key k x \<longleftrightarrow> (\<exists>line\<in>set dev_lines. \<exists>i\<in>set dev_nums. \<exists>r. x = dev_key k line i r)"

text \<open>The words a call stores its results in.\<close>

definition result_words :: "state_t \<Rightarrow> u32 set" where
  "result_words v =
     (let n = SYSARG0 v in
      if n = GETCPUTIME then {SYSARG1 v, SYSARG2 v, SYSARG3 v}
      else if n = CREATEPROCESS then {SYSARG3 v} - {0}
      else if n = GETPID then {SYSARG1 v, SYSARG2 v} - {0}
      else {})"

definition waited :: "kst \<Rightarrow> proc_abs \<Rightarrow> u32 \<Rightarrow> bool" where
  "waited k a x \<longleftrightarrow> a_sem a x \<noteq> [] \<and> \<not> device_key k x"

definition disciplined :: "event \<Rightarrow> kst \<Rightarrow> kst \<Rightarrow> proc_abs \<Rightarrow> bool" where
  "disciplined e k k1 a \<longleftrightarrow> (\<forall>x. waited k1 a x \<longrightarrow> mem k1 x = mem k x) \<and>
     (e = SysBk \<longrightarrow> (\<forall>x\<in>result_words (areas k1 (SYSBK_OLDAREA (target k1))). \<not> waited k1 a x))"

inductive sreach :: "kst \<Rightarrow> bool" where
  boot: "boots k \<Longrightarrow> main k = Some (v, k') \<Longrightarrow> sreach k'"
| step: "sreach k \<Longrightarrow> user_run k k1 \<Longrightarrow> (\<And>a. kernel_rel k1 a \<Longrightarrow> admissible e k1 a \<and> disciplined e k k1 a) \<Longrightarrow>
    handler e k1 = Some (v, k') \<Longrightarrow> sreach k'"

lemma sreach_kreach: "sreach k \<Longrightarrow> kreach k"
  by (induction rule: sreach.induct) (blast intro: kreach.intros)+

section \<open>The invariant\<close>

definition sem_inv :: "kst \<Rightarrow> proc_abs \<Rightarrow> bool" where
  "sem_inv k a \<longleftrightarrow> kernel_rel k a \<and> (\<forall>x. waited k a x \<longrightarrow> mem k x = 0)"

lemma device_key_cong: "linked k' = linked k \<Longrightarrow> device_key k' x = device_key k x"
  by (simp add: device_key_def dev_key_def)

text \<open>What leaves memory alone and only takes processes off semaphores keeps it.\<close>

lemma sem_inv_frame:
  assumes "sem_inv k a" and "kernel_rel k' a'" and "mem k' = mem k" and "linked k' = linked k"
    and "\<And>x. a_sem a x = [] \<Longrightarrow> a_sem a' x = []"
  shows "sem_inv k' a'"
  using assms device_key_cong [OF assms(4)] unfolding sem_inv_def waited_def by metis

definition sem_step :: "kst \<Rightarrow> kst option \<Rightarrow> bool" where
  "sem_step k m \<longleftrightarrow> (\<exists>k' a'. m = Some k' \<and> sem_inv k' a' \<and> keeps k k')"

lemma sem_stepI: "m = Some k' \<Longrightarrow> sem_inv k' a' \<Longrightarrow> keeps k k' \<Longrightarrow> sem_step k m"
  by (auto simp: sem_step_def)

lemma sem_inv_rel: "sem_inv k a \<Longrightarrow> kernel_rel k a"
  by (simp add: sem_inv_def)

lemma sem_inv_areas: "sem_inv k a \<Longrightarrow> sem_inv (k\<lparr>areas := x\<rparr>) a"
  by (rule sem_inv_frame) (auto intro: kernel_rel_cong dest: sem_inv_rel)

lemma sem_returning:
  assumes "m = Some (r, k')" and "sem_inv k' a'" and "keeps k k'" and "old_state k \<noteq> 0"
  shows "sem_step k (returning m)"
proof -
  let ?k = "k'\<lparr>areas := (areas k')(old_state k' := set_SYSRETURN r (areas k' (old_state k')))\<rparr>"
  have "returning m = Some ?k" using assms by (simp add: returning_def load_area_def store_area_def keeps_def)
  then show ?thesis by (rule sem_stepI [OF _ sem_inv_areas [OF assms(2)]]) (use assms(3) in \<open>simp add: keeps_def\<close>)
qed

text \<open>Storing to words nobody waits on keeps it.\<close>

lemma sem_inv_store:
  assumes "sem_inv k a" and "kernel_rel k' a'" and "linked k' = linked k" "a_sem a' = a_sem a"
    and "\<And>x. waited k a x \<Longrightarrow> mem k' x = mem k x"
  shows "sem_inv k' a'"
  using assms device_key_cong [OF assms(3)] unfolding sem_inv_def waited_def by metis

section \<open>The calls\<close>

lemma sem_block:
  assumes s: "sem_inv k a" and c: "current_proc k = Ptr p" and o: "old \<noteq> 0" and x: "mem k x = 0 \<or> device_key k x"
  shows "sem_step k (scheduler_block_current x old k)"
proof -
  obtain k' where k': "scheduler_block_current x old k = Some k'" "kernel_only k k'"
      "kernel_rel k' (a\<lparr>a_sem := (a_sem a)(x := prio_insert (prio (st k)) p (a_sem a x))\<rparr>)"
    using block_spec [OF sem_inv_rel [OF s] c o, of x] by blast
  note f = kernel_only_fields [OF k'(2)]
  have "sem_inv k' (a\<lparr>a_sem := (a_sem a)(x := prio_insert (prio (st k)) p (a_sem a x))\<rparr>)"
    using k'(3) s x f(6) device_key_cong [OF f(2)] by (auto simp: sem_inv_def waited_def)
  then show ?thesis by (rule sem_stepI [OF k'(1) _ keeps_kernel_only [OF k'(2)]])
qed

lemma sem_passeren:
  assumes s: "sem_inv k a" and c: "current_proc k = Ptr p" and o: "old_state k \<noteq> 0" and x: "x \<noteq> 0"
  shows "sem_step k (passeren x k)"
proof (cases "mem k x = 0")
  case True
  then show ?thesis using sem_block [OF s c o] passeren_blocks [OF x] by simp
next
  case False
  let ?k = "k\<lparr>mem := (mem k)(x := mem k x - 1)\<rparr>"
  have "kernel_rel ?k a" by (rule kernel_rel_cong [OF sem_inv_rel [OF s]]) simp_all
  then have "sem_inv ?k a" by (rule sem_inv_store [OF s]) (use False s in \<open>auto simp: sem_inv_def\<close>)
  then show ?thesis by (rule sem_stepI [OF passeren_takes [OF x False]]) (simp add: keeps_def)
qed

lemma sem_verhogen:
  assumes s: "sem_inv k a" and x: "x \<noteq> 0"
  shows "sem_step k (verhogen x k)"
proof (cases "a_sem a x")
  case Nil
  let ?k = "k\<lparr>mem := (mem k)(x := mem k x + 1)\<rparr>"
  have "kernel_rel ?k a" by (rule kernel_rel_cong [OF sem_inv_rel [OF s]]) simp_all
  then have "sem_inv ?k a" by (rule sem_inv_store [OF s]) (use Nil in \<open>auto simp: waited_def\<close>)
  then show ?thesis by (rule sem_stepI [OF verhogen_counts [OF sem_inv_rel [OF s] Nil x]]) (simp add: keeps_def)
next
  case (Cons q qs)
  obtain s' where s': "verhogen x k = Some (k\<lparr>st := s'\<rparr>)"
      "kernel_rel (k\<lparr>st := s'\<rparr>) (a\<lparr>a_sem := (a_sem a)(x := qs), a_ready := prio_insert (prio s') q (a_ready a)\<rparr>)"
    using verhogen_wakes [OF sem_inv_rel [OF s] Cons] by blast
  have "sem_inv (k\<lparr>st := s'\<rparr>) (a\<lparr>a_sem := (a_sem a)(x := qs), a_ready := prio_insert (prio s') q (a_ready a)\<rparr>)"
    by (rule sem_inv_frame [OF s s'(2)]) (use Cons in \<open>auto split: if_splits\<close>)
  then show ?thesis by (rule sem_stepI [OF s'(1)]) (simp add: keeps_def)
qed

lemma sem_kill:
  assumes s: "sem_inv k a" and p: "p < MAXPROC" "p \<notin> set (a_free a)"
    and c: "current_proc k = Ptr p \<or> running (current_proc k) \<inter> subtree a p = {}"
  shows "\<exists>k' a'. scheduler_kill_process (Ptr p) k = Some k' \<and> sem_inv k' a' \<and> keeps k k'"
proof -
  obtain k' a' where k': "scheduler_kill_process (Ptr p) k = Some k'" "kernel_rel k' a'"
      "removed (subtree a p) (st k) a (running (current_proc k)) (st k') a' (running (current_proc k'))"
      "k' = k\<lparr>st := st k', current_proc := current_proc k'\<rparr>"
    using kill_process_spec [OF sem_inv_rel [OF s] p c] by blast
  note ko = kernel_onlyI [OF k'(4)]
  have "sem_inv k' a'"
    by (rule sem_inv_frame [OF s k'(2) kernel_only_fields(6,2) [OF ko]]) (use k'(3) in \<open>simp add: removed_def\<close>)
  then show ?thesis using k'(1) keeps_kernel_only [OF ko] by blast
qed

lemma sem_create:
  assumes s: "sem_inv k a" and c: "current_proc k = Ptr p" and o: "old_state k \<noteq> 0" and nz: "state \<noteq> 0"
    and w: "cpid \<noteq> 0 \<Longrightarrow> \<not> waited k a cpid"
  shows "sem_step k (returning (create_process state pri cpid k))"
proof (cases "a_free a")
  case Nil
  show ?thesis
    by (rule sem_returning [OF create_process_full [OF sem_inv_rel [OF s] Nil] s _ o]) (simp add: keeps_def)
next
  case (Cons q fs)
  let ?m = "if cpid \<noteq> 0 then (mem k)(cpid := addr_of_pcb k (Ptr q)) else mem k"
  obtain s' where s': "create_process state pri cpid k = Some (SYSCALL_SUCCESS, k\<lparr>st := s', mem := ?m\<rparr>)"
      "kernel_rel (k\<lparr>st := s'\<rparr>) (a\<lparr>a_free := fs, a_ready := prio_insert (prio s') q (a_ready a),
        a_kids := (a_kids a)(p := a_kids a p @ [q])\<rparr>)"
    using create_process_spec [OF sem_inv_rel [OF s] c Cons nz] by blast
  have "kernel_rel (k\<lparr>st := s', mem := ?m\<rparr>) (a\<lparr>a_free := fs, a_ready := prio_insert (prio s') q (a_ready a),
        a_kids := (a_kids a)(p := a_kids a p @ [q])\<rparr>)" by (rule kernel_rel_cong [OF s'(2)]) simp_all
  then have "sem_inv (k\<lparr>st := s', mem := ?m\<rparr>) (a\<lparr>a_free := fs, a_ready := prio_insert (prio s') q (a_ready a),
        a_kids := (a_kids a)(p := a_kids a p @ [q])\<rparr>)"
    by (rule sem_inv_store [OF s]) (use w in auto)
  from sem_returning [OF s'(1) this _ o] show ?thesis by (simp add: keeps_def)
qed

lemma sem_terminate:
  assumes s: "sem_inv k a" and c: "current_proc k = Ptr p" and o: "old_state k \<noteq> 0"
    and q: "case q of Null \<Rightarrow> True | Ptr i \<Rightarrow> i < MAXPROC \<and> (i \<in> set (a_free a) \<or> i = p \<or> p \<notin> subtree a i)"
  shows "sem_step k (returning (terminate_process q k))"
proof -
  note r = sem_inv_rel [OF s]
  have p: "p < MAXPROC" "p \<notin> set (a_free a)" using kernel_relD(3,4) [OF r c] by auto
  obtain i where i: "terminate_process q k = terminate_process (Ptr i) k" "i < MAXPROC"
      "i \<in> set (a_free a) \<or> i = p \<or> p \<notin> subtree a i"
    using q terminate_self [OF c] p(1) by (cases q) auto
  show ?thesis
  proof (cases "i \<in> set (a_free a)")
    case True
    show ?thesis unfolding i(1) by (rule sem_returning [OF terminate_free [OF r True] s _ o]) (simp add: keeps_def)
  next
    case False
    then obtain k' a' where k': "scheduler_kill_process (Ptr i) k = Some k'" "sem_inv k' a'" "keeps k k'"
      using sem_kill [OF s i(2)] i(3) c by auto
    then have "terminate_process (Ptr i) k = Some (SYSCALL_SUCCESS, k')" using terminate_alive [OF r False] by simp
    then show ?thesis unfolding i(1) by (rule sem_returning [OF _ k'(2,3) o])
  qed
qed

lemma sem_wait_io:
  assumes s: "sem_inv k a" and c: "current_proc k = Ptr p" and o: "old_state k \<noteq> 0"
    and d: "\<exists>line\<in>set dev_lines. \<exists>i\<in>set dev_nums. d = DEV_REG_ADDR (target k) line i" and sub: "sub = 0 \<or> sub = (1 :: u32)"
  shows "sem_step k (wait_io cmd d (ucast sub) k)"
proof -
  obtain line i where l: "line \<in> set dev_lines" "i \<in> set dev_nums" "d = DEV_REG_ADDR (target k) line i" using d by blast
  obtain f where f: "wait_io cmd d (ucast sub) k =
      scheduler_block_current (dev_key k line i (sub = 1)) (old_state k) (upd_dev d f k)"
    using wait_io_blocks [OF l sub] by blast
  let ?k = "upd_dev d f k" and ?key = "dev_key k line i (sub = 1)"
  have e: "mem ?k = mem k" "linked ?k = linked k" "current_proc ?k = Ptr p" "old_state ?k = old_state k" "target ?k = target k"
    using c by (simp_all add: upd_dev_def)
  have "device_key ?k ?key" using l e(2) by (auto simp: device_key_def dev_key_def)
  moreover have "sem_inv ?k a" by (rule sem_inv_frame [OF s kernel_rel_dev [OF sem_inv_rel [OF s]]]) (simp_all add: e)
  ultimately have "sem_step ?k (scheduler_block_current ?key (old_state k) ?k)" using sem_block e o by auto
  then show ?thesis using f e by (simp add: sem_step_def keeps_def)
qed

lemma sem_spec_pass_up:
  assumes s: "sem_inv k a" and c: "current_proc k = Ptr p" and o: "old_state k \<noteq> 0" and n: "unat ty < 3"
  shows "sem_step k (returning (spec_pass_up ty oa na k))"
proof (cases "exc_new_areas (pcbTable (st k) p) ! unat ty = 0")
  case True
  obtain s' where s': "spec_pass_up ty oa na k = Some (SYSCALL_SUCCESS, k\<lparr>st := s'\<rparr>)" "kernel_rel (k\<lparr>st := s'\<rparr>) a"
    using spec_pass_up_set [OF sem_inv_rel [OF s] c n True, of oa na] by blast
  have "sem_inv (k\<lparr>st := s'\<rparr>) a" by (rule sem_inv_frame [OF s s'(2)]) simp_all
  from sem_returning [OF s'(1) this _ o] show ?thesis by (simp add: keeps_def)
next
  case False
  note r = sem_inv_rel [OF s]
  have p: "p < MAXPROC" "p \<notin> set (a_free a)" using kernel_relD(3,4) [OF r c] by auto
  obtain k' a' where k': "scheduler_kill_process (Ptr p) k = Some k'" "sem_inv k' a'" "keeps k k'"
    using sem_kill [OF s p] c by auto
  then have "spec_pass_up ty oa na k = Some (SYSCALL_FAILURE, k')" using spec_pass_up_again [OF r c n False] by simp
  then show ?thesis by (rule sem_returning [OF _ k'(2,3) o])
qed

lemma sem_get_cpu_time:
  assumes s: "sem_inv k a" and c: "current_proc k = Ptr p" and nz: "x \<noteq> 0" "y \<noteq> 0" "z \<noteq> 0"
    and w: "\<not> waited k a x" "\<not> waited k a y" "\<not> waited k a z"
  shows "sem_step k (get_cpu_time x y z k)"
  unfolding get_cpu_time_spec [OF sem_inv_rel [OF s] c nz]
  by (rule sem_stepI [OF refl], rule sem_inv_store [OF s kernel_rel_charge [OF sem_inv_rel [OF s]]])
    (use w in \<open>auto simp: keeps_def\<close>)

lemma sem_get_pid:
  assumes s: "sem_inv k a" and c: "current_proc k = Ptr p"
    and w: "x \<noteq> 0 \<Longrightarrow> \<not> waited k a x" "y \<noteq> 0 \<Longrightarrow> \<not> waited k a y"
  shows "sem_step k (get_pid x y k)"
  unfolding get_pid_spec [OF c kernel_relD(3) [OF sem_inv_rel [OF s] c]]
  by (rule sem_stepI [OF refl], rule sem_inv_store [OF s kernel_rel_cong [OF sem_inv_rel [OF s]]])
    (use w in \<open>auto simp: keeps_def Let_def\<close>)

section \<open>The handlers\<close>

lemma sem_dispatch:
  assumes s: "sem_inv k a" and old: "current_proc k \<noteq> Null \<Longrightarrow> old \<noteq> 0"
  shows "\<exists>v k' a'. scheduler_resume x old k = Some (v, k') \<and> sem_inv k' a' \<and> linked k' = linked k"
proof -
  obtain v k' rq where k': "scheduler_resume x old k = Some (v, k')" "kernel_rel k' (a\<lparr>a_ready := rq\<rparr>)" "kernel_only k k'"
    using resume_rel [OF sem_inv_rel [OF s] old, of x] by blast
  note f = kernel_only_fields [OF k'(3)]
  have "sem_inv k' (a\<lparr>a_ready := rq\<rparr>)" by (rule sem_inv_frame [OF s k'(2) f(6) f(2)]) simp
  then show ?thesis using k'(1) f(2) by blast
qed

lemma sem_exception:
  assumes s: "sem_inv k a" and c: "current_proc k = Ptr p" and old: "old \<noteq> 0" and ty: "type < 3"
    and oa: "exc_new_areas (pcbTable (st k) p) ! type \<noteq> 0 \<Longrightarrow> exc_old_areas (pcbTable (st k) p) ! type \<noteq> 0"
  shows "\<exists>v k' a'. scheduler_handle_exception type old k = Some (v, k') \<and> sem_inv k' a' \<and> linked k' = linked k"
proof (cases "exc_new_areas (pcbTable (st k) p) ! type = 0")
  case True
  obtain k1 k2 a' where k2: "scheduler_handle_exception type old k = scheduler_dispatch k2" "kernel_rel k2 a'" "timed k k1"
      "current_proc k2 = Null" "kernel_only k k2" "removed (subtree a p) (st k1) a {p} (st k2) a' {}"
    using handle_exception_kill [OF sem_inv_rel [OF s] c ty True, of old] by blast
  note f = kernel_only_fields [OF k2(5)]
  have "sem_inv k2 a'" by (rule sem_inv_frame [OF s k2(2) f(6) f(2)]) (use k2(6) in \<open>simp add: removed_def\<close>)
  from sem_dispatch [OF this, of 0 False] show ?thesis using k2(1,4) resume_idle [OF k2(4)] f(2) by auto
next
  case False
  obtain v k' ar where k': "scheduler_handle_exception type old k = Some (v, k')" "kernel_rel k' a" "timed (k\<lparr>areas := ar\<rparr>) k'"
    using handle_exception_pass [OF sem_inv_rel [OF s] c old ty False oa [OF False]] by blast
  have "sem_inv k' a" by (rule sem_inv_frame [OF s k'(2)]) (use timed_fields [OF k'(3)] in simp_all)
  then show ?thesis using k'(1) timed_fields(2) [OF k'(3)] by auto
qed

lemma sem_switch:
  assumes s: "sem_inv k a" and c: "current_proc k = Ptr p" and o: "old_state k \<noteq> 0" and q: "request_ok k a p v"
    and w: "\<forall>x\<in>result_words v. \<not> waited k a x"
  shows "\<exists>k' a'. (syscall_switch v k = Some (Inl k') \<and> keeps k k' \<or> (\<exists>u. syscall_switch v k = Some (Inr (u, k')))) \<and>
    sem_inv k' a' \<and> linked k' = linked k"
proof -
  define n where "n = SYSARG0 v"
  note S = syscall_switch_def Let_def n_def [symmetric] and Q = q [unfolded request_ok_def Let_def n_def [symmetric]]
    and W = w [unfolded result_words_def Let_def n_def [symmetric]]
  have known: ?thesis if "syscall_switch v k = map_option Inl m" "sem_step k m" for m
    using that by (auto simp: sem_step_def keeps_def)
  consider "n = GETCPUTIME" | "n = CREATEPROCESS" | "n = TERMINATEPROCESS" | "n = VERHOGEN" | "n = PASSEREN"
    | "n = WAITIO" | "n = SPECPASSUP" | "n = GETPID"
    | "n \<notin> {GETCPUTIME, CREATEPROCESS, TERMINATEPROCESS, VERHOGEN, PASSEREN, WAITIO, SPECPASSUP, GETPID}" by blast
  then show ?thesis
  proof cases
    case 1
    then show ?thesis using known sem_get_cpu_time [OF s c] Q W by (simp add: S)
  next
    case 2
    then show ?thesis using known sem_create [OF s c o] Q W by (simp add: S syscall_nos)
  next
    case 3
    then show ?thesis using known sem_terminate [OF s c o, of "pcb_at_addr k (SYSARG1 v)"] Q by (simp add: S syscall_nos)
  next
    case 4
    then show ?thesis using known sem_verhogen [OF s] Q by (simp add: S syscall_nos)
  next
    case 5
    then show ?thesis using known sem_passeren [OF s c o] Q by (simp add: S syscall_nos)
  next
    case 6
    then show ?thesis using known sem_wait_io [OF s c o] Q by (simp add: S syscall_nos)
  next
    case 7
    then show ?thesis using known sem_spec_pass_up [OF s c o] Q by (simp add: S syscall_nos)
  next
    case 8
    then show ?thesis using known sem_get_pid [OF s c] W by (simp add: S syscall_nos)
  next
    case 9
    then obtain u k' a' where "scheduler_handle_exception SPECPASSUP_SYSBK_TYPE (SYSBK_OLDAREA (target k)) k = Some (u, k')"
        "sem_inv k' a'" "linked k' = linked k"
      using sem_exception [OF s c area_nonzero(2), of SPECPASSUP_SYSBK_TYPE "target k"] Q
      by (auto simp: SPECPASSUP_SYSBK_TYPE_def)
    then show ?thesis using 9 by (auto simp: S)
  qed
qed

lemma result_words_after_call [simp]: "result_words (after_call ar v) = result_words v"
  unfolding result_words_def after_call_args by (rule refl)

lemma sem_syscall_handler:
  assumes s: "sem_inv k a" and c: "current_proc k = Ptr p"
  defines "v \<equiv> areas k (SYSBK_OLDAREA (target k))"
  assumes q: "request_ok k a p v" and w: "\<forall>x\<in>result_words v. \<not> waited k a x"
  shows "\<exists>u k' a'. syscall_handler k = Some (u, k') \<and> sem_inv k' a' \<and> linked k' = linked k"
proof -
  obtain k1 where k1: "kernel_rel k1 a" "if CAUSE_EXC v = CAUSE_SYSCALL (target k) then entered k (after_call (target k) v) k1 \<and>
       syscall_handler k = do {
         r \<leftarrow> syscall_switch (after_call (target k) v) k1;
         (case r of
            Inl k \<Rightarrow> scheduler_resume False (old_state k) k
          | Inr out \<Rightarrow> Some out) }
     else entered k v k1 \<and> syscall_handler k = scheduler_resume False (old_state k1) k1"
    using syscall_handler_entry [OF sem_inv_rel [OF s]] unfolding v_def by blast
  have "\<exists>x. entered k x k1" using k1(2) by (auto split: if_splits)
  then have e: "current_proc k1 = Ptr p" "old_state k1 \<noteq> 0" "target k1 = target k" "linked k1 = linked k" "mem k1 = mem k"
      "exc_new_areas (pcbTable (st k1) p) = exc_new_areas (pcbTable (st k) p)"
      "exc_old_areas (pcbTable (st k1) p) = exc_old_areas (pcbTable (st k) p)"
    using area_nonzero(2) c by (auto simp: entered_def)
  have s1: "sem_inv k1 a" by (rule sem_inv_frame [OF s k1(1) e(5,4)])
  show ?thesis
  proof (cases "CAUSE_EXC v = CAUSE_SYSCALL (target k)")
    case False
    then show ?thesis using k1(2) sem_dispatch [OF s1, of "old_state k1" False] e(2,4) by auto
  next
    case True
    have q1: "request_ok k1 a p (after_call (target k) v)" using q request_ok_cong [OF e(3,4,6,7), of _ v a] by simp
    have "waited k1 a x = waited k a x" for x using device_key_cong [OF e(4)] by (simp add: waited_def)
    then have "\<forall>x\<in>result_words (after_call (target k) v). \<not> waited k1 a x" using w by simp
    from sem_switch [OF s1 e(1,2) q1 this] obtain k2 a2 where
      "syscall_switch (after_call (target k) v) k1 = Some (Inl k2) \<and> keeps k1 k2 \<or>
         (\<exists>u. syscall_switch (after_call (target k) v) k1 = Some (Inr (u, k2)))"
      "sem_inv k2 a2" "linked k2 = linked k1" by blast
    then show ?thesis using k1(2) True sem_dispatch [of k2 a2 "old_state k2" False] e(2,4) by (auto simp: keeps_def)
  qed
qed

lemma sem_interrupts_handler:
  assumes s: "sem_inv k a" and e: "expected k a"
  shows "\<exists>v k' a'. interrupts_handler k = Some (v, k') \<and> sem_inv k' a' \<and> linked k' = linked k"
proof -
  note r = sem_inv_rel [OF s]
  obtain k0 k1 a1 x ds where k1: "timed k k0" "woke (int_wakes k) ds (int_entry k k0) a k1 a1"
      "interrupts_handler k = scheduler_resume x (INT_OLDAREA (target k)) k1"
    using interrupts_handler_woke [OF r e] by blast
  have f: "mem k1 = mem k" "linked k1 = linked k"
    using woke_fields(1) [OF k1(2)] timed_fields(2,7) [OF k1(1)]
    by (simp_all add: devices_only_def int_entry_def Let_def setTIMER_def)
  have "sem_inv k1 a1"
    by (rule sem_inv_frame [OF s woke_fields(2) [OF k1(2)] f]) (use k1(2) in \<open>simp add: woke_def\<close>)
  from sem_dispatch [OF this, of "INT_OLDAREA (target k)" x] show ?thesis using k1(3) area_nonzero(1) f(2) by auto
qed

lemma sem_handler:
  assumes s: "sem_inv k a" and e: "admissible e k a"
    and w: "e = SysBk \<Longrightarrow> \<forall>x\<in>result_words (areas k (SYSBK_OLDAREA (target k))). \<not> waited k a x"
  shows "\<exists>v k' a'. handler e k = Some (v, k') \<and> sem_inv k' a'"
proof (cases e)
  case SysBk
  then obtain p where "current_proc k = Ptr p" using e by (cases "current_proc k") auto
  then show ?thesis using sem_syscall_handler [OF s] e w SysBk by auto
next
  case Interrupt
  then show ?thesis using sem_interrupts_handler [OF s] e by auto
next
  case PgmTrap
  then obtain p where "current_proc k = Ptr p" using e by (cases "current_proc k") (auto simp: passes_up_def)
  then show ?thesis using sem_exception [OF s _ area_nonzero(3), of p SPECPASSUP_TRAP_TYPE "target k"] e PgmTrap
    by (auto simp: passes_up_def trap_exception_handler_def SPECPASSUP_TRAP_TYPE_def)
next
  case Tlb
  then obtain p where "current_proc k = Ptr p" using e by (cases "current_proc k") (auto simp: passes_up_def)
  then show ?thesis using sem_exception [OF s _ area_nonzero(4), of p SPECPASSUP_TLB_TYPE "target k"] e Tlb
    by (auto simp: passes_up_def tlb_exception_handler_def SPECPASSUP_TLB_TYPE_def)
qed

lemma sreach_inv: "sreach k \<Longrightarrow> \<exists>a. sem_inv k a"
proof (induction rule: sreach.induct)
  case (boot k v k')
  then have "kernel_rel k' running_abs" using main_spec [OF boot(1)] by auto
  then have "sem_inv k' running_abs" by (simp add: sem_inv_def waited_def running_abs_def)
  then show ?case by blast
next
  case (step k k1 e v k')
  then obtain a where a: "sem_inv k a" by blast
  have r: "kernel_rel k1 a" by (rule user_run_kernel_rel [OF step(2) sem_inv_rel [OF a]])
  have l: "linked k1 = linked k" using step(2) by (simp add: user_run_def)
  have d: "admissible e k1 a" "disciplined e k k1 a" using step(3) [OF r] by simp_all
  have "sem_inv k1 a"
    by (rule sem_inv_store [OF a r l refl]) (use d(2) device_key_cong [OF l] in \<open>simp add: disciplined_def waited_def\<close>)
  then show ?case using sem_handler [OF _ d(1)] d(2) step(4) by (auto simp: disciplined_def)
qed

text \<open>
  C7. In every state the kernel reaches in a run (\<open>sreach\<close>) in which the programs leave the word of a
  semaphore somebody waits on alone and ask for no result to be stored there, a process waits on a
  semaphore of the programs (none of a device) only while its value is zero. So on one whose word is not
  zero the code finds no queue, \<open>PASSEREN\<close> takes a unit and blocks nobody, and \<open>VERHOGEN\<close> adds one and
  wakes nobody.
\<close>

theorem semaphore_values:
  assumes "sreach k"
  shows "kreach k \<and> (\<exists>a. kernel_rel k a \<and> (\<forall>x. a_sem a x \<noteq> [] \<longrightarrow> \<not> device_key k x \<longrightarrow> mem k x = 0)) \<and>
    (\<forall>x. x \<noteq> 0 \<longrightarrow> \<not> device_key k x \<longrightarrow> mem k x \<noteq> 0 \<longrightarrow>
       asl_semd x (st k) = Some Null \<and>
       passeren x k = Some (k\<lparr>mem := (mem k)(x := mem k x - 1)\<rparr>) \<and>
       verhogen x k = Some (k\<lparr>mem := (mem k)(x := mem k x + 1)\<rparr>))"
proof -
  obtain a where a: "kernel_rel k a" "\<forall>x. waited k a x \<longrightarrow> mem k x = 0"
    using sreach_inv [OF assms] by (auto simp: sem_inv_def)
  have "asl_semd x (st k) = Some Null \<and> passeren x k = Some (k\<lparr>mem := (mem k)(x := mem k x - 1)\<rparr>) \<and>
      verhogen x k = Some (k\<lparr>mem := (mem k)(x := mem k x + 1)\<rparr>)" if "x \<noteq> 0" "\<not> device_key k x" "mem k x \<noteq> 0" for x
  proof -
    have "a_sem a x = []" using a(2) that(2,3) by (auto simp: waited_def)
    then show ?thesis using verhogen_counts [OF a(1) _ that(1)] passeren_takes [OF that(1,3)]
        asl_remove_blocked_none(2) [OF store_relD(3) [OF kernel_relD(1) [OF a(1)]]] by simp
  qed
  then show ?thesis using sreach_kreach [OF assms] a by (auto simp: waited_def)
qed

text \<open>
  After booting on a memory whose words are 3 but for the one at \<open>0x204\<close>, which is 0, the first process
  asks for a unit of that one, and waits.
\<close>

definition demo_mem :: "u32 \<Rightarrow> u32" where
  "demo_mem = (\<lambda>x. if x = 0x204 then 0 else 3)"

definition demo_ask :: state_t where
  "demo_ask = (let u = (case bss_state UARM of UarmState u \<Rightarrow> u)
     in UarmState (u\<lparr>ua_a1 := PASSEREN, ua_a2 := 0x204, ua_CP15_Cause := EXC_SYSCALL\<rparr>))"

lemma demo_ask:
  "CAUSE_EXC demo_ask = CAUSE_SYSCALL UARM" "SYSARG0 demo_ask = PASSEREN" "SYSARG1 demo_ask = 0x204"
  "after_call UARM demo_ask = demo_ask" "result_words demo_ask = {}"
  by (simp_all add: demo_ask_def CAUSE_SYSCALL_def CAUSE_EXCCODE_GET_def EXC_SYSCALL_def after_call_def result_words_def syscall_nos)

lemma demo_booted:
  "\<exists>k. sreach k \<and> kernel_rel k running_abs \<and> current_proc k = Ptr 19 \<and> target k = UARM \<and> linked k = linked (demo_kst UARM) \<and>
     mem k = demo_mem"
proof -
  let ?k = "(demo_kst UARM)\<lparr>mem := demo_mem\<rparr>"
  have b: "boots ?k" by (simp add: boots_def demo_kst_def)
  obtain v k' where "main ?k = Some (v, k')" "kernel_rel k' running_abs" "current_proc k' = Ptr 19" "target k' = UARM"
      "linked k' = linked (demo_kst UARM)" "mem k' = demo_mem"
    using main_spec [OF b] demo_boots(2) [of UARM] by (auto simp: MAXPROC_def)
  then show ?thesis using sreach.boot [OF b] by blast
qed

lemma demo_waits:
  assumes r: "kernel_rel k running_abs" and c: "current_proc k = Ptr 19" and t: "target k = UARM" and m: "mem k 0x204 = 0"
    and v: "areas k (SYSBK_OLDAREA UARM) = demo_ask"
  shows "\<exists>u k' a'. syscall_handler k = Some (u, k') \<and> kernel_rel k' a' \<and> a_sem a' = (\<lambda>_. [])(0x204 := [19]) \<and>
    mem k' = mem k \<and> linked k' = linked k"
proof -
  obtain k1 where k1: "kernel_rel k1 running_abs" "entered k demo_ask k1" "syscall_handler k = do {
         r \<leftarrow> syscall_switch demo_ask k1;
         (case r of
            Inl k \<Rightarrow> scheduler_resume False (old_state k) k
          | Inr out \<Rightarrow> Some out) }"
    using syscall_handler_entry [OF r] t v demo_ask(1,4) by auto
  note e = k1(2) [unfolded entered_def]
  have c1: "current_proc k1 = Ptr 19" "old_state k1 \<noteq> 0" "mem k1 0x204 = 0" using e c m area_nonzero(2) by auto
  obtain k2 where k2: "scheduler_block_current 0x204 (old_state k1) k1 = Some k2" "current_proc k2 = Null"
      "kernel_rel k2 (running_abs\<lparr>a_sem := (\<lambda>_. [])(0x204 := [19])\<rparr>)" "kernel_only k1 k2"
    using block_spec [OF k1(1) c1(1,2), of "0x204"] by (auto simp: running_abs_def prio_insert_def)
  have "syscall_switch demo_ask k1 = Some (Inl k2)"
    using passeren_blocks [of "0x204" k1] c1(3) k2(1) by (simp add: syscall_switch_def demo_ask(2,3) syscall_nos Let_def)
  moreover obtain u k' rq where "scheduler_resume False (old_state k2) k2 = Some (u, k')"
      "kernel_rel k' (running_abs\<lparr>a_sem := (\<lambda>_. [])(0x204 := [19]), a_ready := rq\<rparr>)" "kernel_only k2 k'"
    using resume_rel [OF k2(3), of "old_state k2" False] k2(2) by auto
  ultimately show ?thesis using k1(3) e kernel_only_fields [OF k2(4)] kernel_only_fields [of k2 k'] by auto
qed

lemma demo_not_device: "linked k = linked (demo_kst UARM) \<Longrightarrow> \<not> device_key k 0x200"
proof -
  assume "linked k = linked (demo_kst UARM)"
  then have "0x200 \<noteq> dev_key k line i r" if "line \<in> set dev_lines" "i \<in> set dev_nums" for line i r
    using dev_row_range [OF that(1), of r] that(2) by (auto simp: dev_key_def dev_nums_def demo_kst_def il_defs)
  then show ?thesis by (auto simp: device_key_def)
qed

theorem semaphore_values_witness:
  "\<exists>k. sreach k \<and> asl_blocked_head 0x204 (st k) = Some (Ptr 19) \<and> mem k 0x204 = 0 \<and> mem k 0x200 = 3 \<and>
     asl_semd 0x200 (st k) = Some Null \<and> passeren 0x200 k = Some (k\<lparr>mem := (mem k)(0x200 := 2)\<rparr>)"
proof -
  obtain k0 where k0: "sreach k0" "kernel_rel k0 running_abs" "current_proc k0 = Ptr 19" "target k0 = UARM"
      "linked k0 = linked (demo_kst UARM)" "mem k0 = demo_mem" using demo_booted by blast
  let ?k = "k0\<lparr>areas := (\<lambda>_. demo_ask)\<rparr>"
  have u: "user_run k0 ?k" by (simp add: user_run_def)
  have r: "kernel_rel ?k running_abs" by (rule user_run_kernel_rel [OF u k0(2)])
  have d: "admissible SysBk ?k a \<and> disciplined SysBk k0 ?k a" for a
    using k0(3,4) demo_ask by (simp add: disciplined_def request_ok_def syscall_nos)
  obtain v k' a' where k': "syscall_handler ?k = Some (v, k')" "kernel_rel k' a'" "a_sem a' = (\<lambda>_. [])(0x204 := [19])"
      "mem k' = demo_mem" "linked k' = linked (demo_kst UARM)"
    using demo_waits [OF r] k0(3-6) by (auto simp: demo_mem_def)
  have s: "sreach k'" by (rule sreach.step [OF k0(1) u d, of v]) (simp add: k'(1))
  have "asl_blocked_head 0x204 (st k') = Some (Ptr 19)"
    using asl_blocked_head_spec [OF store_relD(3) [OF kernel_relD(1) [OF k'(2)]], of "0x204"] k'(3) by simp
  moreover have "mem k' 0x204 = 0" "mem k' 0x200 = 3" using k'(4) by (simp_all add: demo_mem_def)
  ultimately show ?thesis using semaphore_values [OF s] demo_not_device [OF k'(5)] s by (intro exI [of _ k']) auto
qed

end
