(* ===== verification/Memory.thy ===== *)
theory Memory
  imports Prelude
begin

text \<open>
  \<open>src/memory.c\<close>: \<open>memset\<close> and \<open>memcpy\<close> on a memory of bytes by address. The loops keep the
  32-bit counter and the wrapping pointers of the code; an access through \<open>NULL\<close> is \<open>None\<close>. The
  theorems say which bytes change and to what, overlapping regions included. In the other theories
  the two functions appear by their effect on whole structures, which is what they compute there.
\<close>

type_synonym bmem = "u32 \<Rightarrow> u8"

definition load_byte :: "u32 \<Rightarrow> bmem \<Rightarrow> u8 option" where
  "load_byte p m = (if p = 0 then None else Some (m p))"

definition store_byte :: "u32 \<Rightarrow> u8 \<Rightarrow> bmem \<Rightarrow> bmem option" where
  "store_byte p v m = (if p = 0 then None else Some (m(p := v)))"

section \<open>The code\<close>

text \<open>The test of \<open>while (n--)\<close> decrements the counter whenever it holds.\<close>

function memset_loop :: "u32 \<Rightarrow> u8 \<Rightarrow> u32 \<Rightarrow> bmem \<Rightarrow> bmem option" where
  "memset_loop p c n m =
     (if n = 0 then Some m
      else do { m \<leftarrow> store_byte p c m; memset_loop (p + 1) c (n - 1) m })"
  by pat_completeness auto
termination
  by (relation "measure (\<lambda>(p, c, n, m). unat n)") (auto simp: unat_minus_one word_neq_0_conv unat_gt_0)

definition memset :: "u32 \<Rightarrow> s32 \<Rightarrow> u32 \<Rightarrow> bmem \<Rightarrow> (u32 \<times> bmem) option" where
  "memset s c n m = do { m \<leftarrow> memset_loop s (ucast c) n m; Some (s, m) }"

function memcpy_loop :: "u32 \<Rightarrow> u32 \<Rightarrow> u32 \<Rightarrow> bmem \<Rightarrow> bmem option" where
  "memcpy_loop d s len m =
     (if len = 0 then Some m
      else do {
        v \<leftarrow> load_byte s m;
        m \<leftarrow> store_byte d v m;
        memcpy_loop (d + 1) (s + 1) (len - 1) m })"
  by pat_completeness auto
termination
  by (relation "measure (\<lambda>(d, s, len, m). unat len)") (auto simp: unat_minus_one word_neq_0_conv unat_gt_0)

definition memcpy :: "u32 \<Rightarrow> u32 \<Rightarrow> u32 \<Rightarrow> bmem \<Rightarrow> (u32 \<times> bmem) option" where
  "memcpy dest src len m = do { m \<leftarrow> memcpy_loop dest src len m; Some (dest, m) }"

declare memset_loop.simps [simp del] memcpy_loop.simps [simp del]

lemma memset_loop_0 [simp]: "memset_loop p c 0 m = Some m"
  by (simp add: memset_loop.simps)

lemma memcpy_loop_0 [simp]: "memcpy_loop d s 0 m = Some m"
  by (simp add: memcpy_loop.simps)

section \<open>Regions\<close>

text \<open>A region of \<open>n\<close> bytes at \<open>p\<close> that neither starts at \<open>NULL\<close> nor wraps around.\<close>

definition region_ok :: "u32 \<Rightarrow> u32 \<Rightarrow> bool" where
  "region_ok p n \<longleftrightarrow> 0 < unat p \<and> unat p + unat n \<le> 2 ^ 32"

definition in_region :: "u32 \<Rightarrow> u32 \<Rightarrow> u32 \<Rightarrow> bool" where
  "in_region a p n \<longleftrightarrow> unat p \<le> unat a \<and> unat a < unat p + unat n"

lemma unat_Suc: "unat p + 1 < 2 ^ 32 \<Longrightarrow> unat (p + 1 :: u32) = unat p + 1"
  by (simp add: unat_add_lem [THEN iffD1])

lemma unat_pred: "n \<noteq> 0 \<Longrightarrow> unat (n - 1 :: u32) = unat n - 1"
  by (simp add: unat_minus_one)

lemma unat_pos: "n \<noteq> (0 :: u32) \<Longrightarrow> 0 < unat n"
  by (simp add: unat_gt_0)

text \<open>After one byte the rest of the region is one, unless nothing is left.\<close>

lemma region_step:
  assumes "region_ok p n" and "n \<noteq> 0" "n \<noteq> 1"
  shows "region_ok (p + 1) (n - 1)" "unat (p + 1) = unat p + 1" "unat (n - 1) = unat n - 1"
proof -
  have "unat n \<noteq> unat (0 :: u32)" "unat n \<noteq> unat (1 :: u32)"
    using assms(2,3) unfolding word_unat_eq_iff [symmetric] by blast+
  then have n: "1 < unat n" by simp
  then show p: "unat (p + 1) = unat p + 1" using assms(1) by (intro unat_Suc) (simp add: region_ok_def)
  show m: "unat (n - 1) = unat n - 1" by (rule unat_pred [OF assms(2)])
  show "region_ok (p + 1) (n - 1)" using assms(1) n p m by (simp add: region_ok_def)
qed

lemma region_nonzero: "region_ok p n \<Longrightarrow> p \<noteq> 0"
  by (auto simp: region_ok_def)

lemma in_region_split:
  assumes "region_ok p n" and "n \<noteq> 0" "n \<noteq> 1"
  shows "in_region a p n \<longleftrightarrow> a = p \<or> in_region a (p + 1) (n - 1)"
proof -
  have "0 < unat n" by (rule unat_pos [OF assms(2)])
  then show ?thesis using region_step(2,3) [OF assms] word_unat_eq_iff [of a p] by (auto simp: in_region_def)
qed

lemma in_region_one: "in_region a p 1 \<longleftrightarrow> a = p"
  using word_unat_eq_iff [of a p] by (auto simp: in_region_def)

lemma memset_loop_spec:
  "region_ok p n \<Longrightarrow> memset_loop p c n m = Some (\<lambda>a. if in_region a p n then c else m a)"
proof (induction p c n m rule: memset_loop.induct)
  case (1 p c n m)
  consider "n = 0" | "n = 1" | "n \<noteq> 0" "n \<noteq> 1" by blast
  then show ?case
  proof cases
    case 1
    then show ?thesis by (auto simp: memset_loop.simps in_region_def fun_eq_iff)
  next
    case 2
    then show ?thesis using region_nonzero [OF "1.prems"]
      by (auto simp: memset_loop.simps [of p c 1] store_byte_def in_region_one fun_eq_iff)
  next
    case 3
    have st: "store_byte p c m = Some (m(p := c))" using region_nonzero [OF "1.prems"] by (simp add: store_byte_def)
    show ?thesis
      using "1.IH" [OF 3(1) st region_step(1) [OF "1.prems" 3]] 3 st
      by (auto simp: memset_loop.simps [of p c n] in_region_split [OF "1.prems" 3] fun_upd_def fun_eq_iff)
  qed
qed

text \<open>
  Copying forward is right unless the destination starts inside the source, past its first byte; one
  byte past, the first byte is repeated.
\<close>

definition forward_ok :: "u32 \<Rightarrow> u32 \<Rightarrow> u32 \<Rightarrow> bool" where
  "forward_ok d s n \<longleftrightarrow> \<not> (unat s < unat d \<and> unat d < unat s + unat n)"

lemma copy_source:
  assumes "region_ok d n" "region_ok s n" and "n \<noteq> 0" "n \<noteq> 1" and "forward_ok d s n" and "in_region a (d + 1) (n - 1)"
  shows "s + (a - d) \<noteq> d"
proof
  assume e: "s + (a - d) = d"
  note st = region_step(2,3) [OF assms(1,3,4)]
  have a: "unat d + 1 \<le> unat a" "unat a < unat d + unat n" using assms(6) st unat_pos [OF assms(3)] by (simp_all add: in_region_def)
  then have "d \<le> a" by (simp add: word_le_nat_alt)
  then have ad: "unat (a - d) = unat a - unat d" by (simp add: unat_sub)
  have "unat s + (unat a - unat d) < 2 ^ 32" using assms(2) [unfolded region_ok_def] a by arith
  then have "unat (s + (a - d)) = unat s + (unat a - unat d)"
    using unat_add_lem [of s "a - d"] by (simp add: ad)
  then have "unat d = unat s + (unat a - unat d)" using e by simp
  then show False using a assms(5) [unfolded forward_ok_def] by arith
qed

lemma memcpy_loop_spec:
  "region_ok d n \<Longrightarrow> region_ok s n \<Longrightarrow> forward_ok d s n \<Longrightarrow>
   memcpy_loop d s n m = Some (\<lambda>a. if in_region a d n then m (s + (a - d)) else m a)"
proof (induction d s n m rule: memcpy_loop.induct)
  case (1 d s n m)
  note p = "1.prems"
  have nz: "load_byte s m = Some (m s)" "store_byte d (m s) m = Some (m(d := m s))"
    using region_nonzero [OF p(1)] region_nonzero [OF p(2)] by (simp_all add: load_byte_def store_byte_def)
  consider "n = 0" | "n = 1" | "n \<noteq> 0" "n \<noteq> 1" by blast
  then show ?case
  proof cases
    case 1
    then show ?thesis by (auto simp: memcpy_loop.simps in_region_def fun_eq_iff)
  next
    case 2
    then show ?thesis using nz
      by (auto simp: memcpy_loop.simps [of d s 1] in_region_one fun_eq_iff)
  next
    case 3
    have f: "forward_ok (d + 1) (s + 1) (n - 1)"
      using p(3) region_step(2,3) [OF p(1) 3] region_step(2) [OF p(2) 3] by (auto simp: forward_ok_def)
    have e: "s + 1 + (a - (d + 1)) = s + (a - d)" for a by simp
    have "(if in_region a (d + 1) (n - 1) then (m(d := m s)) (s + (a - d)) else (m(d := m s)) a) =
        (if in_region a d n then m (s + (a - d)) else m a)" for a
      using fun_upd_other [OF copy_source [OF p(1,2) 3 p(3)], of a m "m s"]
      by (auto simp: in_region_split [OF p(1) 3])
    then show ?thesis
      using "1.IH" [OF 3(1) nz region_step(1) [OF p(1) 3] region_step(1) [OF p(2) 3] f] 3(1) nz
      unfolding e memcpy_loop.simps [of d s n] by (simp add: fun_upd_def)
  qed
qed

lemma memcpy_smear:
  "region_ok (s + 1) n \<Longrightarrow> s \<noteq> 0 \<Longrightarrow> memcpy_loop (s + 1) s n m = Some (\<lambda>a. if in_region a (s + 1) n then m s else m a)"
proof (induction "s + 1" s n m rule: memcpy_loop.induct)
  case (1 s n m)
  note p = "1.prems"
  have nz: "load_byte s m = Some (m s)" "store_byte (s + 1) (m s) m = Some (m(s + 1 := m s))"
    using region_nonzero [OF p(1)] p(2) by (simp_all add: load_byte_def store_byte_def)
  consider "n = 0" | "n = 1" | "n \<noteq> 0" "n \<noteq> 1" by blast
  then show ?case
  proof cases
    case 1
    then show ?thesis by (auto simp: memcpy_loop.simps in_region_def fun_eq_iff)
  next
    case 2
    then show ?thesis using nz
      by (auto simp: memcpy_loop.simps [of "s + 1" s 1] in_region_one fun_eq_iff)
  next
    case 3
    show ?thesis
      using "1.hyps" [OF 3(1) nz region_step(1) [OF p(1) 3] region_nonzero [OF p(1)]] 3 nz
      by (auto simp: memcpy_loop.simps [of "s + 1" s n] in_region_split [OF p(1) 3] fun_upd_def fun_eq_iff)
  qed
qed

section \<open>Properties\<close>

text \<open>
  C27. On regions of memory that do not wrap around, \<open>memset\<close> sets exactly the \<open>n\<close> bytes of its region
  to the low byte of \<open>c\<close>, \<open>memcpy\<close> makes the bytes of the destination those the source had, overlapping
  regions included unless the destination starts inside the source, where a copy one byte up repeats
  the first byte; both return their first argument and change no other byte.
\<close>

theorem memory_functions:
  assumes "region_ok d n" and "region_ok s n"
  shows "memset d c n m = Some (d, \<lambda>a. if in_region a d n then ucast c else m a) \<and>
    (forward_ok d s n \<longrightarrow> memcpy d s n m = Some (d, \<lambda>a. if in_region a d n then m (s + (a - d)) else m a)) \<and>
    (d = s + 1 \<longrightarrow> memcpy d s n m = Some (d, \<lambda>a. if in_region a d n then m s else m a))"
  using memset_loop_spec [OF assms(1)] memcpy_loop_spec [OF assms] memcpy_smear [of s n m] assms(1) region_nonzero [OF assms(2)]
  by (auto simp: memset_def memcpy_def)

theorem memory_functions_witness:
  "\<exists>m. memcpy 0x2000 0x1000 4 (\<lambda>a. ucast a) = Some (0x2000, m) \<and> m 0x2003 = 3 \<and> m 0x2004 = 4"
  using memory_functions [of "0x2000" 4 "0x1000" 0 "\<lambda>a. ucast a"]
  by (auto simp: region_ok_def forward_ok_def in_region_def)

end
