(* ===== verification/CharDevice.thy ===== *)
theory CharDevice
  imports Arch
begin

text \<open>
  What \<open>src/terminal.c\<close> and \<open>src/printer.c\<close> share: a volatile status register, the loop that waits
  while a device is busy, and the contract of a device that takes characters one at a time, with the
  two functions that send a string to it.

  A volatile register is the sequence of values its reads return; nothing is assumed of them but where
  a theorem says so. The waiting loop may never end, which is \<open>None\<close>. A C string is the list of the
  bytes from the pointer to the end of the object it points into: reading past the end is \<open>None\<close>.
\<close>

section \<open>Volatile registers\<close>

record vreg =
  vals :: "nat \<Rightarrow> u32"
  seen :: nat

definition vread :: "vreg \<Rightarrow> u32 \<times> vreg" where
  "vread r = (vals r (seen r), r\<lparr>seen := Suc (seen r)\<rparr>)"

text \<open>\<open>while ((stat = STATUS) == ST_BUSY) ;\<close>\<close>

partial_function (option) busy_wait :: "u32 \<Rightarrow> vreg \<Rightarrow> (u32 \<times> vreg) option" where
  "busy_wait m r =
     (let (w, r) = vread r; stat = w AND m in
      if stat = ST_BUSY then busy_wait m r else Some (stat, r))"

text \<open>The loop ends exactly if the device is not busy forever, at the first read that says so.\<close>

lemma busy_wait_ends:
  assumes "vals r (seen r + n) AND m \<noteq> ST_BUSY" and "\<forall>i<n. vals r (seen r + i) AND m = ST_BUSY"
  shows "busy_wait m r = Some (vals r (seen r + n) AND m, r\<lparr>seen := seen r + Suc n\<rparr>)"
  using assms
proof (induction n arbitrary: r)
  case 0
  then show ?case by (subst busy_wait.simps) (simp add: vread_def)
next
  case (Suc n)
  let ?r = "r\<lparr>seen := Suc (seen r)\<rparr>"
  have "busy_wait m ?r = Some (vals ?r (seen ?r + n) AND m, ?r\<lparr>seen := seen ?r + Suc n\<rparr>)"
  proof (rule Suc.IH)
    show "\<forall>i<n. vals ?r (seen ?r + i) AND m = ST_BUSY" using Suc.prems(2) by (auto dest: spec [of _ "Suc _"])
  qed (use Suc.prems(1) in simp)
  moreover have "vals r (seen r) AND m = ST_BUSY" using Suc.prems(2) by (metis add_0_right zero_less_Suc)
  ultimately show ?case by (subst busy_wait.simps) (simp add: vread_def)
qed

lemma busy_wait_not_busy: "busy_wait m r = Some y \<Longrightarrow> fst y \<noteq> ST_BUSY \<and> vals (snd y) = vals r"
proof (rule busy_wait.raw_induct [rotated, where P = "\<lambda>_ r y. fst y \<noteq> ST_BUSY \<and> vals (snd y) = vals r"])
  fix f m r y
  assume ih: "\<And>m r y. f m r = Some y \<Longrightarrow> fst y \<noteq> ST_BUSY \<and> vals (snd y) = vals r"
    and "(let (w, r) = vread r; stat = w AND m in if stat = ST_BUSY then f m r else Some (stat, r)) = Some y"
  then show "fst y \<noteq> ST_BUSY \<and> vals (snd y) = vals r"
    using ih [of m "r\<lparr>seen := Suc (seen r)\<rparr>" y] by (cases "vals r (seen r) AND m = ST_BUSY") (auto simp: vread_def)
qed

lemma busy_wait_returns: "(\<exists>x. busy_wait m r = Some x) \<longleftrightarrow> (\<exists>n\<ge>seen r. vals r n AND m \<noteq> ST_BUSY)"
proof
  assume "\<exists>n\<ge>seen r. vals r n AND m \<noteq> ST_BUSY"
  then obtain j where "vals r (seen r + j) AND m \<noteq> ST_BUSY" by (metis le_iff_add)
  then show "\<exists>x. busy_wait m r = Some x"
    using busy_wait_ends [of r "LEAST j. vals r (seen r + j) AND m \<noteq> ST_BUSY" m]
    by (metis (mono_tags, lifting) LeastI not_less_Least)
next
  assume "\<exists>x. busy_wait m r = Some x"
  then obtain y where "busy_wait m r = Some y" by blast
  then show "\<exists>n\<ge>seen r. vals r n AND m \<noteq> ST_BUSY"
  proof (rule busy_wait.raw_induct [rotated, where P = "\<lambda>m r _. \<exists>n\<ge>seen r. vals r n AND m \<noteq> ST_BUSY"])
    fix f m r y
    assume ih: "\<And>m r y. f m r = Some y \<Longrightarrow> \<exists>n\<ge>seen r. vals r n AND m \<noteq> ST_BUSY"
      and "(let (w, r) = vread r; stat = w AND m in if stat = ST_BUSY then f m r else Some (stat, r)) = Some y"
    then show "\<exists>n\<ge>seen r. vals r n AND m \<noteq> ST_BUSY"
      using ih [of m "r\<lparr>seen := Suc (seen r)\<rparr>" y]
      by (cases "vals r (seen r) AND m = ST_BUSY") (auto simp: vread_def intro: Suc_leD)
  qed
qed

text \<open>
  The device takes the next \<open>n\<close> characters: each time its status is first one that \<open>ready\<close> accepts and,
  once it is no longer busy, one that \<open>done\<close> accepts.
\<close>

fun takes :: "(u32 \<Rightarrow> bool) \<Rightarrow> (u32 \<Rightarrow> bool) \<Rightarrow> u32 \<Rightarrow> nat \<Rightarrow> vreg \<Rightarrow> bool" where
  "takes ready fin m 0 r \<longleftrightarrow> True"
| "takes ready fin m (Suc n) r \<longleftrightarrow> (let (w, r) = vread r in
     ready (w AND m) \<and> (case busy_wait m r of
       None \<Rightarrow> False
     | Some (stat, r) \<Rightarrow> fin stat \<and> takes ready fin m n r))"

section \<open>Sending strings\<close>

locale char_device =
  fixes put :: "u8 \<Rightarrow> 's \<Rightarrow> (s32 \<times> 's) option"
    and puts :: "u8 list \<Rightarrow> 's \<Rightarrow> 's option"
    and out :: "'s \<Rightarrow> u8 list"
    and able :: "nat \<Rightarrow> 's \<Rightarrow> bool"
  assumes puts_Nil: "puts [] s = None"
    and puts_Cons: "puts (c # cs) s = (if c = 0 then Some s
      else do { (r, s) \<leftarrow> put c s; if r \<noteq> 0 then Some s else puts cs s })"
    and put_able: "able (Suc n) s \<Longrightarrow> \<exists>s'. put c s = Some (0, s') \<and> able n s' \<and> out s' = out s @ [c]"
    and put_out: "put c s = Some (r, s') \<Longrightarrow> out s' = out s @ [c] \<or> r \<noteq> 0 \<and> out s' = out s"
begin

text \<open>A device that takes enough characters gets the whole string, up to its terminator.\<close>

lemma puts_all:
  "able (length cs + n) s \<Longrightarrow> 0 \<notin> set cs \<Longrightarrow> \<exists>s'. puts (cs @ 0 # rest) s = Some s' \<and> able n s' \<and> out s' = out s @ cs"
proof (induction cs arbitrary: s)
  case Nil
  then show ?case by (simp add: puts_Cons)
next
  case (Cons c cs)
  then obtain s1 where s1: "put c s = Some (0, s1)" "able (length cs + n) s1" "out s1 = out s @ [c]"
    using put_able [of "length cs + n" s c] by auto
  then show ?case using Cons.IH [OF s1(2)] Cons.prems(2) by (auto simp: puts_Cons)
qed

text \<open>Whatever the device does, it gets an initial part of the string, in order.\<close>

lemma puts_prefix:
  "puts str s = Some s' \<Longrightarrow> \<exists>cs rest. str = cs @ rest \<and> 0 \<notin> set cs \<and> out s' = out s @ cs"
proof (induction str arbitrary: s)
  case Nil
  then show ?case by (simp add: puts_Nil)
next
  case (Cons c str)
  show ?case
  proof (cases "c = 0")
    case True
    then show ?thesis using Cons.prems by (intro exI [of _ "[]"] exI [of _ "c # str"]) (simp add: puts_Cons)
  next
    case False
    then obtain r s1 where s1: "put c s = Some (r, s1)" "(if r \<noteq> 0 then Some s1 else puts str s1) = Some s'"
      using Cons.prems by (auto simp: puts_Cons bind_eq_Some)
    show ?thesis
    proof (cases "r = 0")
      case True
      then obtain cs rest where "str = cs @ rest" "0 \<notin> set cs" "out s' = out s1 @ cs" using Cons.IH [of s1] s1(2) by (simp, blast)
      then show ?thesis using put_out [OF s1(1)] True False by (intro exI [of _ "c # cs"] exI [of _ rest]) auto
    next
      case n: False
      then have "out s' = out s @ [c] \<or> out s' = out s @ []" using put_out [OF s1(1)] s1(2) by auto
      then show ?thesis using False
        by (elim disjE) (rule exI [of _ "[c]"], simp, rule exI [of _ "[]"], simp)
    qed
  qed
qed

end

end
