(* ===== verification/Terminal.thy ===== *)
theory Terminal
  imports CharDevice
begin

text \<open>
  \<open>src/terminal.c\<close>: sending and receiving characters and strings, the conversion of numbers and the
  formatted output of \<open>tprintf\<close>.

  A terminal is its two status registers, as they are read, and the commands written to its two
  command registers, in order. \<open>char\<close> is signed on uMPS (MIPS) and unsigned on uARM, which shows in
  its conversion to \<open>int\<close>.
\<close>

record termdev =
  transm :: vreg
  recv :: vreg
  transm_log :: "u32 list"
  recv_log :: "u32 list"

definition char_int :: "arch \<Rightarrow> u8 \<Rightarrow> s32" where
  "char_int ar c = (case ar of UMPS \<Rightarrow> scast c | UARM \<Rightarrow> ucast c)"

section \<open>The code\<close>

definition tputchar :: "s32 \<Rightarrow> termdev \<Rightarrow> (s32 \<times> termdev) option" where
  "tputchar c t = (
     let (w, r) = vread (transm t);
         t = t\<lparr>transm := r\<rparr>;
         stat = w AND TERM_STATUS_MASK
     in if stat \<noteq> ST_READY \<and> stat \<noteq> ST_TRANSMITTED then Some (-1, t)
        else do {
          let t = t\<lparr>transm_log := transm_log t @ [push_bit CHAR_OFFSET c OR CMD_TRANSMIT]\<rparr>;
          (stat, r) \<leftarrow> busy_wait TERM_STATUS_MASK (transm t);
          let t = t\<lparr>transm := r, transm_log := transm_log t @ [CMD_ACK]\<rparr>;
          if stat \<noteq> ST_TRANSMITTED then Some (-1, t) else Some (0, t) })"

fun tputs :: "arch \<Rightarrow> u8 list \<Rightarrow> termdev \<Rightarrow> termdev option" where
  "tputs ar [] t = None"
| "tputs ar (c # str) t =
     (if c = 0 then Some t
      else do {
        (r, t) \<leftarrow> tputchar (char_int ar c) t;
        if r \<noteq> 0 then Some t else tputs ar str t })"

text \<open>\<open>digits[]\<close>, with its terminator, and the bytes written into \<open>buffer\<close> from its end; \<open>room\<close> is
  the number of bytes before \<open>ptr\<close>.\<close>

definition digits :: "u8 list" where
  "digits = [0x30, 0x31, 0x32, 0x33, 0x34, 0x35, 0x36, 0x37, 0x38, 0x39, 0x41, 0x42, 0x43, 0x44, 0x45, 0x46, 0]"

fun convert_loop :: "nat \<Rightarrow> u32 \<Rightarrow> u32 \<Rightarrow> u8 list \<Rightarrow> u8 list option" where
  "convert_loop 0 num b ptr = None"
| "convert_loop (Suc room) num b ptr =
     (if b = 0 \<or> length digits \<le> unat (num mod b) then None
      else let ptr = digits ! unat (num mod b) # ptr;
               num = num div b
           in if num \<noteq> 0 then convert_loop room num b ptr else Some ptr)"

definition convert :: "u32 \<Rightarrow> u32 \<Rightarrow> u8 list option" where
  "convert num b = convert_loop 63 num b [0]"

datatype va_arg = ArgInt s32 | ArgStr "u8 list" | ArgPtr u32

text \<open>The \<open>switch\<close>: an argument of another type than the directive reads, or none, is undefined.\<close>

definition directive :: "arch \<Rightarrow> u8 \<Rightarrow> va_arg list \<Rightarrow> termdev \<Rightarrow> (va_arg list \<times> termdev) option" where
  "directive ar d args t =
     (if d = 0x63 then
        (case args of ArgInt i # args \<Rightarrow> do { (_, t) \<leftarrow> tputchar i t; Some (args, t) } | _ \<Rightarrow> None)
      else if d = 0x64 then
        (case args of ArgInt i # args \<Rightarrow> do { s \<leftarrow> convert i 10; t \<leftarrow> tputs ar s t; Some (args, t) } | _ \<Rightarrow> None)
      else if d = 0x73 then
        (case args of ArgStr s # args \<Rightarrow> do { t \<leftarrow> tputs ar s t; Some (args, t) } | _ \<Rightarrow> None)
      else if d = 0x70 then
        (case args of ArgPtr p # args \<Rightarrow> do {
           t \<leftarrow> tputs ar [0x30, 0x78, 0] t;
           s \<leftarrow> convert p 16;
           t \<leftarrow> tputs ar s t;
           Some (args, t) } | _ \<Rightarrow> None)
      else Some (args, t))"

text \<open>After a directive the loop steps over its letter, whatever it is: also over a terminator.\<close>

fun vtprintf :: "arch \<Rightarrow> u8 list \<Rightarrow> va_arg list \<Rightarrow> termdev \<Rightarrow> termdev option" where
  "vtprintf ar [] args t = None"
| "vtprintf ar (c # fmt) args t =
     (if c = 0 then Some t
      else if c = 0x25 then
        (case fmt of
           [] \<Rightarrow> None
         | d # fmt \<Rightarrow> do { (args, t) \<leftarrow> directive ar d args t; vtprintf ar fmt args t })
      else do { (_, t) \<leftarrow> tputchar (char_int ar c) t; vtprintf ar fmt args t })"

definition tprintf :: "arch \<Rightarrow> u8 list \<Rightarrow> va_arg list \<Rightarrow> termdev \<Rightarrow> termdev option" where
  "tprintf ar fmt args t = vtprintf ar fmt args t"

definition tgetchar :: "arch \<Rightarrow> termdev \<Rightarrow> (s32 \<times> termdev) option" where
  "tgetchar ar t = (
     let (w, r) = vread (recv t);
         t = t\<lparr>recv := r\<rparr>;
         stat = w AND TERM_STATUS_MASK
     in if stat \<noteq> ST_READY \<and> stat \<noteq> ST_RECEIVED then Some (-1, t)
        else do {
          let t = t\<lparr>recv_log := recv_log t @ [CMD_RECEIVE]\<rparr>;
          (stat, r) \<leftarrow> busy_wait TERM_STATUS_MASK (recv t);
          let (w, r) = vread r;
          let c = (ucast (drop_bit CHAR_OFFSET w) :: u8);
          let t = t\<lparr>recv := r, recv_log := recv_log t @ [CMD_ACK]\<rparr>;
          if stat \<noteq> ST_RECEIVED then Some (-1, t) else Some (char_int ar c, t) })"

text \<open>\<open>buf[i] = v\<close>; \<open>tgets_loop\<close> returns whether the result is \<open>NULL\<close>.\<close>

definition set_at :: "nat \<Rightarrow> u8 \<Rightarrow> u8 list \<Rightarrow> u8 list option" where
  "set_at i v buf = (if i < length buf then Some (buf[i := v]) else None)"

fun tgets_loop :: "arch \<Rightarrow> nat \<Rightarrow> nat \<Rightarrow> u8 list \<Rightarrow> termdev \<Rightarrow> (bool \<times> u8 list \<times> termdev) option" where
  "tgets_loop ar 0 i buf t = do { buf \<leftarrow> set_at i 0 buf; Some (False, buf, t) }"
| "tgets_loop ar (Suc n) i buf t = do {
     (r, t) \<leftarrow> tgetchar ar t;
     let c = (ucast r :: u8);
     buf \<leftarrow> set_at i c buf;
     if c = 0x0A then do { buf \<leftarrow> set_at (Suc i) 0 buf; Some (True, buf, t) }
     else tgets_loop ar n (Suc i) buf t }"

definition tgets :: "arch \<Rightarrow> u8 list \<Rightarrow> s32 \<Rightarrow> termdev \<Rightarrow> (bool \<times> u8 list \<times> termdev) option" where
  "tgets ar buf sz t =
     (if sz = 0x80000000 then None
      else tgets_loop ar (nat (sint sz - 1)) 0 buf t)"

section \<open>Output\<close>

text \<open>The characters handed to the transmitter.\<close>

definition transmitted :: "termdev \<Rightarrow> u8 list" where
  "transmitted t = map (\<lambda>w. ucast (drop_bit CHAR_OFFSET w))
     (filter (\<lambda>w. w AND 0xFF = CMD_TRANSMIT) (transm_log t))"

definition tx_takes :: "nat \<Rightarrow> termdev \<Rightarrow> bool" where
  "tx_takes n t = takes (\<lambda>s. s = ST_READY \<or> s = ST_TRANSMITTED) (\<lambda>s. s = ST_TRANSMITTED) TERM_STATUS_MASK n (transm t)"

lemma command_bits:
  fixes c :: s32
  shows "(push_bit 8 c OR 2) AND 0xFF = (2 :: u32)" "(ucast (drop_bit 8 (push_bit 8 c)) :: u8) = ucast c"
proof -
  have m: "(0xFF :: u32) = Bit_Operations.mask 8" "(2 :: u32) = push_bit 1 1" by (simp_all add: mask_eq_exp_minus_1)
  show "(push_bit 8 c OR 2) AND 0xFF = (2 :: u32)" unfolding m
    by (rule bit_word_eqI) (auto simp: bit_simps)
  show "(ucast (drop_bit 8 (push_bit 8 c)) :: u8) = ucast c"
    by (rule bit_word_eqI) (auto simp: bit_simps)
qed

lemma ucast_char_int [simp]: "(ucast (char_int ar c) :: u8) = c"
  by (cases ar) (auto simp: char_int_def intro!: bit_word_eqI simp: bit_simps)

lemma transmitted_put: "transmitted (t\<lparr>transm := r, transm_log := transm_log t @ [push_bit CHAR_OFFSET c OR CMD_TRANSMIT, CMD_ACK]\<rparr>) =
    transmitted t @ [ucast c]"
  by (simp add: transmitted_def term_defs command_bits)

lemma tputchar_takes:
  assumes "tx_takes (Suc n) t"
  shows "\<exists>t'. tputchar c t = Some (0, t') \<and> tx_takes n t' \<and> transmitted t' = transmitted t @ [ucast c] \<and>
    recv t' = recv t \<and> recv_log t' = recv_log t"
proof -
  obtain w r where w: "vread (transm t) = (w, r)" by (cases "vread (transm t)")
  obtain r' where r': "busy_wait TERM_STATUS_MASK r = Some (ST_TRANSMITTED, r')"
      "w AND TERM_STATUS_MASK = ST_READY \<or> w AND TERM_STATUS_MASK = ST_TRANSMITTED"
      "takes (\<lambda>s. s = ST_READY \<or> s = ST_TRANSMITTED) (\<lambda>s. s = ST_TRANSMITTED) TERM_STATUS_MASK n r'"
    using assms w by (auto simp: tx_takes_def split: option.splits)
  let ?t = "t\<lparr>transm := r', transm_log := transm_log t @ [push_bit CHAR_OFFSET c OR CMD_TRANSMIT, CMD_ACK]\<rparr>"
  have "tputchar c t = Some (0, ?t)" using w r'(1,2) by (auto simp: tputchar_def)
  then show ?thesis using r'(3) transmitted_put [where t = t and c = c and r = r'] by (auto simp: tx_takes_def)
qed

lemma tputchar_out:
  assumes "tputchar c t = Some (r, t')"
  shows "transmitted t' = transmitted t @ [ucast c] \<or> r \<noteq> 0 \<and> transmitted t' = transmitted t"
proof -
  obtain w x where w: "vread (transm t) = (w, x)" by (cases "vread (transm t)")
  show ?thesis
  proof (cases "w AND TERM_STATUS_MASK \<noteq> ST_READY \<and> w AND TERM_STATUS_MASK \<noteq> ST_TRANSMITTED")
    case True
    then show ?thesis using assms w by (auto simp: tputchar_def transmitted_def)
  next
    case False
    then obtain stat y where "busy_wait TERM_STATUS_MASK x = Some (stat, y)"
      "t' = t\<lparr>transm := y, transm_log := transm_log t @ [push_bit CHAR_OFFSET c OR CMD_TRANSMIT, CMD_ACK]\<rparr>"
      using assms w by (auto simp: tputchar_def bind_eq_Some Let_def split: if_splits)
    then show ?thesis using transmitted_put [where t = t and c = c and r = y] by simp
  qed
qed

interpretation tty: char_device "\<lambda>c. tputchar (char_int ar c)" "tputs ar" transmitted tx_takes for ar
proof
  show "tx_takes (Suc n) s \<Longrightarrow> \<exists>s'. tputchar (char_int ar c) s = Some (0, s') \<and> tx_takes n s' \<and> transmitted s' = transmitted s @ [c]" for n s c
    using tputchar_takes [of n s "char_int ar c"] by auto
  show "tputchar (char_int ar c) s = Some (r, s') \<Longrightarrow> transmitted s' = transmitted s @ [c] \<or> r \<noteq> 0 \<and> transmitted s' = transmitted s" for c s r s'
    using tputchar_out [of "char_int ar c" s r s'] by simp
qed simp_all

section \<open>Numbers\<close>

text \<open>The numeral of a number, most significant digit first, and the value of a numeral.\<close>

function numeral_text :: "nat \<Rightarrow> nat \<Rightarrow> u8 list" where
  "numeral_text b n = (if b < 2 \<or> n < b then [digits ! n] else numeral_text b (n div b) @ [digits ! (n mod b)])"
  by pat_completeness auto
termination by (relation "measure snd") (auto simp: div_less_dividend)

declare numeral_text.simps [simp del]

definition digit_value :: "u8 \<Rightarrow> nat" where
  "digit_value c = (if c \<le> 0x39 then unat c - 0x30 else unat c - 0x37)"

definition number :: "nat \<Rightarrow> u8 list \<Rightarrow> nat" where
  "number b cs = foldl (\<lambda>n c. n * b + digit_value c) 0 cs"

lemma less_16: "d < (16 :: nat) \<longleftrightarrow> d \<in> {0, 1, 2, 3, 4, 5, 6, 7, 8, 9, 10, 11, 12, 13, 14, 15}"
  unfolding insert_iff empty_iff by presburger

lemma digit_at:
  assumes "d < 16"
  shows "digit_value (digits ! d) = d" "digits ! d \<noteq> 0" "digits ! d = 0x30 \<longleftrightarrow> d = 0"
  using assms unfolding less_16 insert_iff empty_iff by (elim disjE; simp add: digits_def digit_value_def)+

lemma numeral_text_induct [consumes 1, case_names small large]:
  fixes b n :: nat
  assumes "2 \<le> b" and "\<And>n. n < b \<Longrightarrow> P n" and "\<And>n. b \<le> n \<Longrightarrow> P (n div b) \<Longrightarrow> P n"
  shows "P n"
proof (induction n rule: less_induct)
  case (less n)
  show ?case
  proof (cases "n < b")
    case False
    then have "n div b < n" using assms(1) by (simp add: div_less_dividend)
    then show ?thesis using assms(3) [of n] less.IH False by simp
  qed (rule assms(2))
qed

lemma numeral_text_small: "n < b \<Longrightarrow> numeral_text b n = [digits ! n]"
  by (subst numeral_text.simps) simp

lemma numeral_text_large: "2 \<le> b \<Longrightarrow> b \<le> n \<Longrightarrow> numeral_text b n = numeral_text b (n div b) @ [digits ! (n mod b)]"
  by (subst numeral_text.simps) simp

lemma number_text:
  assumes "2 \<le> b" "b \<le> 16"
  shows "number b (numeral_text b n) = n"
  using assms(1)
proof (induction n rule: numeral_text_induct)
  case (small n)
  then show ?case using assms digit_at(1) [of n] by (simp add: numeral_text_small number_def)
next
  case (large n)
  have "n mod b < 16" using assms mod_less_divisor [of b n] by linarith
  then show ?case using large assms digit_at(1) [of "n mod b"] by (simp add: numeral_text_large number_def)
qed

lemma numeral_text_chars:
  assumes "2 \<le> b" "b \<le> 16"
  shows "0 \<notin> set (numeral_text b n) \<and> numeral_text b n \<noteq> [] \<and> (hd (numeral_text b n) = 0x30 \<longrightarrow> n = 0)"
  using assms(1)
proof (induction n rule: numeral_text_induct)
  case (small n)
  then show ?case using assms digit_at(2,3) [of n] by (simp add: numeral_text_small)
next
  case (large n)
  have "n mod b < 16" using assms mod_less_divisor [of b n] by linarith
  moreover have "n div b \<noteq> 0" using large(1) assms by (simp add: div_eq_0_iff)
  ultimately show ?case using large assms digit_at(2) [of "n mod b"] by (simp add: numeral_text_large)
qed

lemma numeral_text_length: "2 \<le> b \<Longrightarrow> n < b ^ Suc k \<Longrightarrow> length (numeral_text b n) \<le> Suc k"
proof (induction k arbitrary: n)
  case (Suc k)
  show ?case
  proof (cases "n < b")
    case False
    have "n div b < b ^ Suc k" using Suc.prems by (simp add: less_mult_imp_div_less mult.commute)
    then show ?thesis using Suc.IH [of "n div b"] Suc.prems False by (simp add: numeral_text_large)
  qed (simp add: numeral_text_small)
qed (simp add: numeral_text_small)

lemma convert_loop_spec:
  "2 \<le> unat b \<Longrightarrow> unat b \<le> 16 \<Longrightarrow> unat num < unat b ^ Suc room \<Longrightarrow>
   convert_loop (Suc room) num b ptr = Some (numeral_text (unat b) (unat num) @ ptr)"
proof (induction room arbitrary: num ptr)
  case (0 num ptr)
  have "unat num div unat b = 0" "b \<noteq> 0" using 0 by auto
  then have "num div b = 0" by (simp add: word_unat_eq_iff unat_div_distrib)
  then show ?case using 0 \<open>b \<noteq> 0\<close> by (simp add: unat_mod_distrib numeral_text_small digits_def)
next
  case (Suc room num ptr)
  have b: "b \<noteq> 0" using Suc.prems(1) by auto
  have "unat num mod unat b < unat b" using Suc.prems(1) by (intro mod_less_divisor) simp
  then have m: "unat num mod unat b < 17" using Suc.prems(2) by linarith
  show ?case
  proof (cases "num div b = 0")
    case True
    then have "unat num div unat b = 0" by (metis unat_0 unat_div_distrib)
    then have "unat num < unat b" using Suc.prems(1) by (simp add: div_eq_0_iff)
    then show ?thesis using True b m
      by (simp add: unat_mod_distrib numeral_text_small digits_def)
  next
    case False
    have "unat num div unat b \<noteq> 0" using False by (simp add: word_unat_eq_iff unat_div_distrib)
    then have g: "unat b \<le> unat num" by (simp add: div_eq_0_iff)
    have "unat (num div b) < unat b ^ Suc room"
      using Suc.prems(3) by (simp add: unat_div_distrib less_mult_imp_div_less mult.commute)
    from Suc.IH [OF Suc.prems(1,2) this, of "digits ! unat (num mod b) # ptr"] show ?thesis
      using False b m numeral_text_large [OF Suc.prems(1) g]
      by (simp add: unat_mod_distrib unat_div_distrib digits_def del: convert_loop.simps(2) add: convert_loop.simps(2) [of "Suc room"])
  qed
qed

lemma convert_spec:
  assumes "2 \<le> unat b" "unat b \<le> 16"
  shows "convert num b = Some (numeral_text (unat b) (unat num) @ [0])"
proof -
  have "unat num < 2 ^ 32" using unsigned_less [of num, where ?'a = nat] by simp
  also have "(2 :: nat) ^ 32 \<le> 2 ^ 63" by simp
  also have "(2 :: nat) ^ 63 \<le> unat b ^ 63" using assms(1) by (intro power_mono) auto
  finally show ?thesis using convert_loop_spec [OF assms, of num 62 "[0]"] by (simp add: convert_def del: convert_loop.simps)
qed

section \<open>Formatted output\<close>

text \<open>What a format and its arguments stand for, without a terminal.\<close>

definition text_of :: "u8 \<Rightarrow> va_arg list \<Rightarrow> (u8 list \<times> va_arg list) option" where
  "text_of d args =
     (if d = 0x63 then (case args of ArgInt i # args \<Rightarrow> Some ([ucast i], args) | _ \<Rightarrow> None)
      else if d = 0x64 then (case args of ArgInt i # args \<Rightarrow> Some (numeral_text 10 (unat i), args) | _ \<Rightarrow> None)
      else if d = 0x73 then (case args of
        ArgStr s # args \<Rightarrow> if 0 \<in> set s then Some (takeWhile (\<lambda>c. c \<noteq> 0) s, args) else None | _ \<Rightarrow> None)
      else if d = 0x70 then (case args of
        ArgPtr p # args \<Rightarrow> Some ([0x30, 0x78] @ numeral_text 16 (unat p), args) | _ \<Rightarrow> None)
      else Some ([], args))"

fun format :: "u8 list \<Rightarrow> va_arg list \<Rightarrow> u8 list option" where
  "format [] args = None"
| "format (c # fmt) args =
     (if c = 0 then Some []
      else if c = 0x25 then (case fmt of
        [] \<Rightarrow> None
      | d # fmt \<Rightarrow> do { (s, args) \<leftarrow> text_of d args; r \<leftarrow> format fmt args; Some (s @ r) })
      else do { r \<leftarrow> format fmt args; Some (c # r) })"

text \<open>The functions that print a piece of text print all of it.\<close>

definition prints :: "(termdev \<Rightarrow> termdev option) \<Rightarrow> u8 list \<Rightarrow> bool" where
  "prints f s \<longleftrightarrow> (\<forall>n t. tx_takes (length s + n) t \<longrightarrow>
     (\<exists>t'. f t = Some t' \<and> tx_takes n t' \<and> transmitted t' = transmitted t @ s))"

lemma printsD: "prints f s \<Longrightarrow> tx_takes (length s + n) t \<Longrightarrow>
    \<exists>t'. f t = Some t' \<and> tx_takes n t' \<and> transmitted t' = transmitted t @ s"
  by (simp add: prints_def)

lemma prints_char: "prints (\<lambda>t. do { (_, t) \<leftarrow> tputchar c t; Some t }) [ucast c]"
proof -
  have "\<exists>t'. do { (_, t) \<leftarrow> tputchar c t; Some t } = Some t' \<and> tx_takes n t' \<and> transmitted t' = transmitted t @ [ucast c]"
    if "tx_takes (Suc n) t" for n t
    using tputchar_takes [OF that, of c] by auto
  then show ?thesis by (simp add: prints_def)
qed

lemma prints_puts: "0 \<notin> set s \<Longrightarrow> prints (tputs ar (s @ 0 # rest)) s"
  unfolding prints_def using tty.puts_all [of s _ _ ar rest] by blast

lemma prints_seq: "prints f s \<Longrightarrow> prints g r \<Longrightarrow> prints (\<lambda>t. do { t \<leftarrow> f t; g t }) (s @ r)"
proof (unfold prints_def, intro allI impI)
  fix n t
  assume f: "\<forall>n t. tx_takes (length s + n) t \<longrightarrow> (\<exists>t'. f t = Some t' \<and> tx_takes n t' \<and> transmitted t' = transmitted t @ s)"
    and g: "\<forall>n t. tx_takes (length r + n) t \<longrightarrow> (\<exists>t'. g t = Some t' \<and> tx_takes n t' \<and> transmitted t' = transmitted t @ r)"
    and "tx_takes (length (s @ r) + n) t"
  then obtain t1 where t1: "f t = Some t1" "tx_takes (length r + n) t1" "transmitted t1 = transmitted t @ s"
    by (metis add.assoc length_append)
  show "\<exists>t'. do { t \<leftarrow> f t; g t } = Some t' \<and> tx_takes n t' \<and> transmitted t' = transmitted t @ s @ r"
    using g [rule_format, OF t1(2)] t1 by auto
qed

lemma prints_nil: "prints Some []"
  by (simp add: prints_def)

lemma directive_text:
  assumes "text_of d args = Some (s, args')"
  shows "\<exists>f. prints f s \<and> (\<forall>t. directive ar d args t = do { t \<leftarrow> f t; Some (args', t) })"
proof -
  consider "d = 0x63" | "d = 0x64" | "d = 0x73" | "d = 0x70" | "d \<notin> {0x63, 0x64, 0x73, 0x70}" by blast
  then show ?thesis
  proof cases
    case 1
    then obtain i where "args = ArgInt i # args'" "s = [ucast i]"
      using assms by (auto simp: text_of_def split: list.splits va_arg.splits)
    then show ?thesis using 1 prints_char [of i] by (auto simp: directive_def case_prod_unfold intro!: exI)
  next
    case 2
    then obtain i where i: "args = ArgInt i # args'" "s = numeral_text 10 (unat i)"
      using assms by (auto simp: text_of_def split: list.splits va_arg.splits)
    have "convert i 10 = Some (s @ [0])" using convert_spec [of 10 i] i(2) by simp
    then show ?thesis using 2 i prints_puts [of s ar "[]"] numeral_text_chars [of 10 "unat i"]
      by (auto simp: directive_def intro!: exI [of _ "tputs ar (s @ [0])"])
  next
    case 3
    then obtain x where x: "args = ArgStr x # args'" "0 \<in> set x" "s = takeWhile (\<lambda>c. c \<noteq> 0) x"
      using assms by (auto simp: text_of_def split: list.splits va_arg.splits if_splits)
    obtain rest where "dropWhile (\<lambda>c. c \<noteq> 0) x = 0 # rest"
      using x(2) by (metis (mono_tags, lifting) dropWhile_eq_Nil_conv hd_dropWhile list.exhaust_sel)
    then have "x = s @ 0 # rest" using x(3) by (metis takeWhile_dropWhile_id)
    moreover have "0 \<notin> set s" using x(3) by (auto dest: set_takeWhileD)
    ultimately show ?thesis using 3 x(1) prints_puts [of s ar rest] by (auto simp: directive_def intro!: exI [of _ "tputs ar x"])
  next
    case 4
    then obtain p where p: "args = ArgPtr p # args'" "s = [0x30, 0x78] @ numeral_text 16 (unat p)"
      using assms by (auto simp: text_of_def split: list.splits va_arg.splits)
    let ?n = "numeral_text 16 (unat p)"
    have "convert p 16 = Some (?n @ [0])" using convert_spec [of 16 p] by simp
    then have "directive ar d args t = do { t \<leftarrow> do { t \<leftarrow> tputs ar ([0x30, 0x78] @ [0]) t; tputs ar (?n @ [0]) t }; Some (args', t) }" for t
      using 4 p(1) by (simp add: directive_def del: tputs.simps)
    moreover have "prints (\<lambda>t. do { t \<leftarrow> tputs ar ([0x30, 0x78] @ [0]) t; tputs ar (?n @ [0]) t }) s"
      unfolding p(2) by (intro prints_seq prints_puts) (use numeral_text_chars [of 16 "unat p"] in auto)
    ultimately show ?thesis by blast
  next
    case 5
    then show ?thesis using assms prints_nil by (intro exI [of _ Some]) (auto simp: directive_def text_of_def)
  qed
qed

lemma vtprintf_format: "format fmt args = Some s \<Longrightarrow> prints (vtprintf ar fmt args) s"
proof (induction fmt args arbitrary: s rule: format.induct)
  case (2 c fmt args)
  consider "c = 0" | d fmt' where "c = 0x25" "fmt = d # fmt'" | "c \<noteq> 0" "c \<noteq> 0x25"
    using "2.prems" by (cases "c = 0x25") (auto split: list.splits)
  then show ?case
  proof cases
    case 1
    then show ?thesis using "2.prems" prints_nil by (simp add: prints_def)
  next
    case (2 d fmt')
    then obtain x args' r where x: "text_of d args = Some (x, args')" "format fmt' args' = Some r" "s = x @ r"
      using "2.prems" by (auto simp: bind_eq_Some)
    obtain f where f: "prints f x" "\<forall>t. directive ar d args t = do { t \<leftarrow> f t; Some (args', t) }"
      using directive_text [OF x(1)] by blast
    have "vtprintf ar (c # fmt) args = (\<lambda>t. do { t \<leftarrow> f t; vtprintf ar fmt' args' t })"
      using 2 f(2) by (simp add: fun_eq_iff split: bind_splits)
    then show ?thesis using prints_seq [OF f(1) "2.IH"(1)] 2 x by simp
  next
    case 3
    then obtain r where r: "format fmt args = Some r" "s = [c] @ r" using "2.prems" by (auto simp: bind_eq_Some)
    have "vtprintf ar (c # fmt) args = (\<lambda>t. do { t \<leftarrow> do { (_, t) \<leftarrow> tputchar (char_int ar c) t; Some t }; vtprintf ar fmt args t })"
      using 3 by (simp add: fun_eq_iff case_prod_unfold)
    then show ?thesis using prints_seq [OF prints_char "2.IH"(2) [OF 3 r(1)], of "char_int ar c"] r(2) by simp
  qed
qed simp

section \<open>Input\<close>

text \<open>The terminal receives the characters \<open>cs\<close> next, each when it is asked for one.\<close>

fun gives :: "u8 list \<Rightarrow> vreg \<Rightarrow> bool" where
  "gives [] r \<longleftrightarrow> True"
| "gives (c # cs) r \<longleftrightarrow> (let (w, r) = vread r; stat = w AND TERM_STATUS_MASK in
     (stat = ST_READY \<or> stat = ST_RECEIVED) \<and> (case busy_wait TERM_STATUS_MASK r of
       None \<Rightarrow> False
     | Some (stat, r) \<Rightarrow> stat = ST_RECEIVED \<and> (let (w, r) = vread r in
         ucast (drop_bit CHAR_OFFSET w) = c \<and> gives cs r)))"

lemma tgetchar_gives:
  assumes "gives (c # cs) (recv t)"
  shows "\<exists>t'. tgetchar ar t = Some (char_int ar c, t') \<and> gives cs (recv t') \<and>
    transm t' = transm t \<and> transm_log t' = transm_log t"
proof -
  obtain w r where w: "vread (recv t) = (w, r)" by (cases "vread (recv t)")
  obtain r' where r': "busy_wait TERM_STATUS_MASK r = Some (ST_RECEIVED, r')"
      "w AND TERM_STATUS_MASK = ST_READY \<or> w AND TERM_STATUS_MASK = ST_RECEIVED"
      "let (w, r) = vread r' in ucast (drop_bit CHAR_OFFSET w) = c \<and> gives cs r"
    using assms w by (auto simp: Let_def split: option.splits)
  obtain w' r'' where w': "vread r' = (w', r'')" by (cases "vread r'")
  then have "ucast (drop_bit CHAR_OFFSET w') = c" "gives cs r''" using r'(3) by auto
  then show ?thesis using w w' r'(1,2)
    by (auto simp: tgetchar_def)
qed

lemma tgets_loop_line:
  "0x0A \<notin> set ls \<Longrightarrow> length ls < n \<Longrightarrow> i + length ls + 1 < length buf \<Longrightarrow> gives (ls @ [0x0A]) (recv t) \<Longrightarrow>
   \<exists>t'. tgets_loop ar n i buf t = Some (True, take i buf @ ls @ [0x0A, 0] @ drop (i + length ls + 2) buf, t') \<and>
     transm_log t' = transm_log t"
proof (induction ls arbitrary: n i buf t)
  case (Nil n i buf t)
  then obtain m where n: "n = Suc m" by (cases n) auto
  obtain t' where t': "tgetchar ar t = Some (char_int ar 0x0A, t')" "transm_log t' = transm_log t"
    using tgetchar_gives [of "0x0A" "[]" t ar] Nil by auto
  have "buf[i := 0x0A, Suc i := 0] = take i buf @ [0x0A, 0] @ drop (i + 2) buf"
    using Nil(3) upd_conv_take_nth_drop [of i buf "0x0A"] upd_conv_take_nth_drop [of "Suc i" "buf[i := 0x0A]" 0]
    by (simp add: take_Suc_conv_app_nth)
  then show ?case using n t' Nil(3) by (simp add: set_at_def)
next
  case (Cons c ls n i buf t)
  then obtain m where n: "n = Suc m" by (cases n) auto
  obtain t1 where t1: "tgetchar ar t = Some (char_int ar c, t1)" "gives (ls @ [0x0A]) (recv t1)" "transm_log t1 = transm_log t"
    using tgetchar_gives [of c "ls @ [0x0A]" t ar] Cons.prems(4) by auto
  obtain t' where t': "tgets_loop ar m (Suc i) (buf[i := c]) t1 =
      Some (True, take (Suc i) (buf[i := c]) @ ls @ [0x0A, 0] @ drop (Suc i + length ls + 2) (buf[i := c]), t')" "transm_log t' = transm_log t1"
    using Cons.IH [of m "Suc i" "buf[i := c]" t1] Cons.prems t1(2) n by auto
  have "take (Suc i) (buf[i := c]) = take i buf @ [c]" using Cons.prems(3) by (simp add: take_Suc_conv_app_nth)
  then show ?case using t' t1(1,3) n Cons.prems(1,3) by (auto simp: set_at_def)
qed

lemma tgets_loop_full:
  "0x0A \<notin> set ls \<Longrightarrow> i + length ls < length buf \<Longrightarrow> gives ls (recv t) \<Longrightarrow>
   \<exists>t'. tgets_loop ar (length ls) i buf t = Some (False, take i buf @ ls @ [0] @ drop (i + length ls + 1) buf, t') \<and>
     transm_log t' = transm_log t"
proof (induction ls arbitrary: i buf t)
  case (Nil i buf t)
  then show ?case by (simp add: set_at_def upd_conv_take_nth_drop)
next
  case (Cons c ls i buf t)
  obtain t1 where t1: "tgetchar ar t = Some (char_int ar c, t1)" "gives ls (recv t1)" "transm_log t1 = transm_log t"
    using tgetchar_gives [of c ls t ar] Cons.prems(3) by auto
  obtain t' where t': "tgets_loop ar (length ls) (Suc i) (buf[i := c]) t1 =
      Some (False, take (Suc i) (buf[i := c]) @ ls @ [0] @ drop (Suc i + length ls + 1) (buf[i := c]), t')" "transm_log t' = transm_log t1"
    using Cons.IH [of "Suc i" "buf[i := c]" t1] Cons.prems t1(2) by auto
  have "take (Suc i) (buf[i := c]) = take i buf @ [c]" using Cons.prems(2) by (simp add: take_Suc_conv_app_nth)
  then show ?case using t' t1(1,3) Cons.prems(1,2) by (auto simp: set_at_def)
qed

section \<open>Properties\<close>

text \<open>
  C30. The waiting loop of the drivers ends if and only if the device is not busy at every later read,
  and then at the first read that finds it so; \<open>tputs\<close> on a terminal that takes as many characters as
  the string has sends all of them, and on any terminal it sends an initial part of the string, in
  order, or never returns.
\<close>

theorem tputs_sends:
  assumes "0 \<notin> set cs"
  shows "((\<exists>x. busy_wait m r = Some x) \<longleftrightarrow> (\<exists>n\<ge>seen r. vals r n AND m \<noteq> ST_BUSY)) \<and>
    (tx_takes (length cs) t \<longrightarrow> (\<exists>t'. tputs ar (cs @ [0]) t = Some t' \<and> transmitted t' = transmitted t @ cs)) \<and>
    (\<forall>str t'. tputs ar str t = Some t' \<longrightarrow> (\<exists>ds rest. str = ds @ rest \<and> 0 \<notin> set ds \<and> transmitted t' = transmitted t @ ds))"
  using busy_wait_returns [of m r] tty.puts_all [of cs 0 t ar "[]"] tty.puts_prefix [of ar] assms by auto

text \<open>A terminal that is ready, busy twice and done for every character.\<close>

definition demo_term :: termdev where
  "demo_term = \<lparr>transm = \<lparr>vals = (\<lambda>n. [1, 3, 3, 5] ! (n mod 4)), seen = 0\<rparr>,
     recv = \<lparr>vals = (\<lambda>n. [1, 3, 5, 0x4105, 1, 5, 0x0A05] ! (n mod 7)), seen = 0\<rparr>, transm_log = [], recv_log = []\<rparr>"

lemma demo_takes: "tx_takes n demo_term"
proof -
  have "takes (\<lambda>s. s = ST_READY \<or> s = ST_TRANSMITTED) (\<lambda>s. s = ST_TRANSMITTED) TERM_STATUS_MASK n
      \<lparr>vals = (\<lambda>n. [1, 3, 3, 5] ! (n mod 4)), seen = 4 * j\<rparr>" for j
  proof (induction n arbitrary: j)
    case (Suc n)
    let ?r = "\<lparr>vals = (\<lambda>n. [1, 3, 3, 5] ! (n mod 4)), seen = Suc (4 * j)\<rparr> :: vreg"
    have m: "Suc (4 * j) mod 4 = 1" "Suc (Suc (4 * j)) mod 4 = 2" "Suc (Suc (Suc (4 * j))) mod 4 = 3" by presburger+
    have "busy_wait TERM_STATUS_MASK ?r = Some (ST_TRANSMITTED, ?r\<lparr>seen := 4 * Suc j\<rparr>)"
      using busy_wait_ends [of ?r 2 TERM_STATUS_MASK] m by (auto simp: term_defs less_Suc_eq numeral_2_eq_2)
    then show ?case using Suc.IH [of "Suc j"] by (simp add: vread_def term_defs)
  qed simp
  from this [of 0] show ?thesis by (simp add: tx_takes_def demo_term_def)
qed

theorem tputs_sends_witness: "\<exists>t'. tputs UMPS [0x48, 0x69, 0] demo_term = Some t' \<and> transmitted t' = [0x48, 0x69]"
proof -
  have "transmitted demo_term = []" by (simp add: transmitted_def demo_term_def)
  then show ?thesis using tputs_sends [of "[0x48, 0x69]" 0 "transm demo_term" demo_term UMPS] demo_takes by (auto simp del: tputs.simps)
qed

text \<open>
  C28. \<open>convert\<close> writes the numeral of its argument, without leading zeros, into the end of its buffer
  for every base from 2 to 16: reading the digits gives the number back, and there are at most 32 of
  them, so it never writes before the buffer.
\<close>

theorem convert_roundtrip:
  assumes "2 \<le> unat b" and "unat b \<le> 16"
  shows "\<exists>cs. convert num b = Some (cs @ [0]) \<and> cs = numeral_text (unat b) (unat num) \<and> number (unat b) cs = unat num \<and>
    0 \<notin> set cs \<and> 1 \<le> length cs \<and> length cs \<le> 32 \<and> (hd cs = 0x30 \<longrightarrow> num = 0)"
proof -
  let ?cs = "numeral_text (unat b) (unat num)"
  have "unat num < 2 ^ 32" using unsigned_less [of num, where ?'a = nat] by simp
  also have "(2 :: nat) ^ 32 \<le> unat b ^ Suc 31" using assms(1) power_mono [of 2 "unat b" 32] by simp
  finally have "length ?cs \<le> Suc 31" by (rule numeral_text_length [OF assms(1)])
  then show ?thesis
    using convert_spec [OF assms] number_text [OF assms] numeral_text_chars [OF assms, of "unat num"]
    by (auto simp: Suc_le_eq unat_eq_0)
qed

theorem convert_roundtrip_witness: "\<exists>cs. convert 2020 10 = Some (cs @ [0]) \<and> number 10 cs = 2020"
  using convert_roundtrip [of 10 2020] by auto

text \<open>
  C29. \<open>tprintf\<close> prints exactly the text that the format and its arguments stand for, on a terminal that
  takes its characters: \<open>%c\<close> the low byte of its argument, \<open>%d\<close> the decimal numeral of its argument
  read as unsigned, \<open>%s\<close> the string up to its terminator, \<open>%p\<close> the address in hexadecimal, and any
  other letter nothing.
\<close>

theorem tprintf_formats:
  assumes "format fmt args = Some s" and "tx_takes (length s) t"
  shows "\<exists>t'. tprintf ar fmt args t = Some t' \<and> transmitted t' = transmitted t @ s"
  using printsD [OF vtprintf_format [OF assms(1)], of 0 t ar] assms(2) by (auto simp: tprintf_def)

text \<open>\<open>tprintf(term, "n=%d", -1)\<close>.\<close>

lemma unat_minus_one_u32: "unat (-1 :: u32) = 4294967295"
  by (simp add: unsigned_minus_1_eq_mask mask_eq_exp_minus_1)

theorem tprintf_formats_witness:
  "\<exists>t'. tprintf UARM [0x6E, 0x3D, 0x25, 0x64, 0] [ArgInt (-1)] demo_term = Some t' \<and>
     transmitted t' = [0x6E, 0x3D, 0x34, 0x32, 0x39, 0x34, 0x39, 0x36, 0x37, 0x32, 0x39, 0x35]"
proof -
  have f: "format [0x6E, 0x3D, 0x25, 0x64, 0] [ArgInt (-1)] = Some [0x6E, 0x3D, 0x34, 0x32, 0x39, 0x34, 0x39, 0x36, 0x37, 0x32, 0x39, 0x35]"
    by (simp add: text_of_def unat_minus_one_u32 numeral_text_large numeral_text_small digits_def)
  have "transmitted demo_term = []" by (simp add: transmitted_def demo_term_def)
  then show ?thesis using tprintf_formats [OF f demo_takes, of UARM] by simp
qed

text \<open>
  C31. \<open>tgets\<close> with a buffer of at least \<open>size\<close> bytes stays inside it. A line that fits is stored with
  its newline and a terminator and the result is \<open>NULL\<close>; otherwise the first \<open>size - 1\<close> characters are
  stored with a terminator and the result is the buffer. The rest of the buffer does not change.
\<close>

theorem tgets_line:
  assumes "0x0A \<notin> set ls" and "0 < sint sz" and "sint sz \<le> int (length buf)"
  shows "(int (length ls) + 2 \<le> sint sz \<longrightarrow> gives (ls @ [0x0A]) (recv t) \<longrightarrow>
      (\<exists>t'. tgets ar buf sz t = Some (True, ls @ [0x0A, 0] @ drop (length ls + 2) buf, t'))) \<and>
    (int (length ls) + 1 = sint sz \<longrightarrow> gives ls (recv t) \<longrightarrow>
      (\<exists>t'. tgets ar buf sz t = Some (False, ls @ [0] @ drop (length ls + 1) buf, t')))"
proof -
  have z: "sz \<noteq> 0x80000000" using assms(2) by auto
  have "\<exists>t'. tgets ar buf sz t = Some (True, ls @ [0x0A, 0] @ drop (length ls + 2) buf, t')"
    if "int (length ls) + 2 \<le> sint sz" "gives (ls @ [0x0A]) (recv t)"
  proof -
    have "length ls < nat (sint sz - 1)" using that(1) by linarith
    then show ?thesis
      using tgets_loop_line [OF assms(1), of "nat (sint sz - 1)" 0 buf t ar] that assms(3) z by (auto simp: tgets_def)
  qed
  moreover have "\<exists>t'. tgets ar buf sz t = Some (False, ls @ [0] @ drop (length ls + 1) buf, t')"
    if l: "int (length ls) + 1 = sint sz" "gives ls (recv t)"
  proof -
    have "nat (sint sz - 1) = length ls" using l(1) by simp
    then show ?thesis using tgets_loop_full [OF assms(1), of 0 buf t ar] l assms(3) z by (auto simp: tgets_def)
  qed
  ultimately show ?thesis by blast
qed

theorem tgets_line_witness:
  "\<exists>t'. tgets UMPS [9, 9, 9, 9] 4 demo_term = Some (True, [0x41, 0x0A, 0, 9], t')"
proof -
  let ?v = "\<lambda>n. [1, 3, 5, 0x4105, 1, 5, 0x0A05] ! (n mod 7) :: u32"
  have "busy_wait TERM_STATUS_MASK \<lparr>vals = ?v, seen = 1\<rparr> = Some (ST_RECEIVED, \<lparr>vals = ?v, seen = 3\<rparr>)"
    using busy_wait_ends [of "\<lparr>vals = ?v, seen = 1\<rparr>" 1 TERM_STATUS_MASK] by (simp add: term_defs)
  moreover have "busy_wait TERM_STATUS_MASK \<lparr>vals = ?v, seen = 5\<rparr> = Some (ST_RECEIVED, \<lparr>vals = ?v, seen = 6\<rparr>)"
    using busy_wait_ends [of "\<lparr>vals = ?v, seen = 5\<rparr>" 0 TERM_STATUS_MASK] by (simp add: term_defs)
  ultimately have "gives ([0x41] @ [0x0A]) (recv demo_term)"
    by (simp add: demo_term_def vread_def term_defs drop_bit_eq_div)
  then show ?thesis using tgets_line [of "[0x41]" 4 "[9, 9, 9, 9]" demo_term UMPS] by simp
qed

end
