(* ===== verification/Printer.thy ===== *)
theory Printer
  imports Terminal
begin

text \<open>
  \<open>src/printer.c\<close>: printing a string on printer 0. A printer is its status register, as it is read,
  its data register, and the commands written to it, each with the data it was written for. It is a
  second device with the contract of \<open>CharDevice\<close>, with a status that is compared as a whole word.
\<close>

record prtrdev =
  p_status :: vreg
  p_data0 :: u32
  p_log :: "(u32 \<times> u32) list"

definition CMD_PRINTCHR :: u32 where "CMD_PRINTCHR = 2"

definition prtr_putchar :: "arch \<Rightarrow> u8 \<Rightarrow> prtrdev \<Rightarrow> (s32 \<times> prtrdev) option" where
  "prtr_putchar ar c t = (
     let (status, r) = vread (p_status t);
         t = t\<lparr>p_status := r\<rparr>
     in if status \<noteq> ST_READY then Some (-1, t)
        else do {
          let t = t\<lparr>p_data0 := char_int ar c\<rparr>;
          let t = t\<lparr>p_log := p_log t @ [(CMD_PRINTCHR, p_data0 t)]\<rparr>;
          (status, r) \<leftarrow> busy_wait (-1) (p_status t);
          let t = t\<lparr>p_status := r, p_log := p_log t @ [(CMD_ACK, p_data0 t)]\<rparr>;
          Some (0, t) })"

fun prtr_puts :: "arch \<Rightarrow> u8 list \<Rightarrow> prtrdev \<Rightarrow> prtrdev option" where
  "prtr_puts ar [] t = None"
| "prtr_puts ar (c # str) t =
     (if c = 0 then Some t
      else do {
        (r, t) \<leftarrow> prtr_putchar ar c t;
        if r \<noteq> 0 then Some t else prtr_puts ar str t })"

section \<open>Output\<close>

definition printed :: "prtrdev \<Rightarrow> u8 list" where
  "printed t = map (\<lambda>(cmd, d). ucast d) (filter (\<lambda>(cmd, d). cmd = CMD_PRINTCHR) (p_log t))"

definition prtr_takes :: "nat \<Rightarrow> prtrdev \<Rightarrow> bool" where
  "prtr_takes n t = takes (\<lambda>s. s = ST_READY) (\<lambda>s. True) (-1) n (p_status t)"

lemma printed_put: "printed (t\<lparr>p_data0 := char_int ar c, p_status := r,
    p_log := p_log t @ [(CMD_PRINTCHR, char_int ar c), (CMD_ACK, char_int ar c)]\<rparr>) = printed t @ [c]"
  by (simp add: printed_def CMD_PRINTCHR_def CMD_ACK_def)

lemma prtr_putchar_takes:
  assumes "prtr_takes (Suc n) t"
  shows "\<exists>t'. prtr_putchar ar c t = Some (0, t') \<and> prtr_takes n t' \<and> printed t' = printed t @ [c]"
proof -
  obtain w r where w: "vread (p_status t) = (w, r)" by (cases "vread (p_status t)")
  obtain stat r' where r': "busy_wait (-1) r = Some (stat, r')" "w = ST_READY"
      "takes (\<lambda>s. s = ST_READY) (\<lambda>s. True) (-1) n r'"
    using assms w by (auto simp: prtr_takes_def split: option.splits)
  then show ?thesis using w printed_put [where t = t and r = r' and ar = ar and c = c] by (auto simp: prtr_putchar_def prtr_takes_def)
qed

lemma prtr_putchar_out:
  assumes "prtr_putchar ar c t = Some (r, t')"
  shows "printed t' = printed t @ [c] \<or> r \<noteq> 0 \<and> printed t' = printed t"
proof -
  obtain w x where w: "vread (p_status t) = (w, x)" by (cases "vread (p_status t)")
  show ?thesis
  proof (cases "w = ST_READY")
    case False
    then show ?thesis using assms w by (auto simp: prtr_putchar_def printed_def)
  next
    case True
    then obtain stat y where "t' = t\<lparr>p_data0 := char_int ar c, p_status := y,
        p_log := p_log t @ [(CMD_PRINTCHR, char_int ar c), (CMD_ACK, char_int ar c)]\<rparr>"
      using assms w by (auto simp: prtr_putchar_def bind_eq_Some Let_def)
    then show ?thesis using printed_put [where t = t and r = y and ar = ar and c = c] by simp
  qed
qed

interpretation prtr: char_device "prtr_putchar ar" "prtr_puts ar" printed prtr_takes for ar
  by unfold_locales (use prtr_putchar_takes prtr_putchar_out in simp_all)

section \<open>Properties\<close>

text \<open>
  \<open>prtr_puts\<close> on a printer that is ready for each character prints the whole string; on any printer
  it prints an initial part of the string, in order, or never returns; and on one that is not ready it
  prints nothing.
\<close>

lemma prtr_puts_prints:
  assumes "0 \<notin> set cs"
  shows "(prtr_takes (length cs) t \<longrightarrow> (\<exists>t'. prtr_puts ar (cs @ [0]) t = Some t' \<and> printed t' = printed t @ cs)) \<and>
    (\<forall>str t'. prtr_puts ar str t = Some t' \<longrightarrow> (\<exists>ds rest. str = ds @ rest \<and> 0 \<notin> set ds \<and> printed t' = printed t @ ds)) \<and>
    (vals (p_status t) (seen (p_status t)) \<noteq> ST_READY \<longrightarrow>
      (\<exists>t'. prtr_puts ar (cs @ [0]) t = Some t' \<and> printed t' = printed t))"
proof -
  have "\<exists>t'. prtr_puts ar (cs @ [0]) t = Some t' \<and> printed t' = printed t"
    if "vals (p_status t) (seen (p_status t)) \<noteq> ST_READY"
    using that assms by (cases cs) (auto simp: prtr_putchar_def vread_def printed_def)
  then show ?thesis using prtr.puts_all [of cs 0 t ar "[]"] prtr.puts_prefix [of ar] assms by auto
qed

text \<open>A printer that is ready and busy once for every character.\<close>

definition demo_prtr :: prtrdev where
  "demo_prtr = \<lparr>p_status = \<lparr>vals = (\<lambda>n. [1, 3, 1] ! (n mod 3)), seen = 0\<rparr>, p_data0 = 0, p_log = []\<rparr>"

lemma demo_prtr_takes: "prtr_takes n demo_prtr"
proof -
  have "takes (\<lambda>s. s = ST_READY) (\<lambda>s. True) (-1) n \<lparr>vals = (\<lambda>n. [1, 3, 1] ! (n mod 3)), seen = 3 * j\<rparr>" for j
  proof (induction n arbitrary: j)
    case (Suc n)
    let ?r = "\<lparr>vals = (\<lambda>n. [1, 3, 1] ! (n mod 3)), seen = Suc (3 * j)\<rparr> :: vreg"
    have m: "Suc (3 * j) mod 3 = 1" "Suc (Suc (3 * j)) mod 3 = 2" by presburger+
    have "busy_wait (-1) ?r = Some (1, ?r\<lparr>seen := 3 * Suc j\<rparr>)"
      using busy_wait_ends [of ?r 1 "-1"] m by (auto simp: term_defs)
    then show ?case using Suc.IH [of "Suc j"] by (simp add: vread_def term_defs)
  qed simp
  from this [of 0] show ?thesis by (simp add: prtr_takes_def demo_prtr_def)
qed

lemma prtr_puts_prints_example: "\<exists>t'. prtr_puts UARM [0x48, 0x69, 0] demo_prtr = Some t' \<and> printed t' = [0x48, 0x69]"
proof -
  have "printed demo_prtr = []" by (simp add: printed_def demo_prtr_def)
  then show ?thesis using prtr_puts_prints [of "[0x48, 0x69]" demo_prtr UARM] demo_prtr_takes by (auto simp del: prtr_puts.simps)
qed

end
