(* ===== verification/Division.thy ===== *)
theory Division
  imports Prelude "HOL-Library.While_Combinator" "HOL-Library.Signed_Division"
begin

text \<open>
  \<open>uarm/libdiv.s\<close>: division in software, for a processor that has no divide instruction. The
  compiler calls \<open>__aeabi_uidivmod\<close> and its signed variant for the operators \<open>/\<close> and \<open>%\<close> of C, so
  the digits that \<open>convert\<close> of \<open>terminal.c\<close> prints on uARM come from here.

  A function's stack slots are its local variables (the comments name them): the dividend \<open>num\<close> at
  \<open>[fp, #-16]\<close>, the divisor \<open>den\<close> at \<open>[fp, #-20]\<close>, the address for the remainder at \<open>[fp, #-24]\<close>,
  the quotient \<open>res\<close> at \<open>[fp, #-8]\<close> and the current binary digit \<open>bit\<close> at \<open>[fp, #-12]\<close>. The two
  loops are \<open>while_option\<close>: \<open>None\<close> is a loop that never ends. The theorems show that they always do,
  and that the results are the quotient and the remainder of C.
\<close>

section \<open>The code\<close>

text \<open>\<open>.L5\<close>, \<open>.L4\<close>: double the divisor until its sign bit is set.\<close>

definition scale_loop :: "u32 \<times> u32 \<Rightarrow> (u32 \<times> u32) option" where
  "scale_loop = while_option (\<lambda>(den, b). 0 \<le>s den) (\<lambda>(den, b). (push_bit 1 den, push_bit 1 b))"

text \<open>\<open>.L8\<close>, \<open>.L7\<close>: subtract where the scaled divisor fits, and halve it.\<close>

definition subtract_step :: "u32 \<times> u32 \<times> u32 \<times> u32 \<Rightarrow> u32 \<times> u32 \<times> u32 \<times> u32" where
  "subtract_step = (\<lambda>(num, den, b, res).
     let (num, res) = (if den > num then (num, res) else (num - den, res + b))
     in (num, drop_bit 1 den, drop_bit 1 b, res))"

text \<open>\<open>.L6\<close>: as long as a binary digit is left.\<close>

definition subtract_loop :: "u32 \<times> u32 \<times> u32 \<times> u32 \<Rightarrow> (u32 \<times> u32 \<times> u32 \<times> u32) option" where
  "subtract_loop = while_option (\<lambda>(num, den, b, res). b \<noteq> 0) subtract_step"

definition udivmodsi4 :: "u32 \<Rightarrow> u32 \<Rightarrow> u32 \<Rightarrow> (u32 \<Rightarrow> u32) \<Rightarrow> (u32 \<times> (u32 \<Rightarrow> u32)) option" where
  "udivmodsi4 num den rem_p m =
     (if den = 0 then Some (0, m)
      else do {
        (den, b) \<leftarrow> scale_loop (den, 1);
        (num, den, b, res) \<leftarrow> subtract_loop (num, den, b, 0);
        Some (res, if rem_p = 0 then m else m(rem_p := num)) })"

definition aeabi_uidiv :: "u32 \<Rightarrow> u32 \<Rightarrow> u32 option" where
  "aeabi_uidiv num den = map_option fst (udivmodsi4 num den 0 (\<lambda>_. 0))"

text \<open>Both \<open>divmod\<close> functions multiply the quotient back to get the remainder, in \<open>r1\<close>.\<close>

definition aeabi_uidivmod :: "u32 \<Rightarrow> u32 \<Rightarrow> (u32 \<times> u32) option" where
  "aeabi_uidivmod num den = do {
     r0 \<leftarrow> aeabi_uidiv num den;
     Some (r0, num - r0 * den) }"

definition aeabi_idiv :: "s32 \<Rightarrow> s32 \<Rightarrow> s32 option" where
  "aeabi_idiv num den = do {
     let neg = (0 :: u32);
     let (num, neg) = (if 0 \<le>s num then (num, neg) else (- num, 1));
     let (den, neg) = (if 0 \<le>s den then (den, neg) else (- den, neg XOR 1));
     (res, _) \<leftarrow> udivmodsi4 num den 0 (\<lambda>_. 0);
     Some (if neg = 0 then res else - res) }"

definition aeabi_idivmod :: "s32 \<Rightarrow> s32 \<Rightarrow> (s32 \<times> s32) option" where
  "aeabi_idivmod num den = do {
     r0 \<leftarrow> aeabi_idiv num den;
     Some (r0, num - r0 * den) }"

section \<open>The loops\<close>

lemma word_of_unat: "of_nat (unat w) = (w :: u32)"
  by simp

lemma nonneg_iff: "0 \<le>s (w :: u32) \<longleftrightarrow> unat w < 2 ^ 31"
proof -
  have "unat w < 2 ^ 32" using unsigned_less [of w, where ?'a = nat] by simp
  then have "unat w div 2 ^ 31 < 2" by (simp add: div_less_iff_less_mult)
  then have "bit w 31 \<longleftrightarrow> unat w div 2 ^ 31 \<noteq> 0"
    using bit_unsigned_iff [of w 31, where ?'a = nat] by (auto simp: bit_iff_odd [of "unat w"] less_2_cases_iff)
  then show ?thesis using bit_last_iff [of w] by (auto simp: word_sle_eq div_eq_0_iff)
qed

lemma unat_double: "unat (w :: u32) < 2 ^ 31 \<Longrightarrow> unat (push_bit 1 w) = 2 * unat w"
  by (simp add: push_bit_eq_mult unat_word_ariths)

lemma unat_half: "unat (drop_bit (Suc 0) w :: u32) = unat w div 2"
  by (simp add: drop_bit_eq_div unat_div_distrib)

lemma scale_loop_spec:
  assumes "0 < unat den"
  shows "\<exists>k. scale_loop (den, b) = Some (push_bit k den, push_bit k b) \<and>
    unat (push_bit k den) = unat den * 2 ^ k \<and> 2 ^ 31 \<le> unat den * 2 ^ k"
  using assms
proof (induction "2 ^ 32 - unat den" arbitrary: den b rule: less_induct)
  case less
  show ?case
  proof (cases "0 \<le>s den")
    case True
    then have d: "unat den < 2 ^ 31" by (simp add: nonneg_iff)
    then have u: "unat (push_bit 1 den) = 2 * unat den" by (rule unat_double)
    have m: "2 ^ 32 - unat (push_bit 1 den) < 2 ^ 32 - unat den" "0 < unat (push_bit 1 den)"
      using less.prems d unfolding u by simp_all
    obtain k where k: "scale_loop (push_bit 1 den, push_bit 1 b) = Some (push_bit k (push_bit 1 den), push_bit k (push_bit 1 b))"
        "unat (push_bit k (push_bit 1 den)) = 2 * unat den * 2 ^ k" "2 ^ 31 \<le> 2 * unat den * 2 ^ k"
      using less.hyps [OF m, of "push_bit 1 b"] unfolding u by blast
    have "scale_loop (den, b) = scale_loop (push_bit 1 den, push_bit 1 b)"
      using True unfolding scale_loop_def by (subst while_option_unfold) simp
    then show ?thesis using k by (intro exI [of _ "Suc k"]) (simp add: algebra_simps)
  next
    case False
    then have "scale_loop (den, b) = Some (den, b)" unfolding scale_loop_def by (subst while_option_unfold) simp
    then show ?thesis using False by (intro exI [of _ 0]) (simp add: nonneg_iff)
  qed
qed

lemma subtract_loop_unfold:
  "subtract_loop (num, den, b, res) = (if b = 0 then Some (num, den, b, res) else
     if den > num then subtract_loop (num, drop_bit 1 den, drop_bit 1 b, res)
     else subtract_loop (num - den, drop_bit 1 den, drop_bit 1 b, res + b))"
  unfolding subtract_loop_def by (subst while_option_unfold) (simp add: subtract_step_def)

lemma subtract_loop_spec:
  assumes "unat den = d * 2 ^ k" and "unat b = 2 ^ k" and "unat num < 2 * unat den" and "0 < d"
  shows "\<exists>den'. subtract_loop (num, den, b, res) =
    Some (of_nat (unat num mod d), den', 0, res + of_nat (unat num div d))"
  using assms
proof (induction k arbitrary: num den b res)
  case 0
  have b: "b = 1" using 0(2) by (simp add: word_unat_eq_iff)
  show ?case
  proof (cases "den > num")
    case True
    then show ?thesis using 0 b by (simp add: subtract_loop_unfold word_less_nat_alt)
  next
    case False
    then have "unat num mod d = unat num - d" "unat num div d = 1"
      using 0 by (auto simp: word_less_nat_alt mod_if div_if)
    moreover have "unat (num - den) = unat num - d"
      using False 0(1) by (simp add: unat_sub not_less)
    then have "num - den = of_nat (unat num - d)" by (metis word_of_unat)
    ultimately show ?thesis using b False by (simp add: subtract_loop_unfold)
  qed
next
  case (Suc k)
  have h: "unat (drop_bit 1 den) = d * 2 ^ k" "unat (drop_bit 1 b) = 2 ^ k" "b \<noteq> 0"
    using Suc.prems(1,2) by (auto simp: unat_half simp del: unat_0 unat_eq_0)
  show ?case
  proof (cases "den > num")
    case True
    then have "unat num < 2 * unat (drop_bit 1 den)" using Suc.prems(1) h(1) by (simp add: word_less_nat_alt)
    from Suc.IH [OF h(1,2) this Suc.prems(4)] True h(3) show ?thesis by (simp add: subtract_loop_unfold [of num den])
  next
    case False
    have u: "unat (num - den) = unat num - d * 2 ^ Suc k"
      using False Suc.prems(1) by (simp add: unat_sub word_le_nat_alt word_less_nat_alt)
    have le: "d * 2 ^ Suc k \<le> unat num" using False Suc.prems(1) by (simp add: word_less_nat_alt)
    then obtain x where x: "unat num = d * 2 ^ Suc k + x" using le_Suc_ex by blast
    have "unat (num - den) < 2 * unat (drop_bit 1 den)" using u h(1) Suc.prems(1,3) le by simp
    from Suc.IH [OF h(1,2) this Suc.prems(4), of "res + b"]
    obtain den' where "subtract_loop (num, den, b, res) =
        Some (of_nat (x mod d), den', 0, res + b + of_nat (x div d))"
      using False h(3) u x by (auto simp: subtract_loop_unfold [of num den])
    moreover have "unat num mod d = x mod d" "unat num div d = 2 ^ Suc k + x div d"
      using x Suc.prems(4) by (simp_all add: mult.commute [of d])
    moreover have "b = 2 ^ Suc k" using Suc.prems(2) by (metis of_nat_numeral of_nat_power word_of_unat)
    ultimately show ?thesis by (simp add: add.assoc)
  qed
qed

section \<open>Quotient and remainder\<close>

lemma udivmodsi4_spec:
  "udivmodsi4 num den rem_p m = Some (num div den, if den = 0 \<or> rem_p = 0 then m else m(rem_p := num mod den))"
proof (cases "den = 0")
  case False
  then have d: "0 < unat den" by (simp add: unat_gt_0)
  obtain k where k: "scale_loop (den, 1) = Some (push_bit k den, push_bit k 1)"
      "unat (push_bit k den) = unat den * 2 ^ k" "2 ^ 31 \<le> unat den * 2 ^ k"
    using scale_loop_spec [OF d] by blast
  have lt: "unat den * 2 ^ k < 2 ^ 32" "unat num < 2 ^ 32"
    using unsigned_less [of "push_bit k den", where ?'a = nat] unsigned_less [of num, where ?'a = nat] k(2) by simp_all
  have "(2 :: nat) ^ k \<le> unat den * 2 ^ k" using d by simp
  then have "(2 :: nat) ^ k < 2 ^ 32" using lt(1) by linarith
  then have b: "unat (push_bit k 1 :: u32) = 2 ^ k"
    using unat_of_nat [of "2 ^ k", where ?'a = 32] by (simp add: push_bit_eq_mult)
  have "unat num < 2 * unat (push_bit k den)" using k(2,3) lt(2) by simp
  from subtract_loop_spec [OF k(2) b this d, of 0] obtain den' where
    "subtract_loop (num, push_bit k den, push_bit k 1, 0) =
       Some (of_nat (unat num mod unat den), den', 0, of_nat (unat num div unat den))" by auto
  moreover have "of_nat (unat num mod unat den) = num mod den" "of_nat (unat num div unat den) = num div den"
    by (metis word_of_unat unat_mod_distrib, metis word_of_unat unat_div_distrib)
  ultimately show ?thesis using False k(1) by (simp add: udivmodsi4_def)
qed (simp add: udivmodsi4_def)

text \<open>
  C37. Software division: for every dividend and divisor both loops of \<open>__udivmodsi4\<close> end, the
  function returns the quotient, and it stores the remainder where it was asked to; a division by zero
  returns zero and stores nothing. The two entry points that C's operators \<open>/\<close> and \<open>%\<close> on unsigned
  integers compile to return quotient and remainder, and the dividend as the remainder of a division
  by zero.
\<close>

theorem unsigned_division_correct:
  "udivmodsi4 num den rem_p m =
     Some (if den = 0 then 0 else num div den, if den = 0 \<or> rem_p = 0 then m else m(rem_p := num mod den)) \<and>
   aeabi_uidiv num den = Some (if den = 0 then 0 else num div den) \<and>
   aeabi_uidivmod num den = Some (if den = 0 then (0, num) else (num div den, num mod den))"
  by (simp add: udivmodsi4_spec aeabi_uidivmod_def aeabi_uidiv_def minus_div_mult_eq_mod)

section \<open>Signed division\<close>

definition magnitude :: "s32 \<Rightarrow> u32" where
  "magnitude w = (if 0 \<le>s w then w else - w)"

lemma uint_magnitude: "uint (magnitude w) = \<bar>sint w\<bar>"
proof -
  have s: "- (2 ^ 31) \<le> sint w" "sint w < 2 ^ 31" using sint_greater_eq [of w] sint_less [of w] by simp_all
  have "uint (word_of_int \<bar>sint w\<bar> :: u32) = \<bar>sint w\<bar>"
    unfolding uint_word_of_int_eq by (rule take_bit_int_eq_self) (use s in auto)
  moreover have "magnitude w = word_of_int \<bar>sint w\<bar>" by (simp add: magnitude_def word_sle_eq)
  ultimately show ?thesis by simp
qed

lemma magnitude_div: "magnitude n div magnitude d = word_of_int (\<bar>sint n\<bar> div \<bar>sint d\<bar>)"
  by (metis uint_div_distrib uint_magnitude word_of_int_uint)

lemma aeabi_idiv_spec: "aeabi_idiv n d = Some (word_of_int (sint n sdiv sint d))"
proof -
  have "aeabi_idiv n d = Some (if (sint n < 0) = (sint d < 0) then magnitude n div magnitude d
      else - (magnitude n div magnitude d))"
    by (simp add: aeabi_idiv_def udivmodsi4_spec magnitude_def word_sle_eq Let_def)
  also have "\<dots> = Some (word_of_int (sint n sdiv sint d))"
    by (auto simp: magnitude_div signed_divide_int_def sgn_if)
  finally show ?thesis .
qed

lemma sint_of_int_range: "- (2 ^ 31) \<le> x \<Longrightarrow> x < 2 ^ 31 \<Longrightarrow> sint (word_of_int x :: s32) = x"
  by transfer (simp add: signed_take_bit_int_eq_self)

lemma sdiv_overflow: "\<bar>a sdiv b\<bar> \<le> \<bar>a\<bar>" "a sdiv b = \<bar>a\<bar> \<Longrightarrow> a < 0 \<Longrightarrow> b = - 1" for a b :: int
proof -
  show "\<bar>a sdiv b\<bar> \<le> \<bar>a\<bar>" using sdiv_int_range [of a b] by auto
  assume h: "a sdiv b = \<bar>a\<bar>" "a < 0"
  have "\<bar>a\<bar> div \<bar>b\<bar> < \<bar>a\<bar>" if "1 < \<bar>b\<bar>" using that h(2) by (simp add: int_div_less_self)
  moreover have "\<bar>a\<bar> div \<bar>b\<bar> = \<bar>a\<bar>"
  proof -
    define x where "x = \<bar>a\<bar> div \<bar>b\<bar>"
    have "0 \<le> x" "- sgn b * x = \<bar>a\<bar>"
      using h by (simp_all add: x_def signed_divide_int_def pos_imp_zdiv_nonneg_iff div_int_pos_iff)
    then have "x = \<bar>a\<bar>" using h(2) by (auto simp: sgn_if split: if_splits)
    then show ?thesis by (simp add: x_def)
  qed
  ultimately have "\<bar>b\<bar> \<le> 1" by linarith
  then have "b = - 1 \<or> b = 0 \<or> b = 1" by auto
  then show "b = - 1" using h by (auto simp: signed_divide_int_def)
qed

text \<open>
  C38. The signed division of C on uARM: for every dividend and divisor \<open>__aeabi_idivmod\<close> ends and
  returns the quotient truncated towards zero and the remainder with the sign of the dividend. Both are
  in the range of \<open>int\<close> except for the one overflow of C, the least integer divided by \<open>-1\<close>, where
  the quotient wraps around to the least integer. Division by zero gives zero and the dividend.
\<close>

theorem signed_division_correct:
  "\<exists>q r. aeabi_idivmod n d = Some (q, r) \<and> aeabi_idiv n d = Some q \<and> sint r = sint n smod sint d \<and>
     (if sint n = - (2 ^ 31) \<and> sint d = - 1 then q = n else sint q = sint n sdiv sint d)"
proof -
  let ?q = "sint n sdiv sint d"
  have s: "- (2 ^ 31) \<le> sint n" "sint n < 2 ^ 31" "- (2 ^ 31) \<le> sint d" "sint d < 2 ^ 31"
    using sint_greater_eq [of n] sint_less [of n] sint_greater_eq [of d] sint_less [of d] by simp_all
  have "\<bar>sint n smod sint d\<bar> < 2 ^ 31 \<or> sint n smod sint d = sint n"
    using smod_int_range [of "sint d" "sint n"] s by (cases "sint d = 0") auto
  then have r: "sint (word_of_int (sint n smod sint d) :: s32) = sint n smod sint d"
    using s by (intro sint_of_int_range) auto
  have e: "n - word_of_int ?q * d = word_of_int (sint n smod sint d)"
  proof -
    have "word_of_int (sint n - ?q * sint d) = n - word_of_int ?q * d" by simp
    then show ?thesis by (simp only: minus_sdiv_mult_eq_smod)
  qed
  have q: "sint (word_of_int ?q :: s32) = ?q" if "\<not> (sint n = - (2 ^ 31) \<and> sint d = - 1)"
  proof (rule sint_of_int_range)
    show "- (2 ^ 31) \<le> ?q" using sdiv_overflow(1) [of "sint n" "sint d"] s by linarith
    show "?q < 2 ^ 31" using sdiv_overflow [of "sint n" "sint d"] s that by linarith
  qed
  have "word_of_int ?q = n" if "sint n = - (2 ^ 31)" "sint d = - 1"
  proof -
    have "?q = 2 ^ 31" using that by simp
    moreover have "n = word_of_int (- (2 ^ 31))" unfolding that(1) [symmetric] by simp
    ultimately show ?thesis by simp
  qed
  then show ?thesis using q r e by (auto simp: aeabi_idivmod_def aeabi_idiv_spec)
qed

end
