(* ===== verification/Tlb.thy ===== *)
theory Tlb
  imports Bios
begin

text \<open>
  The part of \<open>uarm/BIOS.s\<close> that handles aborts: an abort without virtual memory is a trap, a TLB
  exception goes to the kernel, and a TLB miss is served by the BIOS itself, which looks for the page in
  the page table of the address space and writes the entry it finds into the TLB.

  The write into the TLB is the coprocessor's; the model returns the pair of registers it writes,
  EntryHi and EntryLo.
\<close>

section \<open>The code\<close>

definition SEGTBL_BASE :: u32 where "SEGTBL_BASE = 0x7600"
definition TLB_MAGICNO :: u32 where "TLB_MAGICNO = 0x2A"
definition RAMTOP_REG :: u32 where "RAMTOP_REG = 0x2D4"
definition ASID_MASK :: u32 where "ASID_MASK = 0xFE0"
definition VADDR_MASK_a :: u32 where "VADDR_MASK_a = 0xFF000000"
definition VADDR_MASK_b :: u32 where "VADDR_MASK_b = 0x00FF0000"
definition VADDR_MASK_c :: u32 where "VADDR_MASK_c = 0x0000F000"
definition GLOBAL_MASK :: u32 where "GLOBAL_MASK = 0x100"

lemmas tlb_defs = SEGTBL_BASE_def TLB_MAGICNO_def RAMTOP_REG_def ASID_MASK_def VADDR_MASK_a_def VADDR_MASK_b_def
  VADDR_MASK_c_def GLOBAL_MASK_def

text \<open>The conditions \<open>lt\<close>, \<open>le\<close> and \<open>gt\<close> compare signed numbers.\<close>

definition slt :: "u32 \<Rightarrow> u32 \<Rightarrow> bool" where "slt a b \<longleftrightarrow> sint a < sint b"

datatype page_walk = BadSegTbl arm | BadPagTbl arm | PteMiss arm | PteFound arm

definition TLB_LOOP_entry :: "arm \<Rightarrow> arm" where
  "TLB_LOOP_entry s = run [LDM 1 [5, 6], ADD 1 1 8] s"

definition TLB_LOOP_match :: "arm \<Rightarrow> bool \<times> arm" where
  "TLB_LOOP_match s =
     (let s = AND_r 7 5 8 s in
      if rget 7 s \<noteq> rget 3 s then (False, s)
      else let s = AND_i 7 5 ASID_MASK s in
      if rget 7 s = rget 4 s then (True, s)
      else let s = AND_i 7 6 GLOBAL_MASK s in
      (rget 7 s \<noteq> 0, s))"

partial_function (option) TLB_LOOP :: "arm \<Rightarrow> page_walk option" where
  [code]: "TLB_LOOP s =
     (let s = TLB_LOOP_entry s in
      if slt (rget 2 s) (rget 1 s) then Some (PteMiss s)
      else let (found, s) = TLB_LOOP_match s in
      if found then Some (PteFound s) else TLB_LOOP s)"

definition SUBgt :: "nat \<Rightarrow> arm \<Rightarrow> arm" where
  "SUBgt n s = (if slt 0 (rget n s) then SUB n n 1 s else s)"

definition TLB_REFILL :: "arm \<Rightarrow> page_walk option" where
  "TLB_REFILL s =
     (let s = run [MRC c_control 0, BIC 0 0 1, MCR c_control 0,
          MRC c_entryhi 0, AND_i 1 0 4064, LSR 1 1 5, LSR 2 0 30, SUBgt 2,
          MOV 4 4, MUL 3 2 4, MOV 4 12, MUL 5 1 4, ADD_r 3 3 5, ADD 3 3 SEGTBL_BASE,
          LDR 1 3 0] s in
      if \<not> slt ROMSTACK_TOP (rget 1 s) then Some (BadSegTbl s)
      else let s = AND_i 2 1 3 s in
      if rget 2 s \<noteq> 0 then Some (BadSegTbl s)
      else let s = run [LDR 2 1 0, ADD 1 1 4, LSR 3 2 24] s in
      if rget 3 s \<noteq> TLB_MAGICNO then Some (BadPagTbl s)
      else let s = run [MOV 4 0xFF0, ORR 4 4 0xFF000, ORR 4 4 0xF, AND_r 3 2 4, MOV 4 8, MUL 2 4 3, ADD_r 2 2 1,
          MOV 4 RAMTOP_REG, LDR 4 4 0, ADD 4 4 ROMSTACK_TOP] s in
      if slt (rget 4 s) (rget 2 s) then Some (BadPagTbl s)
      else TLB_LOOP (run [MOV 8 VADDR_MASK_a, ORR 8 8 VADDR_MASK_b, ORR 8 8 VADDR_MASK_c, AND_r 3 8 0, AND_i 4 0 ASID_MASK] s))"

definition TLB_ERR :: "u32 \<Rightarrow> (arm \<Rightarrow> arm) list" where
  "TLB_ERR code = [MRC c_cause 0, AND_i 0 0 0xFF000000, ORR 0 0 code, MCR c_cause 0]"

definition TLB_CONT :: "arm \<Rightarrow> arm" where
  "TLB_CONT s = run ([MOV 0 EXCV_BASE_UARM, ADD 0 0 EXCV_TLB_NEW] @ BIOS_LDST) s"

definition TLB_LOOP_FOUND :: "arm \<Rightarrow> (u32 \<times> u32) \<times> arm" where
  "TLB_LOOP_FOUND s =
     (let s = MCR c_entrylo 6 s in
      ((cp15 s c_entryhi, cp15 s c_entrylo), run ([MOV 0 EXCV_BASE_UARM, ADD 0 0 EXCV_TLB_OLD] @ BIOS_LDST) s))"

text \<open>\<open>SUBne\<close>, \<open>SUBeq\<close>: the return address by the kind of the abort.\<close>

definition fix_return :: "arm \<Rightarrow> arm" where
  "fix_return s = (if rget 0 s = 0xD then SUB 14 14 8 s else SUB 14 14 4 s)"

definition TLB_H_save :: "u32 \<Rightarrow> (arm \<Rightarrow> arm) list" where
  "TLB_H_save link =
     [MOV 13 ROMSTACK_TOP, ADD 13 13 ROMSTACK_OFF, STR_w 0 13 0, ADD 13 13 4, LDR 0 13 8, fix_return,
      MOV 13 ROMSTACK_TOP, ADD 13 13 ROMSTACK_OFF, ADD 13 13 4, STR_w 14 13 0, ADD 13 13 4, MRS_CPSR 0, STR_w 0 13 0,
      MOV 0 EXCV_BASE_UARM, ADD 0 0 EXCV_TLB_OLD] @ SAVE_OLD_STATE link @ [MRC c_cause 0, AND_i 0 0 0xFFFFFF]"

text \<open>The entry written into the TLB, if any, and the state in which the processor goes on.\<close>

definition TLB_H_cont :: "arm \<Rightarrow> ((u32 \<times> u32) option \<times> arm) option" where
  "TLB_H_cont s =
     (if slt (rget 0 s) 12 \<or> slt 13 (rget 0 s) then Some (None, TLB_CONT s)
      else case TLB_REFILL s of
        None \<Rightarrow> None
      | Some (BadSegTbl s) \<Rightarrow> Some (None, TLB_CONT (run (TLB_ERR 8) s))
      | Some (BadPagTbl s) \<Rightarrow> Some (None, TLB_CONT (run (TLB_ERR 9) s))
      | Some (PteMiss s) \<Rightarrow> Some (None, TLB_CONT (run (TLB_ERR 11) s))
      | Some (PteFound s) \<Rightarrow> (case TLB_LOOP_FOUND s of (e, s) \<Rightarrow> Some (Some e, s)))"

definition TLB_H :: "u32 \<Rightarrow> arm \<Rightarrow> ((u32 \<times> u32) option \<times> arm) option" where
  "TLB_H link s = TLB_H_cont (run (TLB_H_save link) s)"

definition DP_CONT :: "u32 \<Rightarrow> arm \<Rightarrow> ((u32 \<times> u32) option \<times> arm) option" where
  "DP_CONT link s =
     (let s = run [MRC c_cause 13, AND_i 13 13 0xFFFFFF] s in
      if slt (rget 13 s) 8 then Some (None, run (UNDEF_H link) s)
      else TLB_H link s)"

definition abort_kind :: "u32 \<Rightarrow> (arm \<Rightarrow> arm) list" where
  "abort_kind code = [MOV 13 ROMSTACK_TOP, ADD 13 13 ROMSTACK_OFF, STR_w 0 13 0, MOV 0 code, STR_w 0 13 0xC, LDR 0 13 0]"

definition DATAABT_H :: "u32 \<Rightarrow> arm \<Rightarrow> ((u32 \<times> u32) option \<times> arm) option" where
  "DATAABT_H link s = DP_CONT link (run (abort_kind 0xD) s)"

definition PREFABT_H :: "u32 \<Rightarrow> arm \<Rightarrow> ((u32 \<times> u32) option \<times> arm) option" where
  "PREFABT_H link s = DP_CONT link (run (abort_kind 0) s)"

section \<open>The page table\<close>

text \<open>The page of \<open>eh\<close> in a page table entry: the same virtual page, in the same address space or global.\<close>

definition pte_matches :: "u32 \<Rightarrow> u32 \<times> u32 \<Rightarrow> bool" where
  "pte_matches eh = (\<lambda>(hi, lo). hi AND 0xFFFFF000 = eh AND 0xFFFFF000 \<and> (hi AND ASID_MASK = eh AND ASID_MASK \<or> lo AND GLOBAL_MASK \<noteq> 0))"

definition pte_at :: "(u32 \<Rightarrow> u32) \<Rightarrow> u32 \<Rightarrow> u32 \<times> u32" where
  "pte_at m a = (m a, m (a + 4))"

fun page_entries :: "(u32 \<Rightarrow> u32) \<Rightarrow> u32 \<Rightarrow> nat \<Rightarrow> (u32 \<times> u32) list" where
  "page_entries m a 0 = []"
| "page_entries m a (Suc n) = pte_at m a # page_entries m (a + 8) n"

lemma sint_small: "unat a < 2 ^ 31 \<Longrightarrow> sint (a :: u32) = int (unat a)"
proof -
  assume "unat a < 2 ^ 31"
  then have "int (unat a) < int (2 ^ 31)" by (simp only: of_nat_less_iff)
  moreover have "- (2 ^ 31) \<le> uint a" by (rule order_trans [OF _ uint_ge_0]) simp
  ultimately show ?thesis by (simp add: sint_uint signed_take_bit_int_eq_self)
qed

lemma slt_unat: "unat a < 2 ^ 31 \<Longrightarrow> unat b < 2 ^ 31 \<Longrightarrow> slt a b \<longleftrightarrow> a < b"
  by (simp add: slt_def sint_small word_less_def)

lemma sint_large: "2 ^ 31 \<le> unat a \<Longrightarrow> sint (a :: u32) < 0"
proof -
  assume "2 ^ 31 \<le> unat a"
  then have "int (2 ^ 31) \<le> int (unat a)" by (simp only: of_nat_le_iff)
  moreover have "uint a < 2 ^ 32" using uint_lt2p [of a] by simp
  ultimately have "uint a div 2 ^ 31 = 1" by (intro int_div_pos_eq [of _ _ _ "uint a - 2 ^ 31"]) simp_all
  then show ?thesis by (simp add: sint_uint bit_iff_odd)
qed

lemma slt_above: "unat b < 2 ^ 31 \<Longrightarrow> slt b p \<longleftrightarrow> b < p \<and> p < 0x80000000"
proof (cases "unat p < 2 ^ 31")
  case True
  then show "unat b < 2 ^ 31 \<Longrightarrow> ?thesis" using slt_unat [of b p] by (simp add: word_less_nat_alt)
next
  case False
  assume "unat b < 2 ^ 31"
  then have "0 \<le> sint b" by (simp add: sint_small)
  moreover have "sint p < 0" by (rule sint_large) (use False in simp)
  ultimately show ?thesis using False by (simp add: slt_def word_less_nat_alt)
qed

lemma slt_code:
  assumes "unat b < 2 ^ 31"
  shows "slt (x AND 0xFFFFFF) b \<longleftrightarrow> x AND 0xFFFFFF < b" "slt b (x AND 0xFFFFFF) \<longleftrightarrow> b < x AND 0xFFFFFF"
proof -
  have "unat (x AND 0xFFFFFF) \<le> unat (0xFFFFFF :: u32)" using word_and_le1 [of x "0xFFFFFF"] by (simp only: word_le_nat_alt)
  then have "unat (x AND 0xFFFFFF) < 2 ^ 31" by simp
  then show "slt (x AND 0xFFFFFF) b \<longleftrightarrow> x AND 0xFFFFFF < b" "slt b (x AND 0xFFFFFF) \<longleftrightarrow> b < x AND 0xFFFFFF"
    using assms slt_unat by blast+
qed

lemma loop_step:
  assumes g: "g 8 = 0xFFFFF000" "g 3 = eh AND 0xFFFFF000" "g 4 = eh AND ASID_MASK"
  shows "\<exists>g'. TLB_LOOP (s\<lparr>gpr := g\<rparr>) = (if slt (g 2) (g 1 + 8) then Some (PteMiss (s\<lparr>gpr := g'\<rparr>))
      else if pte_matches eh (pte_at (ram s) (g 1)) then Some (PteFound (s\<lparr>gpr := g'\<rparr>))
      else TLB_LOOP (s\<lparr>gpr := g'\<rparr>)) \<and>
    g' 1 = g 1 + 8 \<and> (g' 5, g' 6) = pte_at (ram s) (g 1) \<and> (\<forall>k. k \<notin> {1, 5, 6, 7} \<longrightarrow> g' k = g k)"
proof -
  define e where "e = g(5 := ram s (g 1), 6 := ram s (g 1 + 4), 1 := g 1 + 8)"
  have entry: "TLB_LOOP_entry (s\<lparr>gpr := g\<rparr>) = s\<lparr>gpr := e\<rparr>"
    by (simp add: TLB_LOOP_entry_def arm_defs e_def)
  have "\<exists>v. TLB_LOOP_match (s\<lparr>gpr := e\<rparr>) = (pte_matches eh (pte_at (ram s) (g 1)), s\<lparr>gpr := e(7 := v)\<rparr>)"
    by (auto simp: TLB_LOOP_match_def arm_defs e_def pte_matches_def pte_at_def g Let_def)
  then obtain v where mt: "TLB_LOOP_match (s\<lparr>gpr := e\<rparr>) = (pte_matches eh (pte_at (ram s) (g 1)), s\<lparr>gpr := e(7 := v)\<rparr>)" ..
  have "TLB_LOOP (s\<lparr>gpr := g\<rparr>) = (if slt (g 2) (g 1 + 8) then Some (PteMiss (s\<lparr>gpr := e\<rparr>))
      else if pte_matches eh (pte_at (ram s) (g 1)) then Some (PteFound (s\<lparr>gpr := e(7 := v)\<rparr>))
      else TLB_LOOP (s\<lparr>gpr := e(7 := v)\<rparr>))"
    by (subst TLB_LOOP.simps) (simp add: entry mt Let_def, simp add: rget_def e_def)
  moreover have "h 1 = g 1 + 8 \<and> (h 5, h 6) = pte_at (ram s) (g 1) \<and> (\<forall>k. k \<notin> {1, 5, 6, 7} \<longrightarrow> h k = g k)"
    if "h = e \<or> h = e(7 := v)" for h using that by (auto simp: e_def pte_at_def)
  ultimately show ?thesis by (cases "slt (g 2) (g 1 + 8)") auto
qed

text \<open>The outcome of the search and the registers it leaves behind.\<close>

lemma loop_spec:
  assumes g: "g 8 = 0xFFFFF000" "g 3 = eh AND 0xFFFFF000" "g 4 = eh AND ASID_MASK"
    and a: "g 1 = a" "g 2 = a + 8 * of_nat n" "unat a + 8 * n + 8 < 2 ^ 31"
  shows "\<exists>g'. TLB_LOOP (s\<lparr>gpr := g\<rparr>) = Some (case find (pte_matches eh) (page_entries (ram s) a n) of
      None \<Rightarrow> PteMiss (s\<lparr>gpr := g'\<rparr>) | Some e \<Rightarrow> PteFound (s\<lparr>gpr := g'(5 := fst e, 6 := snd e)\<rparr>))"
  using assms
proof (induction n arbitrary: g a)
  case 0
  have "unat (a + 8) = unat a + 8" using 0(6) by (simp add: unat_word_ariths)
  then have "slt (g 2) (g 1 + 8)" using 0 by (simp add: slt_unat word_less_nat_alt)
  then show ?case using loop_step [OF 0(1-3), of s] by auto
next
  case (Suc n)
  have u: "unat (a + 8) = unat a + 8" "unat (a + 8 * of_nat (Suc n)) = unat a + 8 * Suc n"
    using Suc.prems(6) by (simp_all add: unat_word_ariths unat_of_nat)
  then have ns: "\<not> slt (g 2) (g 1 + 8)" using Suc.prems by (simp add: slt_unat word_less_nat_alt)
  obtain g' where l: "TLB_LOOP (s\<lparr>gpr := g\<rparr>) =
      (if pte_matches eh (pte_at (ram s) a) then Some (PteFound (s\<lparr>gpr := g'\<rparr>)) else TLB_LOOP (s\<lparr>gpr := g'\<rparr>))"
    and g': "g' 1 = a + 8" "(g' 5, g' 6) = pte_at (ram s) a" "\<forall>k. k \<notin> {1, 5, 6, 7} \<longrightarrow> g' k = g k"
    using loop_step [OF Suc.prems(1-3), of s] ns Suc.prems(4) by auto
  show ?case
  proof (cases "pte_matches eh (pte_at (ram s) a)")
    case True
    have "g'(5 := fst (pte_at (ram s) a), 6 := snd (pte_at (ram s) a)) = g'" using g'(2) by (auto simp: fun_eq_iff pte_at_def)
    then show ?thesis using l True by (auto intro: exI [of _ g'])
  next
    case False
    have "g' 2 = (a + 8) + 8 * of_nat n" using g'(3) Suc.prems(5) by (simp add: algebra_simps)
    moreover have "unat (a + 8) + 8 * n + 8 < 2 ^ 31" using Suc.prems(6) u(1) by simp
    ultimately show ?thesis
      using Suc.IH [of g' "a + 8"] g'(1,3) Suc.prems(1-3) False l by simp
  qed
qed

section \<open>The refill\<close>

text \<open>
  What the tables in memory say about the page of \<open>eh\<close>. Every address space has three page tables, for
  the segments 0 and 1 together, 2 and 3; a table is a header and its entries. The codes of the errors
  are those of \<open>uARMconst.h\<close>.
\<close>

definition page_table_slot :: "u32 \<Rightarrow> u32" where
  "page_table_slot eh = SEGTABLE_START + 12 * ENTRYHI_ASID_GET eh +
     4 * (if ENTRYHI_SEGNO_GET eh = 0 then 0 else ENTRYHI_SEGNO_GET eh - 1)"

definition page_lookup :: "(u32 \<Rightarrow> u32) \<Rightarrow> u32 \<Rightarrow> u32 + (u32 \<times> u32)" where
  "page_lookup m eh =
     (let p = m (page_table_slot eh); n = unat (m p AND 0xFFFFF) in
      if p \<le> 0x8000 \<or> 0x80000000 \<le> p \<or> p AND 3 \<noteq> 0 then Inl EXC_BADSEGTBL
      else if drop_bit 24 (m p) \<noteq> PAGE_TBL_MAGICNO \<or> unat (m BUS_REG_RAM_SIZE_UARM) + 0x8000 < unat p + 4 + 8 * n then Inl EXC_BADPAGTBL
      else case find (pte_matches eh) (page_entries m (p + 4) n) of None \<Rightarrow> Inl EXC_PTEMISS | Some e \<Rightarrow> Inr e)"

text \<open>Memory and page tables end below the second half of the address space, whose addresses are negative.\<close>

definition low_memory :: "(u32 \<Rightarrow> u32) \<Rightarrow> u32 \<Rightarrow> bool" where
  "low_memory m eh \<longleftrightarrow> unat (m BUS_REG_RAM_SIZE_UARM) < 0x7F000000 \<and> m (page_table_slot eh) \<notin> {0x7F000000 ..< 0x80000000}"

lemma segno_shift: "drop_bit 30 eh = ENTRYHI_SEGNO_GET eh"
  by (rule bit_word_eqI) (auto simp: segno.get_bit bit_drop_bit_eq dest: bit_imp_le_length)

lemma segno_pos: "slt 0 (ENTRYHI_SEGNO_GET eh) \<longleftrightarrow> ENTRYHI_SEGNO_GET eh \<noteq> 0"
  using segno.get_range [of eh] by (subst slt_unat) (simp_all add: word_neq_0_conv)

fun walk_of :: "u32 + (u32 \<times> u32) \<Rightarrow> arm \<Rightarrow> page_walk" where
  "walk_of (Inl c) s = (if c = EXC_BADSEGTBL then BadSegTbl s else if c = EXC_BADPAGTBL then BadPagTbl s else PteMiss s)"
| "walk_of (Inr e) s = PteFound (s\<lparr>gpr := (gpr s)(5 := fst e, 6 := snd e)\<rparr>)"

text \<open>The stretches of the refill between its tests.\<close>

lemma table_head:
  "run [LDR 2 1 0, ADD 1 1 4, LSR 3 2 24] s = s\<lparr>gpr := (gpr s)(2 := ram s (gpr s 1), 1 := gpr s 1 + 4, 3 := drop_bit 24 (ram s (gpr s 1)))\<rparr>"
  by (simp add: arm_defs fun_upd_twist)

lemma table_bounds:
  "run [MOV 4 0xFF0, ORR 4 4 0xFF000, ORR 4 4 0xF, AND_r 3 2 4, MOV 4 8, MUL 2 4 3, ADD_r 2 2 1,
      MOV 4 RAMTOP_REG, LDR 4 4 0, ADD 4 4 ROMSTACK_TOP] s =
   s\<lparr>gpr := (gpr s)(3 := gpr s 2 AND 0xFFFFF, 2 := gpr s 1 + 8 * (gpr s 2 AND 0xFFFFF), 4 := ram s BUS_REG_RAM_SIZE_UARM + 0x8000)\<rparr>"
  by (simp add: arm_defs fun_upd_twist ROMSTACK_TOP_def RAMTOP_REG_def BUS_REG_RAM_SIZE_UARM_def add.commute)

lemma search_keys:
  "run [MOV 8 VADDR_MASK_a, ORR 8 8 VADDR_MASK_b, ORR 8 8 VADDR_MASK_c, AND_r 3 8 0, AND_i 4 0 ASID_MASK] s =
   s\<lparr>gpr := (gpr s)(8 := 0xFFFFF000, 3 := 0xFFFFF000 AND gpr s 0, 4 := gpr s 0 AND ASID_MASK)\<rparr>"
  by (simp add: arm_defs fun_upd_twist VADDR_MASK_a_def VADDR_MASK_b_def VADDR_MASK_c_def)

text \<open>The tests of the refill, one after the other, with the registers left at each exit.\<close>

lemma refill_run:
  fixes s eh p top
  defines "eh \<equiv> cp15 s c_entryhi" and "p \<equiv> ram s (page_table_slot eh)" and "top \<equiv> ram s BUS_REG_RAM_SIZE_UARM + 0x8000"
    and "t \<equiv> s\<lparr>cp15 := (cp15 s)(c_control := cp15 s c_control AND NOT 1)\<rparr>"
  shows "\<exists>g g1 g2 g3 g4. TLB_REFILL s =
     (if \<not> slt 0x8000 p then Some (BadSegTbl (t\<lparr>gpr := g\<rparr>))
      else if p AND 3 \<noteq> 0 then Some (BadSegTbl (t\<lparr>gpr := g1\<rparr>))
      else if drop_bit 24 (ram s p) \<noteq> TLB_MAGICNO then Some (BadPagTbl (t\<lparr>gpr := g2\<rparr>))
      else if slt top (p + 4 + 8 * (ram s p AND 0xFFFFF)) then Some (BadPagTbl (t\<lparr>gpr := g3\<rparr>))
      else TLB_LOOP (t\<lparr>gpr := g4\<rparr>)) \<and>
    g4 8 = 0xFFFFF000 \<and> g4 3 = eh AND 0xFFFFF000 \<and> g4 4 = eh AND ASID_MASK \<and> g4 1 = p + 4 \<and>
    g4 2 = p + 4 + 8 * (ram s p AND 0xFFFFF)"
proof -
  define h where "h = run [MRC c_control 0, BIC 0 0 1, MCR c_control 0,
          MRC c_entryhi 0, AND_i 1 0 4064, LSR 1 1 5, LSR 2 0 30, SUBgt 2,
          MOV 4 4, MUL 3 2 4, MOV 4 12, MUL 5 1 4, ADD_r 3 3 5, ADD 3 3 SEGTBL_BASE, LDR 1 3 0] s"
  have "\<exists>g. h = t\<lparr>gpr := g\<rparr> \<and> g 0 = eh \<and> g 1 = p"
    by (auto simp: h_def t_def p_def arm_defs SUBgt_def segno_shift segno_pos eh_def tlb_defs page_table_slot_def SEGTABLE_START_def
        ENTRYHI_ASID_GET_def algebra_simps)
  then obtain g where g: "h = t\<lparr>gpr := g\<rparr>" "g 0 = eh" "g 1 = p" by blast
  define g2 where "g2 = g(2 := ram s p, 1 := p + 4, 3 := drop_bit 24 (ram s p))"
  define g3 where "g3 = g(1 := p + 4, 3 := ram s p AND 0xFFFFF, 2 := p + 4 + 8 * (ram s p AND 0xFFFFF), 4 := top)"
  define g4 where "g4 = g3(8 := 0xFFFFF000, 3 := 0xFFFFF000 AND eh, 4 := eh AND ASID_MASK)"
  have e1: "AND_i 2 1 3 h = t\<lparr>gpr := g(2 := p AND 3)\<rparr>" using g by (simp add: AND_i_def rget_def rset_def)
  have e2: "run [LDR 2 1 0, ADD 1 1 4, LSR 3 2 24] (t\<lparr>gpr := g(2 := p AND 3)\<rparr>) = t\<lparr>gpr := g2\<rparr>"
    unfolding table_head using g by (simp add: g2_def t_def)
  have e3: "run [MOV 4 0xFF0, ORR 4 4 0xFF000, ORR 4 4 0xF, AND_r 3 2 4, MOV 4 8, MUL 2 4 3, ADD_r 2 2 1,
      MOV 4 RAMTOP_REG, LDR 4 4 0, ADD 4 4 ROMSTACK_TOP] (t\<lparr>gpr := g2\<rparr>) = t\<lparr>gpr := g3\<rparr>"
    unfolding table_bounds by (simp add: g3_def g2_def t_def top_def fun_upd_twist)
  have e4: "run [MOV 8 VADDR_MASK_a, ORR 8 8 VADDR_MASK_b, ORR 8 8 VADDR_MASK_c, AND_r 3 8 0, AND_i 4 0 ASID_MASK]
      (t\<lparr>gpr := g3\<rparr>) = t\<lparr>gpr := g4\<rparr>"
    unfolding search_keys using g by (simp add: g4_def g3_def)
  have R: "TLB_REFILL s =
     (if \<not> slt 0x8000 p then Some (BadSegTbl (t\<lparr>gpr := g\<rparr>))
      else if p AND 3 \<noteq> 0 then Some (BadSegTbl (t\<lparr>gpr := g(2 := p AND 3)\<rparr>))
      else if drop_bit 24 (ram s p) \<noteq> TLB_MAGICNO then Some (BadPagTbl (t\<lparr>gpr := g2\<rparr>))
      else if slt top (p + 4 + 8 * (ram s p AND 0xFFFFF)) then Some (BadPagTbl (t\<lparr>gpr := g3\<rparr>))
      else TLB_LOOP (t\<lparr>gpr := g4\<rparr>))"
    unfolding TLB_REFILL_def h_def [symmetric] Let_def e1 e2 e3 e4
    by (simp add: g(1) g(3) [unfolded One_nat_def] g2_def g3_def rget_def ROMSTACK_TOP_def)
  show ?thesis
    by (intro exI [of _ g] exI [of _ "g(2 := p AND 3)"] exI [of _ g2] exI [of _ g3] exI [of _ g4] conjI R)
      (simp_all add: g4_def g3_def g(3) and.commute)
qed

text \<open>The tests of \<open>page_lookup\<close> are the signed comparisons of the refill, and its addresses do not wrap.\<close>

lemma lookup_tests:
  fixes s eh
  defines "p \<equiv> ram s (page_table_slot eh)" and "n \<equiv> unat (ram s (ram s (page_table_slot eh)) AND 0xFFFFF)"
    and "ramtop \<equiv> ram s BUS_REG_RAM_SIZE_UARM + 0x8000"
  shows "ram s p AND 0xFFFFF = of_nat n"
    "low_memory (ram s) eh \<Longrightarrow> slt 0x8000 p \<Longrightarrow> unat (p + 4) = unat p + 4"
    "low_memory (ram s) eh \<Longrightarrow> slt 0x8000 p \<Longrightarrow> unat (p + 4 + 8 * of_nat n) = unat p + 4 + 8 * n"
    "low_memory (ram s) eh \<Longrightarrow> slt 0x8000 p \<Longrightarrow> unat p + 12 + 8 * n < 2 ^ 31"
    "low_memory (ram s) eh \<Longrightarrow> page_lookup (ram s) eh = (if \<not> slt 0x8000 p \<or> p AND 3 \<noteq> 0 then Inl EXC_BADSEGTBL
      else if drop_bit 24 (ram s p) \<noteq> TLB_MAGICNO \<or> slt ramtop (p + 4 + 8 * of_nat n) then Inl EXC_BADPAGTBL
      else case find (pte_matches eh) (page_entries (ram s) (p + 4) n) of None \<Rightarrow> Inl EXC_PTEMISS | Some e \<Rightarrow> Inr e)"
proof -
  have s8: "slt 0x8000 p \<longleftrightarrow> \<not> (p \<le> 0x8000 \<or> 0x80000000 \<le> p)" by (subst slt_above) auto
  have "ram s p AND 0xFFFFF = take_bit 20 (ram s p)" by (simp add: take_bit_eq_mask mask_eq_exp_minus_1)
  then have "n = take_bit 20 (unat (ram s p))" by (simp only: n_def p_def unsigned_take_bit_eq)
  then have n: "n < 2 ^ 20" by (simp only: take_bit_nat_less_exp)
  show "ram s p AND 0xFFFFF = of_nat n" by (simp add: n_def p_def)
  assume low: "low_memory (ram s) eh"
  have u: "unat (p + 4) = unat p + 4" "unat (p + 4 + 8 * of_nat n) = unat p + 4 + 8 * n" "unat p + 12 + 8 * n < 2 ^ 31" if "slt 0x8000 p"
  proof -
    have "p < 0x7F000000" using low that s8 by (auto simp: low_memory_def p_def)
    then have "unat p < 0x7F000000" by (simp add: word_less_nat_alt)
    then show "unat (p + 4) = unat p + 4" "unat (p + 4 + 8 * of_nat n) = unat p + 4 + 8 * n" "unat p + 12 + 8 * n < 2 ^ 31"
      using n by (simp_all add: unat_word_ariths unat_of_nat)
  qed
  show "slt 0x8000 p \<Longrightarrow> unat (p + 4) = unat p + 4" "slt 0x8000 p \<Longrightarrow> unat (p + 4 + 8 * of_nat n) = unat p + 4 + 8 * n"
    "slt 0x8000 p \<Longrightarrow> unat p + 12 + 8 * n < 2 ^ 31" by (erule u)+
  have rt: "unat ramtop = unat (ram s BUS_REG_RAM_SIZE_UARM) + 0x8000" "unat ramtop < 2 ^ 31"
    using low by (simp_all add: ramtop_def low_memory_def unat_word_ariths)
  have "slt ramtop (p + 4 + 8 * of_nat n) \<longleftrightarrow> unat (ram s BUS_REG_RAM_SIZE_UARM) + 0x8000 < unat p + 4 + 8 * n" if "slt 0x8000 p"
    using rt u [OF that] by (simp add: slt_unat word_less_nat_alt)
  then show "page_lookup (ram s) eh = (if \<not> slt 0x8000 p \<or> p AND 3 \<noteq> 0 then Inl EXC_BADSEGTBL
      else if drop_bit 24 (ram s p) \<noteq> TLB_MAGICNO \<or> slt ramtop (p + 4 + 8 * of_nat n) then Inl EXC_BADPAGTBL
      else case find (pte_matches eh) (page_entries (ram s) (p + 4) n) of None \<Rightarrow> Inl EXC_PTEMISS | Some e \<Rightarrow> Inr e)"
    unfolding page_lookup_def Let_def p_def [symmetric] n_def [folded p_def, symmetric] by (simp add: s8 TLB_MAGICNO_def PAGE_TBL_MAGICNO_def)
qed

lemma refill_spec:
  assumes low: "low_memory (ram s) (cp15 s c_entryhi)"
  shows "\<exists>g'. TLB_REFILL s = Some (walk_of (page_lookup (ram s) (cp15 s c_entryhi))
    (s\<lparr>cp15 := (cp15 s)(c_control := cp15 s c_control AND NOT 1), gpr := g'\<rparr>))"
proof -
  define eh where "eh = cp15 s c_entryhi"
  define p where "p = ram s (page_table_slot eh)"
  define n where "n = unat (ram s p AND 0xFFFFF)"
  define t where "t = s\<lparr>cp15 := (cp15 s)(c_control := cp15 s c_control AND NOT 1)\<rparr>"
  let ?top = "ram s BUS_REG_RAM_SIZE_UARM + 0x8000"
  obtain g g1 g2 g3 g4 where R: "TLB_REFILL s =
     (if \<not> slt 0x8000 p then Some (BadSegTbl (t\<lparr>gpr := g\<rparr>))
      else if p AND 3 \<noteq> 0 then Some (BadSegTbl (t\<lparr>gpr := g1\<rparr>))
      else if drop_bit 24 (ram s p) \<noteq> TLB_MAGICNO then Some (BadPagTbl (t\<lparr>gpr := g2\<rparr>))
      else if slt ?top (p + 4 + 8 * (ram s p AND 0xFFFFF)) then Some (BadPagTbl (t\<lparr>gpr := g3\<rparr>))
      else TLB_LOOP (t\<lparr>gpr := g4\<rparr>))"
    and g4: "g4 8 = 0xFFFFF000" "g4 3 = eh AND 0xFFFFF000" "g4 4 = eh AND ASID_MASK" "g4 1 = p + 4"
      "g4 2 = p + 4 + 8 * (ram s p AND 0xFFFFF)"
    using refill_run [of s] unfolding eh_def p_def t_def by blast
  note of_n = lookup_tests(1) [of s eh, folded p_def, folded n_def] and u = lookup_tests(2-4) [of s eh, folded p_def, folded n_def]
    and L = lookup_tests(5) [of s eh, folded p_def, folded n_def]
  note u = u [OF low [folded eh_def]] and L = L [OF low [folded eh_def]]
  have "\<exists>g'. TLB_REFILL s = Some (walk_of (page_lookup (ram s) eh) (t\<lparr>gpr := g'\<rparr>))"
  proof (cases "slt 0x8000 p \<and> p AND 3 = 0 \<and> drop_bit 24 (ram s p) = TLB_MAGICNO \<and> \<not> slt ?top (p + 4 + 8 * of_nat n)")
    case True
    obtain g' where "TLB_LOOP (t\<lparr>gpr := g4\<rparr>) = Some (case find (pte_matches eh) (page_entries (ram s) (p + 4) n) of
        None \<Rightarrow> PteMiss (t\<lparr>gpr := g'\<rparr>) | Some e \<Rightarrow> PteFound (t\<lparr>gpr := g'(5 := fst e, 6 := snd e)\<rparr>))"
      using loop_spec [OF g4(1-4) g4(5) [unfolded of_n], of t] u True by (auto simp: t_def)
    then show ?thesis using True of_n R L by (cases "find (pte_matches eh) (page_entries (ram s) (p + 4) n)") (auto simp: uarm_exc_defs)
  next
    case False
    then show ?thesis using R L of_n by (auto simp: uarm_exc_defs)
  qed
  then show ?thesis by (simp add: eh_def t_def)
qed

section \<open>The handler\<close>

definition abort_return :: "bool \<Rightarrow> u32 \<Rightarrow> u32" where
  "abort_return data ret = ret - (if data then 8 else 4)"

definition abort_handler :: "bool \<Rightarrow> u32 \<Rightarrow> arm \<Rightarrow> ((u32 \<times> u32) option \<times> arm) option" where
  "abort_handler data = (if data then DATAABT_H else PREFABT_H)"

text \<open>\<open>TLB_H_save\<close> up to the frame, after the first instructions of the two handlers.\<close>

definition abort_frame :: "bool \<Rightarrow> (arm \<Rightarrow> arm) list" where
  "abort_frame data = abort_kind (if data then 0xD else 0) @ [MRC c_cause 13, AND_i 13 13 0xFFFFFF] @
     [MOV 13 ROMSTACK_TOP, ADD 13 13 ROMSTACK_OFF, STR_w 0 13 0, ADD 13 13 4, LDR 0 13 8, fix_return,
      MOV 13 ROMSTACK_TOP, ADD 13 13 ROMSTACK_OFF, ADD 13 13 4, STR_w 14 13 0, ADD 13 13 4, MRS_CPSR 0, STR_w 0 13 0]"

lemma tlb_status: "mode_of (STATUS_TLB_MODE OR STATUS_ID OR STATUS_TIMER_ID) = STATUS_TLB_MODE"
  "bank_of (STATUS_TLB_MODE OR STATUS_ID OR STATUS_TIMER_ID) = STATUS_TLB_MODE"
  by (simp_all add: mode_of_def bank_of_def uarm_mode_defs STATUS_ID_def STATUS_TIMER_ID_def)

lemma abort_kind_run:
  assumes "bank_of (cpsr e) = STATUS_TLB_MODE"
  shows "run (abort_kind k) e = e\<lparr>bank := (bank e)(STATUS_TLB_MODE := (bank e STATUS_TLB_MODE)(13 := 0x7FF0)),
    ram := (ram e)(0x7FF0 := gpr e 0, 0x7FFC := k)\<rparr>"
  using assms by (simp add: abort_kind_def arm_defs bios_defs)

lemma cause_run:
  assumes "bank_of (cpsr e) = STATUS_TLB_MODE"
  shows "run [MRC c_cause 13, AND_i 13 13 0xFFFFFF] e =
    e\<lparr>bank := (bank e)(STATUS_TLB_MODE := (bank e STATUS_TLB_MODE)(13 := cp15 e c_cause AND 0xFFFFFF))\<rparr>"
  using assms by (simp add: arm_defs)

lemma fix_return_run:
  assumes "bank_of (cpsr e) = STATUS_TLB_MODE"
  shows "fix_return e = e\<lparr>bank := (bank e)(STATUS_TLB_MODE := (bank e STATUS_TLB_MODE)
    (14 := bank e STATUS_TLB_MODE 14 - (if gpr e 0 = 0xD then 8 else 4)))\<rparr>"
  using assms by (simp add: fix_return_def arm_defs)

lemma abort_push_run:
  assumes "bank_of (cpsr e) = STATUS_TLB_MODE" and "r = bank e STATUS_TLB_MODE 14 - (if ram e 0x7FFC = 0xD then 8 else 4)"
  shows "run [MOV 13 ROMSTACK_TOP, ADD 13 13 ROMSTACK_OFF, STR_w 0 13 0, ADD 13 13 4, LDR 0 13 8, fix_return,
      MOV 13 ROMSTACK_TOP, ADD 13 13 ROMSTACK_OFF, ADD 13 13 4, STR_w 14 13 0, ADD 13 13 4, MRS_CPSR 0, STR_w 0 13 0] e =
    e\<lparr>gpr := (gpr e)(0 := cpsr e), bank := (bank e)(STATUS_TLB_MODE := (bank e STATUS_TLB_MODE)(14 := r, 13 := 0x7FF8)),
      ram := (ram e)(0x7FF0 := gpr e 0, 0x7FF4 := r, 0x7FF8 := cpsr e)\<rparr>"
  using assms by (simp add: fix_return_run arm_defs bios_defs fun_upd_twist)

lemma abort_framed:
  fixes data :: bool and ret :: u32 and s0 :: arm
  defines "s \<equiv> run (abort_frame data) (enter STATUS_TLB_MODE ret s0)"
  shows "framed STATUS_TLB_MODE (abort_return data ret) s0 s" "cp15 s = cp15 s0"
proof -
  let ?B = STATUS_TLB_MODE and ?r = "abort_return data ret" and ?e = "enter STATUS_TLB_MODE ret s0"
  have B: "bank_of (cpsr ?e) = ?B" by (simp add: enter_def tlb_status)
  have "s = ?e\<lparr>gpr := (gpr s0)(0 := cpsr ?e), bank := (bank ?e)(?B := (bank ?e ?B)(14 := ?r, 13 := 0x7FF8)),
      ram := (ram s0)(0x7FF0 := gpr s0 0, 0x7FFC := (if data then 0xD else 0), 0x7FF4 := ?r, 0x7FF8 := cpsr ?e)\<rparr>"
    unfolding s_def abort_frame_def run_append abort_kind_run [OF B]
    by (subst cause_run, simp add: B, subst abort_push_run [where r = ?r]) (simp_all add: B tlb_status abort_return_def enter_def fun_upd_twist)
  then show "framed STATUS_TLB_MODE ?r s0 s" "cp15 s = cp15 s0"
    by (simp_all add: framed_def enter_def tlb_status rom_stack_def)
qed

abbreviation "tlb_old \<equiv> EXCV_BASE_UARM + EXCV_TLB_OLD"
abbreviation "tlb_new \<equiv> EXCV_BASE_UARM + EXCV_TLB_NEW"

lemma abort_handler_eq:
  fixes data :: bool and link ret :: u32 and s0 :: arm
  defines "code \<equiv> cp15 s0 c_cause AND 0xFFFFFF" and "s1 \<equiv> run (abort_frame data) (enter STATUS_TLB_MODE ret s0)"
  defines "s2 \<equiv> run (SAVE_OLD_STATE link) (s1\<lparr>gpr := (gpr s1)(0 := tlb_old)\<rparr>)"
  assumes "8 \<le> code" and "cp15 s2 = cp15 s0"
  shows "abort_handler data link (enter STATUS_TLB_MODE ret s0) = TLB_H_cont (s2\<lparr>gpr := (gpr s2)(0 := code)\<rparr>)"
proof -
  let ?e = "enter STATUS_TLB_MODE ret s0"
  let ?d = "run [MRC c_cause 13, AND_i 13 13 0xFFFFFF] (run (abort_kind (if data then 0xD else 0)) ?e)"
  have "rget 13 ?d = code"
    by (simp add: abort_kind_run MRC_def AND_i_def rget_def rset_def code_def enter_def tlb_status)
  moreover have "\<not> slt code 8" using assms(4) slt_code [of 8] by (simp add: code_def)
  ultimately have "abort_handler data link ?e = TLB_H link ?d"
    by (cases data) (simp_all add: abort_handler_def DATAABT_H_def PREFABT_H_def DP_CONT_def Let_def)
  moreover have "run (TLB_H_save link) ?d = run [MRC c_cause 0, AND_i 0 0 0xFFFFFF] s2"
    unfolding s2_def s1_def abort_frame_def TLB_H_save_def run_append by (simp add: MOV_def ADD_def rget_def rset_def)
  moreover have "run [MRC c_cause 0, AND_i 0 0 0xFFFFFF] s2 = s2\<lparr>gpr := (gpr s2)(0 := code)\<rparr>"
    using assms(5) by (simp add: arm_defs code_def)
  ultimately show ?thesis by (simp add: TLB_H_def)
qed

text \<open>Both ways on from a saved state: into the kernel, and back to the program.\<close>

lemma tlb_areas:
  "state_words tlb_new \<inter> state_words tlb_old = {}" "tlb_old + 64 \<in> state_words tlb_old" "tlb_new + 64 \<in> state_words tlb_new"
  "tlb_new + 76 \<in> state_words tlb_new"
  by (simp_all add: state_words_def bios_defs uarm_map_defs)

lemma tlb_load:
  fixes m1 :: "u32 \<Rightarrow> u32" and s0 t :: arm and pc :: u32
  assumes saved: "read_state m1 tlb_old = seen_state (cpsr s0) pc s0"
    and frame: "\<And>x. x \<notin> state_words tlb_old \<Longrightarrow> x \<notin> rom_stack \<Longrightarrow> m1 x = ram s0 x"
    and v: "valid_mode (cpsr s0)" "valid_mode (ram s0 (tlb_new + 64))"
    and t: "ram t = m1" "cp15 t c_cause1 = cp15 s0 c_cause1"
  defines "k \<equiv> TLB_CONT t" and "r \<equiv> run ([MOV 0 EXCV_BASE_UARM, ADD 0 0 EXCV_TLB_OLD] @ BIOS_LDST) t"
  shows "read_state (ram k) tlb_old = seen_state (cpsr s0) pc s0"
    "seen_state (cpsr k) (gpr k 15) k = (read_state (ram s0) tlb_new)\<lparr>ua_CP15_Cause := ram s0 (tlb_new + 76) OR cp15 s0 c_cause1,
       ua_TOD_Hi := ram s0 BUS_REG_TOD_HI_UARM, ua_TOD_Low := ram s0 BUS_REG_TOD_LO_UARM\<rparr>"
    "read_state (ram r) tlb_old = seen_state (cpsr s0) pc s0"
    "seen_state (cpsr r) (gpr r 15) r = seen_state (cpsr s0) pc s0"
proof -
  have fr: "m1 x = ram s0 x" if "x \<in> state_words tlb_new" for x
    using frame that tlb_areas(1) areas_usable(8) by (auto simp: off_stack_iff)
  have tod: "m1 BUS_REG_TOD_HI_UARM = ram s0 BUS_REG_TOD_HI_UARM" "m1 BUS_REG_TOD_LO_UARM = ram s0 BUS_REG_TOD_LO_UARM"
    using frame areas_usable(7) by (simp_all add: save_area_def rom_stack_def uarm_map_defs)
  have old: "m1 (tlb_old + 64) = cpsr s0" "m1 (tlb_old + 76) = cp15 s0 c_cause OR cp15 s0 c_cause1"
    using saved by (simp_all add: read_state_def seen_state_def)
  let ?t = "\<lambda>p. t\<lparr>gpr := (gpr t)(0 := p)\<rparr>"
  have k: "k = run BIOS_LDST (?t tlb_new)" and r: "r = run BIOS_LDST (?t tlb_old)"
    by (simp_all add: k_def r_def TLB_CONT_def run_append arm_defs)
  have "read_state m1 tlb_new = read_state (ram s0) tlb_new" by (rule read_state_cong) (rule fr)
  note kl = ldst_spec [of "?t tlb_new" tlb_new, folded k]
  show "seen_state (cpsr k) (gpr k 15) k = (read_state (ram s0) tlb_new)\<lparr>ua_CP15_Cause := ram s0 (tlb_new + 76) OR cp15 s0 c_cause1,
       ua_TOD_Hi := ram s0 BUS_REG_TOD_HI_UARM, ua_TOD_Low := ram s0 BUS_REG_TOD_LO_UARM\<rparr>"
    using kl(1) areas_usable(8) v(2) fr [OF tlb_areas(3)] fr [OF tlb_areas(4)] \<open>read_state m1 tlb_new = _\<close> t tod by simp
  note rl = ldst_spec [of "?t tlb_old" tlb_old, folded r]
  have off: "off_stack tlb_old" using areas_usable(7) by (simp add: save_area_def)
  have "seen_state (cpsr r) (gpr r 15) r = (seen_state (cpsr s0) pc s0)
      \<lparr>ua_CP15_Cause := (cp15 s0 c_cause OR cp15 s0 c_cause1) OR cp15 s0 c_cause1,
       ua_TOD_Hi := ram s0 BUS_REG_TOD_HI_UARM, ua_TOD_Low := ram s0 BUS_REG_TOD_LO_UARM\<rparr>"
    using rl(1) off v(1) old saved t tod by simp
  then show "seen_state (cpsr r) (gpr r 15) r = seen_state (cpsr s0) pc s0"
    by (simp only: or.assoc or.idem) (simp add: seen_state_def)
  have keep: "read_state m' tlb_old = seen_state (cpsr s0) pc s0" if "\<And>x. x \<notin> rom_stack \<Longrightarrow> m' x = m1 x" for m'
    unfolding saved [symmetric] by (rule read_state_cong) (use that off in \<open>auto simp: off_stack_iff\<close>)
  show "read_state (ram k) tlb_old = seen_state (cpsr s0) pc s0"
    by (rule keep) (use kl(2) areas_usable(8) v(2) fr [OF tlb_areas(3)] t in simp)
  show "read_state (ram r) tlb_old = seen_state (cpsr s0) pc s0"
    by (rule keep) (use rl(2) off v(1) old t in simp)
qed

text \<open>The tables are not where the handler saves the state.\<close>

lemma page_entries_cong:
  assumes "\<And>x. 0x8000 < x \<Longrightarrow> m x = m' x" and "0x8000 < a" and "unat a + 8 * n < 2 ^ 32"
  shows "page_entries m a n = page_entries m' a n"
  using assms(2,3)
proof (induction n arbitrary: a)
  case (Suc n)
  have "unat (a + 8) = unat a + 8 \<or> n = 0" "unat (a + 4) = unat a + 4" using Suc.prems(2) by (simp_all add: unat_word_ariths)
  then have "0x8000 < a + 4" "0x8000 < a + 8 \<or> n = 0" "unat (a + 8) + 8 * n < 2 ^ 32 \<or> n = 0"
    using Suc.prems by (auto simp: word_less_nat_alt)
  then show ?case using Suc.IH [of "a + 8"] Suc.prems(1) assms(1) by (auto simp: pte_at_def)
qed simp

lemma slot_range: "0x7600 \<le> page_table_slot eh \<and> page_table_slot eh < 0x7F00"
proof -
  define i where "i = (if ENTRYHI_SEGNO_GET eh = 0 then 0 else ENTRYHI_SEGNO_GET eh - 1)"
  have "unat i < 4" using segno.get_range [of eh] by (auto simp: i_def unat_sub unat_minus_one)
  moreover have "unat (ENTRYHI_ASID_GET eh) < 128" using asid.get_range [of eh] by simp
  ultimately show ?thesis
    unfolding page_table_slot_def i_def [symmetric] SEGTABLE_START_def by (simp add: word_le_nat_alt word_less_nat_alt unat_word_ariths)
qed

lemma page_lookup_cong:
  assumes "\<And>x. x < 0x7000 \<or> (0x7600 \<le> x \<and> x < 0x7F00) \<or> 0x8000 < x \<Longrightarrow> m x = m' x"
  shows "page_lookup m eh = page_lookup m' eh" "low_memory m eh = low_memory m' eh"
proof -
  have slot: "m (page_table_slot eh) = m' (page_table_slot eh)" and sz: "m BUS_REG_RAM_SIZE_UARM = m' BUS_REG_RAM_SIZE_UARM"
    using slot_range [of eh] assms by (simp_all add: BUS_REG_RAM_SIZE_UARM_def)
  define p n where "p = m' (page_table_slot eh)" and "n = unat (m' p AND 0xFFFFF)"
  have "page_entries m (p + 4) n = page_entries m' (p + 4) n" if "0x8000 < p" "p < 0x80000000"
  proof (rule page_entries_cong)
    have "n \<le> unat (0xFFFFF :: u32)" using word_and_le1 [of "m' p" "0xFFFFF"] by (simp only: n_def word_le_nat_alt)
    moreover have "unat (p + 4) = unat p + 4" using that(2) by (simp add: word_less_nat_alt unat_word_ariths)
    ultimately show "0x8000 < p + 4" "unat (p + 4) + 8 * n < 2 ^ 32" using that by (simp_all add: word_less_nat_alt)
  qed (use assms in simp)
  then show "page_lookup m eh = page_lookup m' eh"
    using assms [of p] by (auto simp: page_lookup_def Let_def slot sz p_def n_def not_le not_less)
  show "low_memory m eh = low_memory m' eh" by (simp add: low_memory_def slot sz)
qed

lemma code_cases: "slt (x AND 0xFFFFFF) 12 \<or> slt 13 (x AND 0xFFFFFF) \<longleftrightarrow> x AND 0xFFFFFF \<notin> {12, 13}"
proof -
  have "x AND 0xFFFFFF = 12 \<or> x AND 0xFFFFFF = 13" if "\<not> unat (x AND 0xFFFFFF) < 12" "\<not> 13 < unat (x AND 0xFFFFFF)"
    using that by (simp add: word_unat_eq_iff) linarith
  then show ?thesis using slt_code [of 12 x] slt_code [of 13 x] by (auto simp: word_less_nat_alt)
qed

text \<open>The handler after a miss, by what the page table has.\<close>

lemma miss_handled:
  assumes "gpr s 0 = x AND 0xFFFFFF" and "gpr s 0 \<in> {12, 13}" and "low_memory (ram s) (cp15 s c_entryhi)"
  shows "\<exists>t. ram t = ram s \<and> cp15 t c_cause1 = cp15 s c_cause1 \<and> cp15 t c_entryhi = cp15 s c_entryhi \<and>
    (case page_lookup (ram s) (cp15 s c_entryhi) of Inl c \<Rightarrow> \<exists>k. TLB_H_cont s = Some (None, TLB_CONT (run (TLB_ERR k) t))
     | Inr e \<Rightarrow> TLB_H_cont s = (case TLB_LOOP_FOUND (t\<lparr>gpr := (gpr t)(5 := fst e, 6 := snd e)\<rparr>) of (w, s) \<Rightarrow> Some (Some w, s)))"
proof -
  obtain g where R: "TLB_REFILL s = Some (walk_of (page_lookup (ram s) (cp15 s c_entryhi))
      (s\<lparr>cp15 := (cp15 s)(c_control := cp15 s c_control AND NOT 1), gpr := g\<rparr>))"
    using refill_spec [OF assms(3)] by blast
  have "TLB_H_cont s = (case TLB_REFILL s of
      None \<Rightarrow> None
    | Some (BadSegTbl s) \<Rightarrow> Some (None, TLB_CONT (run (TLB_ERR 8) s))
    | Some (BadPagTbl s) \<Rightarrow> Some (None, TLB_CONT (run (TLB_ERR 9) s))
    | Some (PteMiss s) \<Rightarrow> Some (None, TLB_CONT (run (TLB_ERR 11) s))
    | Some (PteFound s) \<Rightarrow> (case TLB_LOOP_FOUND s of (e, s) \<Rightarrow> Some (Some e, s)))"
    using assms(1,2) code_cases [of x] by (auto simp: TLB_H_cont_def rget_def)
  then show ?thesis unfolding R
    by (intro exI [of _ "s\<lparr>cp15 := (cp15 s)(c_control := cp15 s c_control AND NOT 1), gpr := g\<rparr>"])
      (auto split: sum.split if_splits)
qed

lemma old_range: "x \<in> state_words tlb_old \<or> x \<in> rom_stack \<Longrightarrow> \<not> (x < 0x7000 \<or> (0x7600 \<le> x \<and> x < 0x7F00) \<or> 0x8000 < x)"
  by (auto simp: state_words_def rom_stack_def bios_defs uarm_map_defs)

lemma err_frame: "ram (run (TLB_ERR k) t) = ram t" "cp15 (run (TLB_ERR k) t) c_cause1 = cp15 t c_cause1"
  by (simp_all add: TLB_ERR_def arm_defs)

lemma found_eq: "TLB_LOOP_FOUND t = ((cp15 t c_entryhi, gpr t 6),
    run ([MOV 0 EXCV_BASE_UARM, ADD 0 0 EXCV_TLB_OLD] @ BIOS_LDST) (t\<lparr>cp15 := (cp15 t)(c_entrylo := gpr t 6)\<rparr>))"
  by (simp add: TLB_LOOP_FOUND_def MCR_def rget_def)

text \<open>
  C32. Aborts on uARM. The handler of an abort with the code of a TLB exception ends, and leaves the whole
  state of the interrupted program in the old area of TLB exceptions, with the address of the instruction
  that failed. On a TLB miss for which the page table of the address space has an entry, it writes that
  entry with the current EntryHi into the TLB and resumes the program exactly where it was; the kernel is
  not involved. Otherwise the kernel's handler is entered with the state of the new area. This
  includes its Cause: the code of the error that the refill writes into the Cause register reaches
  neither the handler nor the old area.
\<close>

theorem tlb_miss_served:
  fixes data :: bool and link ret :: u32 and s0 :: arm
  defines "code \<equiv> CAUSE_EXCCODE_GET (cp15 s0 c_cause)" and "eh \<equiv> cp15 s0 c_entryhi"
    and "program \<equiv> seen_state (cpsr s0) (abort_return data ret) s0"
  assumes "valid_mode (cpsr s0)" and "bank_of (cpsr s0) \<noteq> STATUS_TLB_MODE" and "valid_mode (ram s0 (TLB_NEWAREA UARM + 64))"
    and "8 \<le> code" and "low_memory (ram s0) eh"
  shows "\<exists>w s'. abort_handler data link (enter STATUS_TLB_MODE ret s0) = Some (w, s') \<and>
    read_state (ram s') (TLB_OLDAREA UARM) = program \<and>
    (case if code \<in> {12, 13} then page_lookup (ram s0) eh else Inl code of
       Inr (hi, lo) \<Rightarrow> w = Some (eh, lo) \<and> seen_state (cpsr s') (gpr s' 15) s' = program
     | Inl _ \<Rightarrow> w = None \<and> seen_state (cpsr s') (gpr s' 15) s' = (read_state (ram s0) (TLB_NEWAREA UARM))
         \<lparr>ua_CP15_Cause := ram s0 (TLB_NEWAREA UARM + 76) OR cp15 s0 c_cause1,
          ua_TOD_Hi := ram s0 BUS_REG_TOD_HI_UARM, ua_TOD_Low := ram s0 BUS_REG_TOD_LO_UARM\<rparr>)"
proof -
  have areas: "TLB_OLDAREA UARM = tlb_old" "TLB_NEWAREA UARM = tlb_new"
    by (simp_all add: area_defs bios_defs uarm_map_defs)
  define s1 where "s1 = run (abort_frame data) (enter STATUS_TLB_MODE ret s0)"
  define s2 where "s2 = run (SAVE_OLD_STATE link) (s1\<lparr>gpr := (gpr s1)(0 := tlb_old)\<rparr>)"
  note f = abort_framed [of data ret s0, folded s1_def]
  note sv = save_framed [OF f(1) assms(4,5) areas_usable(7), where link = link, folded s2_def]
  have cp: "cp15 s2 = cp15 s0" using sv(3) f(2) by simp
  have saved: "read_state (ram s2) tlb_old = program" using sv(1) f(2) by (simp add: program_def seen_state_def)
  have H: "abort_handler data link (enter STATUS_TLB_MODE ret s0) = TLB_H_cont (s2\<lparr>gpr := (gpr s2)(0 := code)\<rparr>)"
    using abort_handler_eq [of s0 link data ret, folded s1_def, folded s2_def] cp assms(7) by (simp add: code_def CAUSE_EXCCODE_GET_def)
  note ld = tlb_load [OF saved [unfolded program_def] sv(2) assms(4) assms(6) [unfolded areas], folded program_def]
  show ?thesis
  proof (cases "code \<in> {12, 13}")
    case False
    then have "TLB_H_cont (s2\<lparr>gpr := (gpr s2)(0 := code)\<rparr>) = Some (None, TLB_CONT (s2\<lparr>gpr := (gpr s2)(0 := code)\<rparr>))"
      using code_cases [of "cp15 s0 c_cause"] by (auto simp: TLB_H_cont_def rget_def code_def CAUSE_EXCCODE_GET_def)
    then show ?thesis using H False ld(1,2) [of "s2\<lparr>gpr := (gpr s2)(0 := code)\<rparr>"] cp by (simp add: areas)
  next
    case True
    define s3 where "s3 = s2\<lparr>gpr := (gpr s2)(0 := code)\<rparr>"
    have lk: "page_lookup (ram s3) eh = page_lookup (ram s0) eh" "low_memory (ram s3) eh = low_memory (ram s0) eh"
      by (rule page_lookup_cong; use sv(2) old_range in \<open>auto simp: s3_def\<close>)+
    have eh: "cp15 s3 c_entryhi = eh" by (simp add: s3_def cp eh_def)
    obtain t where t: "ram t = ram s2" "cp15 t c_cause1 = cp15 s0 c_cause1" "cp15 t c_entryhi = eh"
      and T: "case page_lookup (ram s0) eh of Inl c \<Rightarrow> \<exists>k. TLB_H_cont s3 = Some (None, TLB_CONT (run (TLB_ERR k) t))
        | Inr e \<Rightarrow> TLB_H_cont s3 = (case TLB_LOOP_FOUND (t\<lparr>gpr := (gpr t)(5 := fst e, 6 := snd e)\<rparr>) of (w, s) \<Rightarrow> Some (Some w, s))"
      using miss_handled [of s3] True assms(8) lk eh cp
      by (auto simp: s3_def rget_def code_def CAUSE_EXCCODE_GET_def)
    show ?thesis
    proof (cases "page_lookup (ram s0) eh")
      case (Inl c)
      then obtain k where "TLB_H_cont s3 = Some (None, TLB_CONT (run (TLB_ERR k) t))" using T by auto
      then show ?thesis using H [folded s3_def] Inl True ld(1,2) [of "run (TLB_ERR k) t"] t by (simp add: areas err_frame [unfolded One_nat_def])
    next
      case (Inr e)
      define u where "u = t\<lparr>gpr := (gpr t)(5 := fst e, 6 := snd e)\<rparr>"
      have "TLB_H_cont s3 = (case TLB_LOOP_FOUND u of (e, s) \<Rightarrow> Some (Some e, s))"
        using T Inr by (simp add: u_def)
      then show ?thesis
        using H [folded s3_def] Inr True ld(3,4) [of "u\<lparr>cp15 := (cp15 u)(c_entrylo := gpr u 6)\<rparr>"] t
        by (simp add: areas found_eq u_def split_beta)
    qed
  qed
qed

text \<open>A load from page 9 of address space 1, which its page table maps to frame 18.\<close>

definition miss_arm :: arm where
  "miss_arm = \<lparr>gpr = (\<lambda>n. of_nat n), bank = (\<lambda>_ _. 0xA000), cpsr = 0x1F, spsr = (\<lambda>_. 0),
     cp15 = (\<lambda>_. 0)(c_cause := 12, c_entryhi := 0x9020),
     ram = (\<lambda>_. 0)(0x2D4 := 0x10000, 0x760C := 0x9000, 0x9000 := 0x2A000001, 0x9004 := 0x9020, 0x9008 := 0x12600, 0x7148 := 0xD7)\<rparr>"

theorem tlb_miss_served_witness:
  "\<exists>s'. abort_handler True 0 (enter STATUS_TLB_MODE 0x8108 miss_arm) = Some (Some (0x9020, 0x12600), s') \<and>
     seen_state (cpsr s') (gpr s' 15) s' = seen_state 0x1F 0x8100 miss_arm"
proof -
  have h: "valid_mode (cpsr miss_arm)" "bank_of (cpsr miss_arm) \<noteq> STATUS_TLB_MODE" "valid_mode (ram miss_arm (TLB_NEWAREA UARM + 64))"
    "8 \<le> CAUSE_EXCCODE_GET (cp15 miss_arm c_cause)" "low_memory (ram miss_arm) (cp15 miss_arm c_entryhi)"
    by (simp_all add: miss_arm_def valid_mode_def mode_of_def bank_of_def uarm_mode_defs area_defs CAUSE_EXCCODE_GET_def low_memory_def
        page_table_slot_def SEGTABLE_START_def uarm_field_defs uarm_map_defs)
  have p: "page_lookup (ram miss_arm) 0x9020 = Inr (0x9020, 0x12600)" "CAUSE_EXCCODE_GET (cp15 miss_arm c_cause) = 12"
      "cp15 miss_arm c_entryhi = 0x9020" "cpsr miss_arm = 0x1F"
    by (simp_all add: miss_arm_def page_lookup_def page_table_slot_def SEGTABLE_START_def uarm_field_defs uarm_map_defs
        PAGE_TBL_MAGICNO_def pte_matches_def pte_at_def tlb_defs CAUSE_EXCCODE_GET_def)
  show ?thesis using tlb_miss_served [where data = True and link = 0 and ret = "0x8108", OF h] by (simp add: p abort_return_def) blast
qed

end
