(* ===== verification/MemoryMap.thy ===== *)
theory MemoryMap
  imports Interrupts
begin

text \<open>
  Where things are. The headers give addresses of registers as macros and the same registers as members
  of structures (\<open>devregarea_t\<close>, \<open>devreg_t\<close>, \<open>state_t\<close>); the kernel uses both. \<open>offsets\<close> lays a
  structure out as C does, with the alignment of its members, and the theorems show that the two views
  agree, that the sizes the kernel computes addresses with are those of the structures, and that the
  areas of the memory map do not overlap and hold what the macros put in them.
\<close>

section \<open>Structure layout\<close>

type_synonym members = "(string \<times> nat \<times> nat) list" \<comment> \<open>name, size, alignment\<close>

definition align_up :: "nat \<Rightarrow> nat \<Rightarrow> nat" where
  "align_up al off = (off + al - 1) div al * al"

fun offsets :: "nat \<Rightarrow> members \<Rightarrow> (string \<times> nat) list" where
  "offsets off [] = []"
| "offsets off ((f, sz, al) # ms) = (f, align_up al off) # offsets (align_up al off + sz) ms"

fun layout_end :: "nat \<Rightarrow> members \<Rightarrow> nat" where
  "layout_end off [] = off"
| "layout_end off ((f, sz, al) # ms) = layout_end (align_up al off + sz) ms"

definition sizeof :: "members \<Rightarrow> nat" where
  "sizeof ms = align_up (fold (\<lambda>(f, sz, al). max al) ms 1) (layout_end 0 ms)"

definition offsetof :: "members \<Rightarrow> string \<Rightarrow> nat option" where
  "offsetof ms f = map_of (offsets 0 ms) f"

abbreviation word_member :: "string \<Rightarrow> string \<times> nat \<times> nat" where
  "word_member f \<equiv> (f, 4, 4)"

section \<open>The structures\<close>

definition devregarea_t :: members where
  "devregarea_t = map word_member [''rambase'', ''ramsize'', ''execbase'', ''execsize'', ''bootbase'', ''bootsize'',
     ''todhi'', ''todlo'', ''intervaltimer'', ''timescale''] @
     [(''inst_dev'', 5 * 4, 4), (''interrupt_dev'', 5 * 4, 4), (''devreg'', 5 * 8 * 16, 4)]"

text \<open>\<open>devreg_t\<close>: a union of two structures of four words.\<close>

definition dtpreg_t :: members where
  "dtpreg_t = map word_member [''status'', ''command'', ''data0'', ''data1'']"

definition termreg_t :: members where
  "termreg_t = map word_member [''recv_status'', ''recv_command'', ''transm_status'', ''transm_command'']"

definition state_members_umps :: members where
  "state_members_umps = map word_member [''entry_hi'', ''cause'', ''status'', ''pc_epc''] @
     [(''gpr'', STATE_GPR_LEN * 4, 4), word_member ''hi'', word_member ''lo'']"

definition state_members_uarm :: members where
  "state_members_uarm = map word_member [''a1'', ''a2'', ''a3'', ''a4'', ''v1'', ''v2'', ''v3'', ''v4'', ''v5'', ''v6'',
     ''sl'', ''fp'', ''ip'', ''sp'', ''lr'', ''pc'', ''cpsr'', ''CP15_Control'', ''CP15_EntryHi'', ''CP15_Cause'',
     ''TOD_Hi'', ''TOD_Low'']"

fun state_members :: "arch \<Rightarrow> members" where
  "state_members UMPS = state_members_umps"
| "state_members UARM = state_members_uarm"

definition list_head_members :: members where
  "list_head_members = map word_member [''next'', ''prev'']"

definition pcb_members :: "arch \<Rightarrow> members" where
  "pcb_members a =
     (let lh = sizeof list_head_members in
      [(''p_next'', lh, 4), word_member ''p_parent'', (''p_child'', lh, 4), (''p_sib'', lh, 4),
       (''p_s'', sizeof (state_members a), 4), word_member ''priority'', word_member ''original_priority'',
       word_member ''p_semkey'', (''start_tm'', 8, 8), (''user_tm'', 8, 8), (''kernel_tm'', 8, 8),
       (''exc_new_areas'', 3 * 4, 4), (''exc_old_areas'', 3 * 4, 4)])"

text \<open>The index of a register in \<open>gpr\<close>, as the macros \<open>reg_at\<close> to \<open>reg_LO\<close> give it.\<close>

definition reg_names :: "string list" where
  "reg_names = [''at'', ''v0'', ''v1'', ''a0'', ''a1'', ''a2'', ''a3'', ''t0'', ''t1'', ''t2'', ''t3'', ''t4'', ''t5'',
     ''t6'', ''t7'', ''s0'', ''s1'', ''s2'', ''s3'', ''s4'', ''s5'', ''s6'', ''s7'', ''t8'', ''t9'', ''gp'', ''sp'', ''fp'',
     ''ra'', ''HI'', ''LO'']"

lemmas layout_defs = devregarea_t_def dtpreg_t_def termreg_t_def state_members_umps_def state_members_uarm_def
  list_head_members_def pcb_members_def sizeof_def offsetof_def align_up_def STATE_GPR_LEN_def

text \<open>
  C39. The two views of the machine's registers agree. On uMPS the members of \<open>devregarea_t\<close>, placed at
  the start of the register space, are at the addresses the macros \<open>BUS_REG_...\<close>, \<open>..._BITMAP_BASE\<close> and
  \<open>DEV_REG_START\<close> name, and the element \<open>devreg[i][j]\<close> is at \<open>DEV_REG_ADDR\<close> of its line and device;
  the members of a terminal's registers overlay those of the other devices. \<open>STATE_T_SIZE\<close> is the
  size of a processor state, \<open>sizeof(pcb_t)\<close> is the distance of two entries of the process table, and
  \<open>DEV_REG_SIZE\<close> the size of a device register, on both machines.
\<close>

theorem layout_agrees:
  "list_all (\<lambda>(f, reg). \<exists>x. offsetof devregarea_t f = Some x \<and> MMIO_BASE_UMPS + of_nat x = reg)
     [(''rambase'', BUS_REG_RAM_BASE_UMPS), (''ramsize'', BUS_REG_RAM_SIZE_UMPS), (''execbase'', BUS_REG_BIOS_BASE),
      (''execsize'', BUS_REG_BIOS_SIZE), (''bootbase'', BUS_REG_BOOT_BASE), (''bootsize'', BUS_REG_BOOT_SIZE),
      (''todhi'', BUS_REG_TOD_HI_UMPS), (''todlo'', BUS_REG_TOD_LO_UMPS), (''intervaltimer'', BUS_REG_TIMER_UMPS),
      (''timescale'', BUS_REG_TIME_SCALE_UMPS), (''inst_dev'', IDEV_BITMAP_BASE UMPS),
      (''interrupt_dev'', CDEV_BITMAP_BASE UMPS), (''devreg'', DEV_REG_START UMPS)] \<and>
   MMIO_BASE_UMPS + of_nat (sizeof devregarea_t) = DEV_REG_END UMPS \<and>
   (\<exists>x. offsetof devregarea_t ''devreg'' = Some x \<and>
     DEV_REG_ADDR UMPS (DEV_IL_START + i) j = MMIO_BASE_UMPS + of_nat x + (i * 8 + j) * of_nat (sizeof dtpreg_t)) \<and>
   map snd (offsets 0 dtpreg_t) = map snd (offsets 0 termreg_t) \<and>
   of_nat (sizeof (state_members a)) = STATE_T_SIZE a \<and> sizeof (pcb_members a) = SIZEOF_PCB_T a \<and>
   of_nat (sizeof dtpreg_t) = DEV_REG_SIZE"
proof (intro conjI)
  have d: "offsetof devregarea_t ''devreg'' = Some 80" by (simp add: layout_defs)
  show "\<exists>x. offsetof devregarea_t ''devreg'' = Some x \<and>
      DEV_REG_ADDR UMPS (DEV_IL_START + i) j = MMIO_BASE_UMPS + of_nat x + (i * 8 + j) * of_nat (sizeof dtpreg_t)"
    unfolding d by (simp add: DEV_REG_ADDR_def il_defs umps_map_defs layout_defs algebra_simps)
  show "of_nat (sizeof (state_members a)) = STATE_T_SIZE a" by (cases a) (simp_all add: layout_defs)
  show "sizeof (pcb_members a) = SIZEOF_PCB_T a" by (cases a) (simp_all add: layout_defs)
qed (simp_all add: layout_defs umps_map_defs il_defs DEV_REG_END_def)

text \<open>
  \<open>reg_HI\<close> and \<open>reg_LO\<close> index \<open>gpr\<close> beyond its end; the words they reach are the members \<open>hi\<close> and \<open>lo\<close>.
\<close>

lemma reg_alias:
  "offsetof state_members_umps ''gpr'' = Some 16 \<and>
   offsetof state_members_umps ''hi'' = Some (16 + 4 * 29) \<and> reg_names ! 29 = ''HI'' \<and> STATE_GPR_LEN \<le> 29 \<and>
   offsetof state_members_umps ''lo'' = Some (16 + 4 * 30) \<and> reg_names ! 30 = ''LO'' \<and> length reg_names = 31"
  by (simp add: layout_defs reg_names_def)

section \<open>The memory map\<close>

text \<open>An area is a pair of its first address and the first address behind it.\<close>

definition inside :: "u32 \<Rightarrow> u32 \<Rightarrow> u32 \<times> u32 \<Rightarrow> bool" where
  "inside x n area \<longleftrightarrow> fst area \<le> x \<and> unat x + unat n \<le> unat (snd area)"

fun ordered :: "(u32 \<times> u32) list \<Rightarrow> bool" where
  "ordered [] = True"
| "ordered [x] = (fst x < snd x)"
| "ordered (x # y # xs) = (fst x < snd x \<and> snd x \<le> fst y \<and> ordered (y # xs))"

fun areas_of :: "arch \<Rightarrow> (u32 \<times> u32) list" where
  "areas_of UMPS = [(BUS_REG_RAM_BASE_UMPS, BUS_REG_TIME_SCALE_UMPS + WORD_SIZE), (IDEV_BITMAP_BASE UMPS, IDEV_BITMAP_END UMPS),
     (CDEV_BITMAP_BASE UMPS, CDEV_BITMAP_END UMPS), (DEV_REG_START UMPS, DEV_REG_END UMPS), (IRT_BASE, IRT_END),
     (CPUCTL_BASE, CPUCTL_END), (MCTL_BASE, MCTL_END), (EXCV_BASE UMPS, EXCV_BASE UMPS + 8 * STATE_T_SIZE UMPS)]"
| "areas_of UARM = [(IDEV_BITMAP_BASE UARM, IDEV_BITMAP_END UARM), (DEV_REG_START UARM, DEV_REG_END UARM),
     (BUS_REG_RAM_BASE_UARM, BUS_REG_TIME_SCALE_UARM + WORD_SIZE), (CDEV_BITMAP_BASE UARM, CDEV_BITMAP_END UARM),
     (ROMF_EXCVBASE, ROMF_EXCVTOP), (ROMF_SEGTBASE, ROMF_SEGTTOP), (ROMF_STACKBASE, ROMF_STACKTOP)]"

lemma ordered_apart:
  assumes "ordered xs" and "i < j" and "j < length xs"
  shows "snd (xs ! i) \<le> fst (xs ! j)"
  using assms
proof (induction xs arbitrary: i j rule: ordered.induct)
  case (3 x y xs)
  show ?case
  proof (cases i)
    case 0
    then show ?thesis
    proof (cases "j = 1")
      case False
      then have "snd y \<le> fst ((y # xs) ! (j - 1))" using 3(1) [of 0 "j - 1"] 3(2-4) 0 False by simp
      moreover have "fst y < snd y" using 3(2) by (cases xs) auto
      ultimately show ?thesis using 3 0 by (cases j) (auto intro: order_trans less_imp_le)
    qed (use 3 in auto)
  next
    case (Suc i')
    then show ?thesis using 3(1) [of i' "j - 1"] 3(2-4) by simp
  qed
qed auto

definition exc_areas :: "arch \<Rightarrow> u32 list" where
  "exc_areas a = [INT_OLDAREA a, INT_NEWAREA a, TLB_OLDAREA a, TLB_NEWAREA a, PGMTRAP_OLDAREA a, PGMTRAP_NEWAREA a,
     SYSBK_OLDAREA a, SYSBK_NEWAREA a]"

lemma areas_ordered: "ordered (areas_of a)"
  by (cases a) (simp_all add: IDEV_BITMAP_END_def CDEV_BITMAP_END_def DEV_REG_END_def il_defs umps_map_defs uarm_map_defs)

lemma bitmaps_inside:
  assumes "line \<in> set dev_lines"
  shows "inside (IDEV_BITMAP_ADDR a line) WORD_SIZE (IDEV_BITMAP_BASE a, IDEV_BITMAP_END a)"
    "inside (CDEV_BITMAP_ADDR a line) WORD_SIZE (CDEV_BITMAP_BASE a, CDEV_BITMAP_END a)"
  using assms unfolding dev_lines_def list.set insert_iff empty_iff
  by (cases a; elim disjE; simp add: inside_def IDEV_BITMAP_ADDR_def IDEV_BITMAP_END_def CDEV_BITMAP_ADDR_def
      CDEV_BITMAP_END_def il_defs)+

lemma dev_regs_inside:
  assumes "line \<in> set dev_lines" and "dev \<in> set dev_nums"
  shows "inside (DEV_REG_ADDR a line dev) DEV_REG_SIZE (DEV_REG_START a, DEV_REG_END a)"
proof -
  define x where "x = (line - DEV_IL_START) * 8 + dev"
  have "unat x \<le> 39"
    using assms unfolding x_def dev_lines_def dev_nums_def list.set insert_iff empty_iff
    by (elim disjE; simp add: il_defs)
  moreover have "DEV_REG_ADDR a line dev = DEV_REG_START a + x * 16"
    using dev_offset [of a line dev] by (simp add: x_def algebra_simps)
  ultimately show ?thesis
    by (cases a) (simp_all add: inside_def DEV_REG_END_def il_defs word_le_nat_alt unat_word_ariths)
qed

lemma less_8_cases: "i < 8 \<Longrightarrow> i \<in> {0, 1, 2, 3, 4, 5, 6, 7 :: nat}"
  by auto

lemma exc_areas_at: "i < 8 \<Longrightarrow> exc_areas a ! i = EXCV_BASE a + of_nat i * STATE_T_SIZE a"
  by (drule less_8_cases) (auto simp: exc_areas_def area_defs)

lemma exc_areas_inside:
  assumes "i < 8"
  shows "inside (exc_areas a ! i) (STATE_T_SIZE a) (last (filter (\<lambda>x. fst x = EXCV_BASE a) (areas_of a)))"
  using less_8_cases [OF assms]
  by (cases a) (auto simp: inside_def exc_areas_def area_defs uarm_map_defs umps_map_defs)

lemma irt_inside:
  assumes "line \<in> {2, 3, 4, 5, 6, 7}" and "dev \<in> set dev_nums"
  shows "inside (IRT_ENTRY line dev) WORD_SIZE (IRT_BASE, IRT_END)"
proof -
  define x where "x = (line - IL_TIMER) * N_DEV_PER_IL + dev"
  have "unat x \<le> 47"
    using assms unfolding x_def dev_nums_def list.set insert_iff empty_iff
    by (elim disjE; simp add: il_defs)
  moreover have "IRT_ENTRY line dev = IRT_BASE + WORD_SIZE * x" by (simp add: IRT_ENTRY_def x_def)
  ultimately show ?thesis
    by (simp add: inside_def il_defs umps_map_defs word_le_nat_alt unat_word_ariths)
qed

text \<open>
  The memory map has no overlaps: on both machines the areas of bus registers, device bitmaps,
  device registers, processor control, BIOS tables and exception states are non-empty and pairwise
  disjoint. The word of every device bitmap, the four words of every device register, every entry of the
  interrupt routing table and each of the eight exception states lie within their areas; different
  devices have different registers and different exceptions different states; and the uARM header's two
  macros for a line's bitmap name the same word.
\<close>

lemma memory_map_apart:
  assumes "i < j" and "j < length (areas_of a)" and "line \<in> set dev_lines" "dev \<in> set dev_nums"
    and "line' \<in> set dev_lines" "dev' \<in> set dev_nums" and "e < 8" "e' < 8" "e \<noteq> e'"
  shows "snd (areas_of a ! i) \<le> fst (areas_of a ! j) \<and>
    inside (IDEV_BITMAP_ADDR a line) WORD_SIZE (IDEV_BITMAP_BASE a, IDEV_BITMAP_END a) \<and>
    inside (CDEV_BITMAP_ADDR a line) WORD_SIZE (CDEV_BITMAP_BASE a, CDEV_BITMAP_END a) \<and>
    inside (DEV_REG_ADDR a line dev) DEV_REG_SIZE (DEV_REG_START a, DEV_REG_END a) \<and>
    (DEV_REG_ADDR a line dev = DEV_REG_ADDR a line' dev' \<longrightarrow> line = line' \<and> dev = dev') \<and>
    inside (exc_areas a ! e) (STATE_T_SIZE a) (last (filter (\<lambda>x. fst x = EXCV_BASE a) (areas_of a))) \<and>
    unat (STATE_T_SIZE a) \<le> nat \<bar>uint (exc_areas a ! e) - uint (exc_areas a ! e')\<bar> \<and>
    inside (IRT_ENTRY line dev) WORD_SIZE (IRT_BASE, IRT_END) \<and>
    INT_DEV_VECTOR line = CDEV_BITMAP_ADDR UARM line"
proof (intro conjI impI)
  show "snd (areas_of a ! i) \<le> fst (areas_of a ! j)" by (rule ordered_apart [OF areas_ordered assms(1,2)])
  show "unat (STATE_T_SIZE a) \<le> nat \<bar>uint (exc_areas a ! e) - uint (exc_areas a ! e')\<bar>"
    using less_8_cases [OF assms(7)] less_8_cases [OF assms(8)] assms(9)
    by (cases a) (auto simp: exc_areas_def area_defs)
  show "inside (IRT_ENTRY line dev) WORD_SIZE (IRT_BASE, IRT_END)"
    using irt_inside assms(3,4) by (auto simp: dev_lines_def)
  show "INT_DEV_VECTOR line = CDEV_BITMAP_ADDR UARM line"
    by (simp add: INT_DEV_VECTOR_def EXT_IL_INDEX_def CDEV_BITMAP_ADDR_def il_defs)
  show "line = line'" "dev = dev'" if "DEV_REG_ADDR a line dev = DEV_REG_ADDR a line' dev'"
    using dev_addr_inj2 [OF assms(3,5,4,6) that] by simp_all
qed (use assms bitmaps_inside dev_regs_inside exc_areas_inside in auto)

lemma memory_map_apart_example:
  "snd (areas_of UARM ! 4) \<le> fst (areas_of UARM ! 5) \<and> snd (areas_of UARM ! 4) = 0x7500 \<and>
   inside (DEV_REG_ADDR UARM 7 3) DEV_REG_SIZE (DEV_REG_START UARM, DEV_REG_END UARM) \<and>
   DEV_REG_ADDR UARM 7 3 = 0x270"
  using memory_map_apart [of 4 5 UARM 7 3 3 0 1 6]
  by (simp add: dev_lines_def dev_nums_def uarm_map_defs) (simp add: DEV_REG_ADDR_def il_defs)

end
