(* ===== verification/Headers.thy ===== *)
theory Headers
  imports Tlb Terminal Printer MemoryMap
begin

text \<open>
  The constants that the repository writes down more than once, and the proof that the copies agree:
  \<open>uarm/arch.h\<close> repeats \<open>umps/arch.h\<close>, \<open>uarm/uARMconst.h\<close> repeats the kernel's own device codes and
  \<open>include/umps.h\<close>'s exception areas, and \<open>umps/cp0.h\<close> gives every field both as a mask and as a bit number. The model has one
  definition for both machines where they agree (theory \<open>Bus\<close>), and one with a case for each where they
  do not (theory \<open>Arch\<close>); here the headers are written out as they are and compared with it.
\<close>

section \<open>\<open>uarm/arch.h\<close>\<close>

definition WORD_SIZE_UARM :: u32 where "WORD_SIZE_UARM = 4"
definition WS_UARM :: u32 where "WS_UARM = WORD_SIZE_UARM"
definition DEV_REG_SIZE_W_UARM :: u32 where "DEV_REG_SIZE_W_UARM = 4"
definition DEV_REG_SIZE_UARM :: u32 where "DEV_REG_SIZE_UARM = DEV_REG_SIZE_W_UARM * WS_UARM"
definition N_INTERRUPT_LINES_UARM :: u32 where "N_INTERRUPT_LINES_UARM = 8"
definition N_IL_UARM :: u32 where "N_IL_UARM = N_INTERRUPT_LINES_UARM"
definition N_EXT_IL_UARM :: u32 where "N_EXT_IL_UARM = 5"
definition N_DEV_PER_IL_UARM :: u32 where "N_DEV_PER_IL_UARM = 8"
definition DEV_IL_START_UARM :: u32 where "DEV_IL_START_UARM = N_INTERRUPT_LINES_UARM - N_EXT_IL_UARM"
definition IL_IPI_UARM :: u32 where "IL_IPI_UARM = 0"
definition IL_CPUTIMER_UARM :: u32 where "IL_CPUTIMER_UARM = 1"
definition IL_TIMER_UARM :: u32 where "IL_TIMER_UARM = 2"
definition IL_DISK_UARM :: u32 where "IL_DISK_UARM = 3"
definition IL_TAPE_UARM :: u32 where "IL_TAPE_UARM = 4"
definition IL_ETHERNET_UARM :: u32 where "IL_ETHERNET_UARM = 5"
definition IL_PRINTER_UARM :: u32 where "IL_PRINTER_UARM = 6"
definition IL_TERMINAL_UARM :: u32 where "IL_TERMINAL_UARM = 7"
definition EXT_IL_INDEX_UARM :: "u32 \<Rightarrow> u32" where
  "EXT_IL_INDEX_UARM il = il - DEV_IL_START_UARM"
definition CDEV_BITMAP_END_UARM :: u32 where "CDEV_BITMAP_END_UARM = CDEV_BITMAP_BASE_UARM + N_EXT_IL_UARM * WS_UARM"
definition CDEV_BITMAP_ADDR_UARM :: "u32 \<Rightarrow> u32" where
  "CDEV_BITMAP_ADDR_UARM line = CDEV_BITMAP_BASE_UARM + (line - DEV_IL_START_UARM) * WS_UARM"
definition IDEV_BITMAP_END_UARM :: u32 where "IDEV_BITMAP_END_UARM = IDEV_BITMAP_BASE_UARM + N_EXT_IL_UARM * WS_UARM"
definition IDEV_BITMAP_ADDR_UARM :: "u32 \<Rightarrow> u32" where
  "IDEV_BITMAP_ADDR_UARM line = IDEV_BITMAP_BASE_UARM + (line - DEV_IL_START_UARM) * WS_UARM"
definition DEV_REG_ADDR_UARM :: "u32 \<Rightarrow> u32 \<Rightarrow> u32" where
  "DEV_REG_ADDR_UARM line dev = DEV_REG_START_UARM + (line - DEV_IL_START_UARM) * N_DEV_PER_IL_UARM * DEV_REG_SIZE_UARM + dev * DEV_REG_SIZE_UARM"
definition DEV_REG_END_UARM :: u32 where "DEV_REG_END_UARM = DEV_REG_START_UARM + N_EXT_IL_UARM * N_DEV_PER_IL_UARM * DEV_REG_SIZE_UARM"
definition CPUCTL_TPR_PRIORITY_MASK_UARM :: u32 where "CPUCTL_TPR_PRIORITY_MASK_UARM = 0x0000000F"
definition IRT_POLICY_FIXED_UARM :: u32 where "IRT_POLICY_FIXED_UARM = 0"
definition KSEGOS_BASE_UARM :: u32 where "KSEGOS_BASE_UARM = 0"
definition KUSEG2_BASE_UARM :: u32 where "KUSEG2_BASE_UARM = 0x00008000"
definition KSEG0_UARM :: u32 where "KSEG0_UARM = 0"
definition USEG2_UARM :: u32 where "USEG2_UARM = 2"
definition USEG3_UARM :: u32 where "USEG3_UARM = 3"
definition KSEG0BASE_UARM :: u32 where "KSEG0BASE_UARM = 0x00008000"
definition USEG2BASE_UARM :: u32 where "USEG2BASE_UARM = 0x80000000"
definition USEG3BASE_UARM :: u32 where "USEG3BASE_UARM = 0xC0000000"

lemmas uarm_arch_defs = WORD_SIZE_UARM_def WS_UARM_def DEV_REG_SIZE_W_UARM_def DEV_REG_SIZE_UARM_def
  N_INTERRUPT_LINES_UARM_def N_IL_UARM_def N_EXT_IL_UARM_def N_DEV_PER_IL_UARM_def DEV_IL_START_UARM_def
  IL_IPI_UARM_def IL_CPUTIMER_UARM_def IL_TIMER_UARM_def IL_DISK_UARM_def IL_TAPE_UARM_def IL_ETHERNET_UARM_def
  IL_PRINTER_UARM_def IL_TERMINAL_UARM_def EXT_IL_INDEX_UARM_def CDEV_BITMAP_END_UARM_def
  CDEV_BITMAP_ADDR_UARM_def IDEV_BITMAP_END_UARM_def IDEV_BITMAP_ADDR_UARM_def DEV_REG_ADDR_UARM_def
  DEV_REG_END_UARM_def CPUCTL_TPR_PRIORITY_MASK_UARM_def IRT_POLICY_FIXED_UARM_def KSEGOS_BASE_UARM_def
  KUSEG2_BASE_UARM_def KSEG0_UARM_def USEG2_UARM_def USEG3_UARM_def KSEG0BASE_UARM_def USEG2BASE_UARM_def
  USEG3BASE_UARM_def

section \<open>\<open>umps/arch.h\<close>\<close>

definition WS :: u32 where "WS = WORD_SIZE"
definition N_IL :: u32 where "N_IL = N_INTERRUPT_LINES"
definition KSEGOS_BASE_UMPS :: u32 where "KSEGOS_BASE_UMPS = 0"
definition KSEGOS_BIOS_BASE_UMPS :: u32 where "KSEGOS_BIOS_BASE_UMPS = 0"
definition KSEGOS_BOOT_BASE :: u32 where "KSEGOS_BOOT_BASE = 0x1FC00000"
definition KUSEG2_BASE_UMPS :: u32 where "KUSEG2_BASE_UMPS = 0x80000000"
definition IRT_POLICY_FIXED :: u32 where "IRT_POLICY_FIXED = 0"
definition IRT_POLICY_DYNAMIC :: u32 where "IRT_POLICY_DYNAMIC = 1"
definition CPUCTL_TPR_PRIORITY_MASK :: u32 where "CPUCTL_TPR_PRIORITY_MASK = 0x0000000F"
definition MCTL_RESET_CPU_CPUID_MASK :: u32 where "MCTL_RESET_CPU_CPUID_MASK = 0x0000000F"
definition MCTL_DEFAULT_BOOT_PC :: u32 where "MCTL_DEFAULT_BOOT_PC = 0x1FC00000"
definition MCTL_DEFAULT_BOOT_SP :: u32 where "MCTL_DEFAULT_BOOT_SP = 0"

lemmas umps_arch_defs = WS_def N_IL_def KSEGOS_BASE_UMPS_def KSEGOS_BIOS_BASE_UMPS_def KSEGOS_BOOT_BASE_def
  KUSEG2_BASE_UMPS_def IRT_POLICY_FIXED_def IRT_POLICY_DYNAMIC_def CPUCTL_TPR_PRIORITY_MASK_def
  MCTL_RESET_CPU_CPUID_MASK_def MCTL_DEFAULT_BOOT_PC_def MCTL_DEFAULT_BOOT_SP_def

section \<open>\<open>uarm/uARMconst.h\<close>\<close>

definition INT_OLDAREA_UARM :: u32 where "INT_OLDAREA_UARM = EXCV_BASE_UARM"
definition INT_NEWAREA_UARM :: u32 where "INT_NEWAREA_UARM = EXCV_BASE_UARM + STATE_T_SIZE_UARM"
definition TLB_OLDAREA_UARM :: u32 where "TLB_OLDAREA_UARM = EXCV_BASE_UARM + 2 * STATE_T_SIZE_UARM"
definition TLB_NEWAREA_UARM :: u32 where "TLB_NEWAREA_UARM = EXCV_BASE_UARM + 3 * STATE_T_SIZE_UARM"
definition PGMTRAP_OLDAREA_UARM :: u32 where "PGMTRAP_OLDAREA_UARM = EXCV_BASE_UARM + 4 * STATE_T_SIZE_UARM"
definition PGMTRAP_NEWAREA_UARM :: u32 where "PGMTRAP_NEWAREA_UARM = EXCV_BASE_UARM + 5 * STATE_T_SIZE_UARM"
definition SYSBK_OLDAREA_UARM :: u32 where "SYSBK_OLDAREA_UARM = EXCV_BASE_UARM + 6 * STATE_T_SIZE_UARM"
definition SYSBK_NEWAREA_UARM :: u32 where "SYSBK_NEWAREA_UARM = EXCV_BASE_UARM + 7 * STATE_T_SIZE_UARM"
definition DEV_USED_INTS :: u32 where "DEV_USED_INTS = 5"
definition DEV_PER_INT :: u32 where "DEV_PER_INT = 8"
definition MAX_DEVICES :: u32 where "MAX_DEVICES = DEV_USED_INTS * DEV_PER_INT + DEV_PER_INT + 1"
definition CLOCK_SEM :: u32 where "CLOCK_SEM = MAX_DEVICES - 1"
definition INT_TIMER :: u32 where "INT_TIMER = 2"
definition INT_LOWEST :: u32 where "INT_LOWEST = 3"
definition INT_DISK :: u32 where "INT_DISK = 3"
definition INT_TAPE :: u32 where "INT_TAPE = 4"
definition INT_UNUSED :: u32 where "INT_UNUSED = 5"
definition INT_PRINTER :: u32 where "INT_PRINTER = 6"
definition INT_TERMINAL :: u32 where "INT_TERMINAL = 7"
definition DEV_C_ACK :: u32 where "DEV_C_ACK = 1"
definition DEV_DISK_C_SEEKCYL :: u32 where "DEV_DISK_C_SEEKCYL = 2"
definition DEV_DISK_C_READBLK :: u32 where "DEV_DISK_C_READBLK = 3"
definition DEV_DISK_C_WRITEBLK :: u32 where "DEV_DISK_C_WRITEBLK = 4"
definition DEV_TAPE_C_READBLK :: u32 where "DEV_TAPE_C_READBLK = 3"
definition DEV_PRNT_C_PRINTCHR :: u32 where "DEV_PRNT_C_PRINTCHR = 2"
definition DEV_TRCV_C_RECVCHAR :: u32 where "DEV_TRCV_C_RECVCHAR = 2"
definition DEV_TTRS_C_TRSMCHAR :: u32 where "DEV_TTRS_C_TRSMCHAR = 2"
definition DEV_S_READY :: u32 where "DEV_S_READY = 1"
definition DEV_TRCV_S_RECVERR :: u32 where "DEV_TRCV_S_RECVERR = 4"
definition DEV_TRCV_S_CHARRECV :: u32 where "DEV_TRCV_S_CHARRECV = 5"
definition DEV_TTRS_S_TRSMERR :: u32 where "DEV_TTRS_S_TRSMERR = 4"
definition DEV_TTRS_S_CHARTRSM :: u32 where "DEV_TTRS_S_CHARTRSM = 5"
definition DEV_TERM_STATUS :: u32 where "DEV_TERM_STATUS = 0x000000FF"
definition DEV_NOT_INSTALLED :: u32 where "DEV_NOT_INSTALLED = 0"
definition FRAME_SIZE_UARM :: u32 where "FRAME_SIZE_UARM = 4096"
definition DEV_REGBLOCK_SIZE :: u32 where "DEV_REGBLOCK_SIZE = DEV_REG_SIZE_UARM * DEV_PER_INT"
definition ENTRYLO_NOCACHE :: u32 where "ENTRYLO_NOCACHE = 0x00000800"
definition ENTRYLO_ACCESSED :: u32 where "ENTRYLO_ACCESSED = 0x00000080"
definition EXC_INTERRUPT :: u32 where "EXC_INTERRUPT = exception_code INTEXCEPTION"
definition EXC_TLBMOD :: u32 where "EXC_TLBMOD = exception_code MODEXCEPTION"
definition EXC_TLBINVLOAD :: u32 where "EXC_TLBINVLOAD = exception_code TLBLEXCEPTION"
definition EXC_TLBINVSTORE :: u32 where "EXC_TLBINVSTORE = exception_code TLBSEXCEPTION"
definition EXC_ADDRINVLOAD :: u32 where "EXC_ADDRINVLOAD = exception_code ADELEXCEPTION"
definition EXC_ADDRINVSTORE :: u32 where "EXC_ADDRINVSTORE = exception_code ADESEXCEPTION"
definition EXC_BUSINVFETCH :: u32 where "EXC_BUSINVFETCH = exception_code BUSERROR"
definition EXC_BUSINVLDSTORE :: u32 where "EXC_BUSINVLDSTORE = exception_code BUSERROR"
definition EXC_COPROCUNUSABLE :: u32 where "EXC_COPROCUNUSABLE = exception_code COPROCEXCEPTION"
definition EXC_RESERVEDINSTR :: u32 where "EXC_RESERVEDINSTR = 20"
definition PTE_MAGICNO :: u32 where "PTE_MAGICNO = 0x2A"
definition VM_PSEG_START :: u32 where "VM_PSEG_START = 0x00008000"
definition VM_PSEG_TOP :: u32 where "VM_PSEG_TOP = 0xF0000000"
definition VM_SHSEG_START :: u32 where "VM_SHSEG_START = 0xF0000000"
definition VM_SHSEG_TOP :: u32 where "VM_SHSEG_TOP = 0xFFFFFFFF"
definition FRAMESIZE :: u32 where "FRAMESIZE = 1024"
definition FRAMEKB :: u32 where "FRAMEKB = 4"

lemmas uarm_const_defs = INT_OLDAREA_UARM_def INT_NEWAREA_UARM_def TLB_OLDAREA_UARM_def TLB_NEWAREA_UARM_def
  PGMTRAP_OLDAREA_UARM_def PGMTRAP_NEWAREA_UARM_def SYSBK_OLDAREA_UARM_def SYSBK_NEWAREA_UARM_def
  DEV_USED_INTS_def DEV_PER_INT_def MAX_DEVICES_def CLOCK_SEM_def INT_TIMER_def INT_LOWEST_def INT_DISK_def
  INT_TAPE_def INT_UNUSED_def INT_PRINTER_def INT_TERMINAL_def DEV_C_ACK_def DEV_DISK_C_SEEKCYL_def
  DEV_DISK_C_READBLK_def DEV_DISK_C_WRITEBLK_def DEV_TAPE_C_READBLK_def DEV_PRNT_C_PRINTCHR_def
  DEV_TRCV_C_RECVCHAR_def DEV_TTRS_C_TRSMCHAR_def DEV_S_READY_def DEV_TRCV_S_RECVERR_def DEV_TRCV_S_CHARRECV_def
  DEV_TTRS_S_TRSMERR_def DEV_TTRS_S_CHARTRSM_def DEV_TERM_STATUS_def DEV_NOT_INSTALLED_def FRAME_SIZE_UARM_def
  DEV_REGBLOCK_SIZE_def ENTRYLO_NOCACHE_def ENTRYLO_ACCESSED_def EXC_INTERRUPT_def EXC_TLBMOD_def
  EXC_TLBINVLOAD_def EXC_TLBINVSTORE_def EXC_ADDRINVLOAD_def EXC_ADDRINVSTORE_def EXC_BUSINVFETCH_def
  EXC_BUSINVLDSTORE_def EXC_COPROCUNUSABLE_def EXC_RESERVEDINSTR_def PTE_MAGICNO_def VM_PSEG_START_def
  VM_PSEG_TOP_def VM_SHSEG_START_def VM_SHSEG_TOP_def FRAMESIZE_def FRAMEKB_def

section \<open>\<open>umps/cp0.h\<close>\<close>

definition STATUS_IEc_BIT :: nat where "STATUS_IEc_BIT = 0"
definition STATUS_KUc_BIT :: nat where "STATUS_KUc_BIT = 1"
definition STATUS_IEp_BIT :: nat where "STATUS_IEp_BIT = 2"
definition STATUS_KUp_BIT :: nat where "STATUS_KUp_BIT = 3"
definition STATUS_IEo_BIT :: nat where "STATUS_IEo_BIT = 4"
definition STATUS_KUo_BIT :: nat where "STATUS_KUo_BIT = 5"
definition STATUS_BEV_BIT :: nat where "STATUS_BEV_BIT = 22"
definition STATUS_VMc_BIT :: nat where "STATUS_VMc_BIT = 24"
definition STATUS_VMp_BIT :: nat where "STATUS_VMp_BIT = 25"
definition STATUS_VMo_BIT :: nat where "STATUS_VMo_BIT = 26"
definition STATUS_TE_BIT :: nat where "STATUS_TE_BIT = 27"
definition STATUS_CU0_BIT :: nat where "STATUS_CU0_BIT = 28"
definition STATUS_CU1_BIT :: nat where "STATUS_CU1_BIT = 29"
definition STATUS_CU2_BIT :: nat where "STATUS_CU2_BIT = 30"
definition STATUS_CU3_BIT :: nat where "STATUS_CU3_BIT = 31"
definition STATUS_IM_BIT :: "u32 \<Rightarrow> nat" where
  "STATUS_IM_BIT line = 8 + unat line"
definition CAUSE_IP_MASK :: u32 where "CAUSE_IP_MASK = 0x0000FF00"
definition CAUSE_IP_BIT :: "u32 \<Rightarrow> nat" where
  "CAUSE_IP_BIT line = 8 + unat line"
definition CAUSE_BD :: u32 where "CAUSE_BD = 0x80000000"
definition CAUSE_BD_BIT :: nat where "CAUSE_BD_BIT = 31"
definition ENTRYLO_DIRTY_UMPS :: u32 where "ENTRYLO_DIRTY_UMPS = 0x00000400"
definition ENTRYLO_DIRTY_BIT :: nat where "ENTRYLO_DIRTY_BIT = 10"
definition ENTRYLO_VALID_UMPS :: u32 where "ENTRYLO_VALID_UMPS = 0x00000200"
definition ENTRYLO_VALID_BIT :: nat where "ENTRYLO_VALID_BIT = 9"
definition ENTRYLO_GLOBAL_UMPS :: u32 where "ENTRYLO_GLOBAL_UMPS = 0x00000100"
definition ENTRYLO_GLOBAL_BIT :: nat where "ENTRYLO_GLOBAL_BIT = 8"

lemmas cp0_bit_defs = STATUS_IEc_BIT_def STATUS_KUc_BIT_def STATUS_IEp_BIT_def STATUS_KUp_BIT_def
  STATUS_IEo_BIT_def STATUS_KUo_BIT_def STATUS_BEV_BIT_def STATUS_VMc_BIT_def STATUS_VMp_BIT_def
  STATUS_VMo_BIT_def STATUS_TE_BIT_def STATUS_CU0_BIT_def STATUS_CU1_BIT_def STATUS_CU2_BIT_def STATUS_CU3_BIT_def
  STATUS_IM_BIT_def CAUSE_IP_MASK_def CAUSE_IP_BIT_def CAUSE_BD_def CAUSE_BD_BIT_def ENTRYLO_DIRTY_UMPS_def
  ENTRYLO_DIRTY_BIT_def ENTRYLO_VALID_UMPS_def ENTRYLO_VALID_BIT_def ENTRYLO_GLOBAL_UMPS_def
  ENTRYLO_GLOBAL_BIT_def

section \<open>\<open>include/const.h\<close>\<close>

definition DEV_PER_INT_KERNEL :: u32 where "DEV_PER_INT_KERNEL = 8"
definition IDLE_PRIORITY :: s32 where "IDLE_PRIORITY = DEFAULT_PRIORITY - 1"

lemmas const_defs = DEV_PER_INT_KERNEL_def IDLE_PRIORITY_def

section \<open>Agreement\<close>

lemma sizes_agree:
  "WORD_SIZE_UARM = WORD_SIZE \<and> DEV_REG_SIZE_W_UARM = DEV_REG_SIZE_W \<and> DEV_REG_SIZE_UARM = DEV_REG_SIZE
    \<and> N_INTERRUPT_LINES_UARM = N_INTERRUPT_LINES \<and> N_EXT_IL_UARM = N_EXT_IL \<and> N_DEV_PER_IL_UARM =
    N_DEV_PER_IL \<and> DEV_IL_START_UARM = DEV_IL_START \<and> IL_IPI_UARM = IL_IPI \<and> IL_CPUTIMER_UARM =
    IL_CPUTIMER \<and> IL_TIMER_UARM = IL_TIMER \<and> IL_DISK_UARM = IL_DISK \<and> IL_TAPE_UARM = IL_TAPE \<and>
    IL_ETHERNET_UARM = IL_ETHERNET \<and> IL_PRINTER_UARM = IL_PRINTER \<and> IL_TERMINAL_UARM = IL_TERMINAL"
  by (simp add: uarm_arch_defs il_defs)

text \<open>The addresses the kernel model computes with for uARM are those of that machine's header.\<close>

lemma addresses_agree:
  "CDEV_BITMAP_ADDR UARM line = CDEV_BITMAP_ADDR_UARM line" "IDEV_BITMAP_ADDR UARM line = IDEV_BITMAP_ADDR_UARM line"
  "DEV_REG_ADDR UARM line dev = DEV_REG_ADDR_UARM line dev" "DEV_REG_END UARM = DEV_REG_END_UARM"
  "CDEV_BITMAP_END UARM = CDEV_BITMAP_END_UARM" "IDEV_BITMAP_END UARM = IDEV_BITMAP_END_UARM"
  "INT_DEV_VECTOR line = CDEV_BITMAP_ADDR_UARM line" "EXT_IL_INDEX line = EXT_IL_INDEX_UARM line"
  "INT_OLDAREA UARM = INT_OLDAREA_UARM" "INT_NEWAREA UARM = INT_NEWAREA_UARM" "TLB_OLDAREA UARM = TLB_OLDAREA_UARM"
  "TLB_NEWAREA UARM = TLB_NEWAREA_UARM" "PGMTRAP_OLDAREA UARM = PGMTRAP_OLDAREA_UARM"
  "PGMTRAP_NEWAREA UARM = PGMTRAP_NEWAREA_UARM" "SYSBK_OLDAREA UARM = SYSBK_OLDAREA_UARM"
  "SYSBK_NEWAREA UARM = SYSBK_NEWAREA_UARM"
  by (simp_all add: uarm_arch_defs uarm_const_defs area_defs CDEV_BITMAP_ADDR_def IDEV_BITMAP_ADDR_def DEV_REG_ADDR_def DEV_REG_END_def
      CDEV_BITMAP_END_def IDEV_BITMAP_END_def INT_DEV_VECTOR_def EXT_IL_INDEX_def il_defs)

lemma devices_agree:
  "DEV_C_ACK = CMD_ACK" "DEV_S_READY = ST_READY" "DEV_TTRS_C_TRSMCHAR = CMD_TRANSMIT" "DEV_TRCV_C_RECVCHAR = CMD_RECEIVE"
  "DEV_TTRS_S_CHARTRSM = ST_TRANSMITTED" "DEV_TRCV_S_CHARRECV = ST_RECEIVED" "DEV_TERM_STATUS = TERM_STATUS_MASK"
  "DEV_PRNT_C_PRINTCHR = CMD_PRINTCHR" "DEV_TRCV_S_RECVERR = DEV_TTRS_S_TRSMERR"
  "INT_LOWEST = DEV_IL_START" "INT_TIMER = IL_TIMER" "INT_DISK = IL_DISK" "INT_TAPE = IL_TAPE" "INT_UNUSED = IL_ETHERNET"
  "INT_PRINTER = IL_PRINTER" "INT_TERMINAL = IL_TERMINAL" "DEV_USED_INTS = N_EXT_IL" "DEV_PER_INT = N_DEV_PER_IL"
  "DEV_PER_INT_KERNEL = DEV_PER_INT"
  by (simp_all add: uarm_const_defs const_defs term_defs CMD_PRINTCHR_def il_defs)

text \<open>No command is the acknowledgement, and no status of a terminal that is done is ready or busy.\<close>

lemma codes_apart:
  "DEV_C_ACK \<notin> {DEV_DISK_C_SEEKCYL, DEV_DISK_C_READBLK, DEV_DISK_C_WRITEBLK, DEV_TAPE_C_READBLK, DEV_PRNT_C_PRINTCHR, DEV_TTRS_C_TRSMCHAR}"
  "distinct [DEV_NOT_INSTALLED, DEV_S_READY, ST_BUSY, DEV_TTRS_S_TRSMERR, DEV_TTRS_S_CHARTRSM]"
  "distinct [DEV_DISK_C_SEEKCYL, DEV_DISK_C_READBLK, DEV_DISK_C_WRITEBLK]"
  by (simp_all add: uarm_const_defs ST_BUSY_def)

text \<open>
  The semaphores: one for each device, a second one for each terminal, and in \<open>uARMconst.h\<close> one more for a
  pseudo-clock, which would be the first word after the array of the kernel.
\<close>

lemma semaphores_agree:
  "CLOCK_SEM = (N_EXT_IL + 1) * N_DEV_PER_IL" "MAX_DEVICES = CLOCK_SEM + 1"
  "DEV_REG_ADDR a (line + 1) dev = DEV_REG_ADDR a line dev + DEV_REGBLOCK_SIZE"
  by (simp_all add: uarm_const_defs uarm_arch_defs DEV_REG_ADDR_def il_defs algebra_simps)

lemma memory_agrees:
  "FRAME_SIZE_UARM = FRAME_SIZE" "FRAMESIZE * WORD_SIZE = FRAME_SIZE" "FRAMEKB * 1024 = FRAME_SIZE"
  "VM_PSEG_START = RAM_BASE_UARM" "KUSEG2_BASE_UARM = RAM_BASE_UARM" "KSEG0BASE_UARM = RAM_BASE_UARM" "VM_PSEG_TOP = VM_SHSEG_START"
  "ENTRYHI_SEGNO_GET KSEG0BASE_UARM = KSEG0_UARM" "ENTRYHI_SEGNO_GET USEG2BASE_UARM = USEG2_UARM"
  "ENTRYHI_SEGNO_GET USEG3BASE_UARM = USEG3_UARM" "USEG2BASE_UARM = KUSEG2_BASE_UMPS" "PTE_MAGICNO = PAGE_TBL_MAGICNO"
  "MCTL_DEFAULT_BOOT_PC = KSEGOS_BOOT_BASE" "KSEGOS_BASE_UMPS = KSEGOS_BASE_UARM" "CPUCTL_TPR_PRIORITY_MASK = CPUCTL_TPR_PRIORITY_MASK_UARM"
  "IRT_POLICY_FIXED = IRT_POLICY_FIXED_UARM" "IRT_POLICY_FIXED \<noteq> IRT_POLICY_DYNAMIC" "WS = WS_UARM" "N_IL = N_IL_UARM"
  by (simp_all add: uarm_const_defs uarm_arch_defs umps_arch_defs uarm_map_defs FRAME_SIZE_def ENTRYHI_SEGNO_GET_def
      PAGE_TBL_MAGICNO_def il_defs)

text \<open>
  The names of the exceptions stand for codes of the simulator, except that of a reserved instruction,
  which is none of them.
\<close>

lemma exceptions_agree:
  "EXC_RESERVEDINSTR \<noteq> exception_code e" "EXC_BUSINVFETCH = EXC_BUSINVLDSTORE"
  "distinct [EXC_INTERRUPT, EXC_TLBMOD, EXC_TLBINVLOAD, EXC_TLBINVSTORE, EXC_ADDRINVLOAD, EXC_ADDRINVSTORE, EXC_BUSINVFETCH,
     EXC_SYSCALL, EXC_BREAKPOINT, EXC_RESERVEDINSTR, EXC_COPROCUNUSABLE, EXC_BADPTE, EXC_PTEMISS, EXC_BADPAGTBL, EXC_BADSEGTBL]"
  by (cases e; simp add: uarm_const_defs) (simp_all add: uarm_const_defs uarm_exc_defs)

text \<open>The address above which the kernel takes a device for a terminal is that of the first one.\<close>

lemma terminals_agree: "TERM_0_ADDR UARM = DEV_REG_ADDR_UARM IL_TERMINAL 0" "VM_OFF UARM = NOT (VM_ON UARM)"
  by (simp_all add: uarm_arch_defs VM_ON_def VM_OFF_def il_defs)

text \<open>In \<open>cp0.h\<close> the masks are the bits of the numbers, no two of them the same, and apart from the eight interrupt bits.\<close>

definition status_bits :: "(u32 \<times> nat) list" where
  "status_bits =
    [(STATUS_IEc, STATUS_IEc_BIT), (STATUS_KUc, STATUS_KUc_BIT), (STATUS_IEp, STATUS_IEp_BIT), (STATUS_KUp,
     STATUS_KUp_BIT), (STATUS_IEo, STATUS_IEo_BIT), (STATUS_KUo, STATUS_KUo_BIT), (STATUS_BEV,
     STATUS_BEV_BIT), (STATUS_VMc, STATUS_VMc_BIT), (STATUS_VMp, STATUS_VMp_BIT), (STATUS_VMo,
     STATUS_VMo_BIT), (STATUS_TE, STATUS_TE_BIT), (STATUS_CU0, STATUS_CU0_BIT), (STATUS_CU1, STATUS_CU1_BIT),
     (STATUS_CU2, STATUS_CU2_BIT), (STATUS_CU3, STATUS_CU3_BIT)]"

lemma status_bits_agree:
  "list_all (\<lambda>(m, b). m = push_bit b 1) status_bits" "distinct (map snd status_bits)"
  "list_all (\<lambda>b. b < 8 \<or> 16 \<le> b) (map snd status_bits)"
  "STATUS_IM line = push_bit (STATUS_IM_BIT line) 1" "CAUSE_IP line = push_bit (CAUSE_IP_BIT line) 1"
  "CAUSE_IP_MASK = STATUS_IM_MASK" "CAUSE_BD = push_bit CAUSE_BD_BIT 1"
  "ENTRYLO_DIRTY_UMPS = push_bit ENTRYLO_DIRTY_BIT 1" "ENTRYLO_VALID_UMPS = push_bit ENTRYLO_VALID_BIT 1"
  "ENTRYLO_GLOBAL_UMPS = push_bit ENTRYLO_GLOBAL_BIT 1" "ENTRYLO_DIRTY_UMPS = ENTRYLO_DIRTY" "ENTRYLO_VALID_UMPS = ENTRYLO_VALID"
  "ENTRYLO_GLOBAL_UMPS = ENTRYLO_GLOBAL"
  "distinct [ENTRYLO_NOCACHE, ENTRYLO_DIRTY, ENTRYLO_VALID, ENTRYLO_GLOBAL, ENTRYLO_ACCESSED]"
  by (simp_all add: status_bits_def cp0_bit_defs umps_status_defs STATUS_IM_def CAUSE_IP_def push_bit_eq_mult
      ENTRYLO_DIRTY_def ENTRYLO_VALID_def ENTRYLO_GLOBAL_def uarm_const_defs)

lemma status_masks:
  assumes "line < N_INTERRUPT_LINES"
  shows "STATUS_IM line AND STATUS_IM_MASK = STATUS_IM line" "STATUS_IM line \<noteq> 0"
proof -
  have "unat line < 8" using assms by (simp add: N_INTERRUPT_LINES_def word_less_nat_alt)
  then consider "unat line = 0" | "unat line = 1" | "unat line = 2" | "unat line = 3" | "unat line = 4" | "unat line = 5"
    | "unat line = 6" | "unat line = 7" by linarith
  then show "STATUS_IM line AND STATUS_IM_MASK = STATUS_IM line" "STATUS_IM line \<noteq> 0"
    by (cases; simp add: STATUS_IM_def STATUS_IM_MASK_def push_bit_eq_mult)+
qed

text \<open>The masks of the eight interrupt lines share no bit with the named bits.\<close>

lemma line_masks_apart:
  "list_all (\<lambda>line. STATUS_IM line \<noteq> 0 \<and> list_all (\<lambda>(m, b). STATUS_IM line AND m = 0) status_bits)
     [IL_IPI, IL_CPUTIMER, IL_TIMER, IL_DISK, IL_TAPE, IL_ETHERNET, IL_PRINTER, IL_TERMINAL]"
  by (simp add: il_defs STATUS_IM_def status_bits_def umps_status_defs push_bit_eq_mult)

end
