(* ===== verification/Libumps.thy ===== *)
theory Libumps
  imports MemoryMap
begin

text \<open>
  \<open>umps/libumps.S\<close>: the machine library of uMPS, as far as it does not enter the BIOS, whose code is
  not part of the repository. Modelled are \<open>STST\<close>, with which the kernel makes its first processor
  states, \<open>FORK\<close> up to its call of the BIOS, and the accessors of the coprocessor. Registers have the
  numbers of \<open>umps/regdef.h\<close>, those of the coprocessor the numbers of \<open>umps/cp0.h\<close>.
\<close>

section \<open>The processor\<close>

record mips =
  reg :: "nat \<Rightarrow> u32"
  reg_hi :: u32
  reg_lo :: u32
  cp0 :: "nat \<Rightarrow> u32"
  memw :: "u32 \<Rightarrow> u32"

text \<open>Register 0 reads as zero and ignores writes.\<close>

definition rd :: "nat \<Rightarrow> mips \<Rightarrow> u32" where "rd n s = (if n = 0 then 0 else reg s n)"
definition wr :: "nat \<Rightarrow> u32 \<Rightarrow> mips \<Rightarrow> mips" where "wr n v s = (if n = 0 then s else s\<lparr>reg := (reg s)(n := v)\<rparr>)"

definition LW :: "nat \<Rightarrow> u32 \<Rightarrow> nat \<Rightarrow> mips \<Rightarrow> mips" where "LW n off b s = wr n (memw s (rd b s + off)) s"
definition SW :: "nat \<Rightarrow> u32 \<Rightarrow> nat \<Rightarrow> mips \<Rightarrow> mips" where "SW n off b s = s\<lparr>memw := (memw s)(rd b s + off := rd n s)\<rparr>"
definition MFC0 :: "nat \<Rightarrow> nat \<Rightarrow> mips \<Rightarrow> mips" where "MFC0 n c s = wr n (cp0 s c) s"
definition MTC0 :: "nat \<Rightarrow> nat \<Rightarrow> mips \<Rightarrow> mips" where "MTC0 n c s = s\<lparr>cp0 := (cp0 s)(c := rd n s)\<rparr>"
definition MFHI :: "nat \<Rightarrow> mips \<Rightarrow> mips" where "MFHI n s = wr n (reg_hi s) s"
definition MFLO :: "nat \<Rightarrow> mips \<Rightarrow> mips" where "MFLO n s = wr n (reg_lo s) s"
definition MTHI :: "nat \<Rightarrow> mips \<Rightarrow> mips" where "MTHI n s = s\<lparr>reg_hi := rd n s\<rparr>"
definition MTLO :: "nat \<Rightarrow> mips \<Rightarrow> mips" where "MTLO n s = s\<lparr>reg_lo := rd n s\<rparr>"
definition MOVE :: "nat \<Rightarrow> nat \<Rightarrow> mips \<Rightarrow> mips" where "MOVE d n s = wr d (rd n s) s"
definition LI :: "nat \<Rightarrow> u32 \<Rightarrow> mips \<Rightarrow> mips" where "LI n v s = wr n v s"

definition MULT :: "nat \<Rightarrow> nat \<Rightarrow> mips \<Rightarrow> mips" where
  "MULT a b s = (let q = sint (rd a s) * sint (rd b s) in s\<lparr>reg_hi := word_of_int (q div 2 ^ 32), reg_lo := word_of_int q\<rparr>)"
definition SUBU :: "nat \<Rightarrow> nat \<Rightarrow> nat \<Rightarrow> mips \<Rightarrow> mips" where "SUBU d a b s = wr d (rd a s - rd b s) s"

fun exec :: "(mips \<Rightarrow> mips) list \<Rightarrow> mips \<Rightarrow> mips" where
  "exec [] s = s"
| "exec (i # is) s = exec is (i s)"

lemmas mips_defs = rd_def wr_def LW_def SW_def MFC0_def MTC0_def MFHI_def MFLO_def MTHI_def MTLO_def MOVE_def LI_def MULT_def SUBU_def

section \<open>The code\<close>

definition CP0_Index :: nat where "CP0_Index = 0"
definition CP0_Random :: nat where "CP0_Random = 1"
definition CP0_EntryLo :: nat where "CP0_EntryLo = 2"
definition CP0_BadVAddr :: nat where "CP0_BadVAddr = 8"
definition CP0_Timer :: nat where "CP0_Timer = 9"
definition CP0_EntryHi :: nat where "CP0_EntryHi = 10"
definition CP0_Status :: nat where "CP0_Status = 12"
definition CP0_Cause :: nat where "CP0_Cause = 13"
definition CP0_EPC :: nat where "CP0_EPC = 14"
definition CP0_PRID :: nat where "CP0_PRID = 15"
definition BIOS_SRV_FORK_UMPS :: u32 where "BIOS_SRV_FORK_UMPS = 0"

lemmas cp0_defs = CP0_Index_def CP0_Random_def CP0_EntryLo_def CP0_BadVAddr_def CP0_Timer_def CP0_EntryHi_def CP0_Status_def
  CP0_Cause_def CP0_EPC_def CP0_PRID_def

text \<open>The macros from which \<open>getINDEX\<close> to \<open>getPRID\<close> and \<open>setINDEX\<close> to \<open>setCAUSE\<close> are made.\<close>

definition CP0_GETTER :: "nat \<Rightarrow> (mips \<Rightarrow> mips) list" where
  "CP0_GETTER c = [MFC0 2 c]"

definition CP0_SETTER :: "nat \<Rightarrow> (mips \<Rightarrow> mips) list" where
  "CP0_SETTER c = [MTC0 4 c, MFC0 2 c]"

definition FORK :: "(mips \<Rightarrow> mips) list" where
  "FORK =
     [LW 1 132 7, MTHI 1, LW 1 136 7, MTLO 1, LW 1 16 7, LW 3 24 7, LW 8 44 7, LW 9 48 7, LW 10 52 7, LW 11 56 7,
      LW 12 60 7, LW 13 64 7, LW 14 68 7, LW 15 72 7, LW 16 76 7, LW 17 80 7, LW 18 84 7, LW 19 88 7, LW 20 92 7,
      LW 21 96 7, LW 22 100 7, LW 23 104 7, LW 24 108 7, LW 25 112 7, LW 28 116 7, LW 29 120 7, LW 30 124 7,
      LW 31 128 7, LW 7 4 7, MOVE 2 4, LI 4 BIOS_SRV_FORK_UMPS]"

definition STST_UMPS :: "(mips \<Rightarrow> mips) list" where
  "STST_UMPS =
     [SW 1 16 4, SW 2 20 4, MFC0 2 CP0_Cause, SW 2 4 4, SW 3 24 4, SW 4 28 4, SW 5 32 4, SW 6 36 4, SW 7 40 4,
      SW 8 44 4, SW 9 48 4, SW 10 52 4, SW 11 56 4, SW 12 60 4, SW 13 64 4, SW 14 68 4, SW 15 72 4, SW 16 76 4,
      SW 17 80 4, SW 18 84 4, SW 19 88 4, SW 20 92 4, SW 21 96 4, SW 22 100 4, SW 23 104 4, SW 24 108 4, SW 25 112 4,
      SW 28 116 4, SW 29 120 4, SW 30 124 4, SW 31 128 4, MFHI 5, SW 5 132 4, MFLO 5, SW 5 136 4, MFC0 2 CP0_EntryHi,
      SW 2 0 4, MFC0 2 CP0_Status, SW 2 8 4, SW 0 12 4, LW 3 24 4, LW 5 32 4, MOVE 2 31]"

section \<open>States in memory\<close>

text \<open>The structure \<open>state_t\<close> at \<open>p\<close>, and the registers a program has, in the order of \<open>gpr\<close>.\<close>

definition read_umps :: "(u32 \<Rightarrow> u32) \<Rightarrow> u32 \<Rightarrow> umps_state" where
  "read_umps m p = \<lparr>um_entry_hi = m p, um_cause = m (p + 4), um_status = m (p + 8), um_pc_epc = m (p + 12),
     um_gpr = map (\<lambda>i. m (p + 16 + 4 * of_nat i)) [0..<STATE_GPR_LEN], um_hi = m (p + 132), um_lo = m (p + 136)\<rparr>"

definition gpr_regs :: "nat list" where
  "gpr_regs = [1..<26] @ [28..<32]"

lemma layout_read: "map (offsetof state_members_umps) [''entry_hi'', ''cause'', ''status'', ''pc_epc'', ''gpr'', ''hi'', ''lo''] =
    map Some [0, 4, 8, 12, 16, 132, 136]"
  by (simp add: layout_defs)

text \<open>The registers in \<open>gpr\<close>, one by one: the order is that of the macros \<open>reg_at\<close> to \<open>reg_ra\<close>.\<close>

lemma gpr_regs_list: "gpr_regs = [1, 2, 3, 4, 5, 6, 7, 8, 9, 10, 11, 12, 13, 14, 15, 16, 17, 18, 19, 20, 21, 22, 23, 24, 25, 28, 29, 30, 31]"
  by (simp add: gpr_regs_def upt_rec)

lemma read_gpr: "map (\<lambda>i. m (p + 16 + 4 * of_nat i)) [0..<STATE_GPR_LEN] = map (\<lambda>i. m (p + i))
    [16, 20, 24, 28, 32, 36, 40, 44, 48, 52, 56, 60, 64, 68, 72, 76, 80, 84, 88, 92, 96, 100, 104, 108, 112, 116, 120, 124, 128 :: u32]"
  by (simp add: STATE_GPR_LEN_def upt_rec add.assoc)

lemma stst_umps_run:
  fixes r h l c m
  defines "s \<equiv> \<lparr>reg = r, reg_hi = h, reg_lo = l, cp0 = c, memw = m\<rparr>"
  assumes p: "r 4 = p"
  shows "read_umps (memw (exec STST_UMPS s)) p = \<lparr>um_entry_hi = c CP0_EntryHi, um_cause = c CP0_Cause, um_status = c CP0_Status,
      um_pc_epc = 0, um_gpr = map r gpr_regs, um_hi = h, um_lo = l\<rparr>"
    "exec STST_UMPS s = s\<lparr>reg := r(2 := r 31), memw := memw (exec STST_UMPS s)\<rparr>"
    "list_all (\<lambda>i. x \<noteq> p + i) (map (\<lambda>i. 4 * of_nat i) [0..<35]) \<Longrightarrow> memw (exec STST_UMPS s) x = m x"
proof -
  note sim = s_def STST_UMPS_def mips_defs p
  show "read_umps (memw (exec STST_UMPS s)) p = \<lparr>um_entry_hi = c CP0_EntryHi, um_cause = c CP0_Cause, um_status = c CP0_Status,
      um_pc_epc = 0, um_gpr = map r gpr_regs, um_hi = h, um_lo = l\<rparr>"
    unfolding read_umps_def read_gpr gpr_regs_list by (simp add: sim)
  show "exec STST_UMPS s = s\<lparr>reg := r(2 := r 31), memw := memw (exec STST_UMPS s)\<rparr>"
    by (simp add: sim)
  show "memw (exec STST_UMPS s) x = m x" if "list_all (\<lambda>i. x \<noteq> p + i) (map (\<lambda>i. 4 * of_nat i) [0..<35])"
    using that by (simp add: sim upt_rec)
qed

text \<open>\<open>FORK\<close> loads from the state at its fourth argument.\<close>

lemma fork_run:
  assumes "reg s 7 = p"
  shows "list_all (\<lambda>(n, off). reg (exec FORK s) n = memw s (p + off))
      ([(1, 16), (3, 24)] @ zip ([8..<26] @ [28..<32]) (map (\<lambda>i. 44 + 4 * of_nat i) [0..<22]))"
    "reg (exec FORK s) 7 = memw s (p + 4)" "reg (exec FORK s) 2 = reg s 4"
    "reg_hi (exec FORK s) = memw s (p + 132)" "reg_lo (exec FORK s) = memw s (p + 136)"
    "memw (exec FORK s) = memw s" "cp0 (exec FORK s) = cp0 s"
proof -
  obtain r h l c m where s: "s = \<lparr>reg = r, reg_hi = h, reg_lo = l, cp0 = c, memw = m\<rparr>" by (cases s)
  have p: "r 7 = p" using assms by (simp add: s)
  note sim = s FORK_def mips_defs p
  show "list_all (\<lambda>(n, off). reg (exec FORK s) n = memw s (p + off))
      ([(1, 16), (3, 24)] @ zip ([8..<26] @ [28..<32]) (map (\<lambda>i. 44 + 4 * of_nat i) [0..<22]))"
    by (simp add: sim upt_rec)
  show "reg (exec FORK s) 7 = memw s (p + 4)" "reg (exec FORK s) 2 = reg s 4"
    "reg_hi (exec FORK s) = memw s (p + 132)" "reg_lo (exec FORK s) = memw s (p + 136)"
    "memw (exec FORK s) = memw s" "cp0 (exec FORK s) = cp0 s" by (simp_all add: sim)
qed

text \<open>The accessors: a setter returns what it wrote, and a getter reads it afterwards.\<close>

lemma cp0_set_get:
  "reg (exec (CP0_SETTER c) s) 2 = reg s 4" "cp0 (exec (CP0_SETTER c) s) = (cp0 s)(c := reg s 4)"
  "reg (exec (CP0_GETTER c) (exec (CP0_SETTER c) s)) 2 = reg s 4"
  by (simp_all add: CP0_GETTER_def CP0_SETTER_def mips_defs)

definition forked_regs :: "nat list" where
  "forked_regs = [1, 3] @ [8..<26] @ [28..<32]"

text \<open>
  C36. Processor states on uMPS. \<open>STST\<close> fills the structure at its argument with EntryHi, Cause, Status,
  all the general registers but the two of the kernel, and \<open>HI\<close> and \<open>LO\<close>, each at the offset the
  structure gives it; the program counter is zero. It changes no other word, and of the registers only
  \<open>v0\<close>, which returns the return address. \<open>FORK\<close> on the same memory, whatever has become of the
  registers in between, loads every register back that does not carry its arguments, and the saved Cause
  in the place of its last argument.
\<close>

theorem stst_fork:
  assumes "reg s 4 = p"
  defines "s' \<equiv> exec STST_UMPS s"
  shows "read_umps (memw s') p = \<lparr>um_entry_hi = cp0 s CP0_EntryHi, um_cause = cp0 s CP0_Cause, um_status = cp0 s CP0_Status,
      um_pc_epc = 0, um_gpr = map (reg s) gpr_regs, um_hi = reg_hi s, um_lo = reg_lo s\<rparr> \<and>
    s'\<lparr>memw := memw s\<rparr> = s\<lparr>reg := (reg s)(2 := reg s 31)\<rparr> \<and>
    (\<forall>x. (\<forall>i<35. x \<noteq> p + 4 * of_nat i) \<longrightarrow> memw s' x = memw s x) \<and>
    (\<forall>t. memw t = memw s' \<and> reg t 7 = p \<longrightarrow>
      (\<forall>n\<in>set forked_regs. reg (exec FORK t) n = reg s n) \<and> reg_hi (exec FORK t) = reg_hi s \<and>
      reg_lo (exec FORK t) = reg_lo s \<and> reg (exec FORK t) 7 = cp0 s CP0_Cause)"
proof -
  obtain r h l c m where s: "s = \<lparr>reg = r, reg_hi = h, reg_lo = l, cp0 = c, memw = m\<rparr>" by (cases s)
  have p: "r 4 = p" using assms(1) by (simp add: s)
  note run = stst_umps_run [where r = r and h = h and l = l and c = c and m = m, OF p, folded s, folded s'_def]
  have R: "read_umps (memw s') p = \<lparr>um_entry_hi = cp0 s CP0_EntryHi, um_cause = cp0 s CP0_Cause, um_status = cp0 s CP0_Status,
      um_pc_epc = 0, um_gpr = map (reg s) gpr_regs, um_hi = reg_hi s, um_lo = reg_lo s\<rparr>"
    using run(1) by (simp add: s)
  moreover have "s'\<lparr>memw := memw s\<rparr> = s\<lparr>reg := (reg s)(2 := reg s 31)\<rparr>" by (subst run(2)) (simp add: s)
  moreover have "memw s' x = memw s x" if "\<forall>i<35. x \<noteq> p + 4 * of_nat i" for x
    using run(3) [of x] that by (simp add: list_all_iff s)
  moreover have "(\<forall>n\<in>set forked_regs. reg (exec FORK t) n = reg s n) \<and> reg_hi (exec FORK t) = reg_hi s \<and>
      reg_lo (exec FORK t) = reg_lo s \<and> reg (exec FORK t) 7 = cp0 s CP0_Cause" if "memw t = memw s'" "reg t 7 = p" for t
  proof -
    note f = fork_run [OF that(2), unfolded that(1)]
    show ?thesis
      using f R unfolding read_umps_def read_gpr gpr_regs_list forked_regs_def by (simp add: upt_rec)
  qed
  ultimately show ?thesis by blast
qed

definition demo_mips :: mips where
  "demo_mips = \<lparr>reg = (\<lambda>n. of_nat n + 100)(4 := 0x20001000), reg_hi = 7, reg_lo = 8, cp0 = (\<lambda>c. of_nat c), memw = (\<lambda>_. 0)\<rparr>"

theorem stst_fork_witness:
  "um_status (read_umps (memw (exec STST_UMPS demo_mips)) 0x20001000) = 12 \<and>
   reg (exec FORK ((exec STST_UMPS demo_mips)\<lparr>reg := (\<lambda>_. 0)(7 := 0x20001000)\<rparr>)) 29 = 129"
proof -
  have h: "reg demo_mips 4 = 0x20001000" by (simp add: demo_mips_def)
  note w = stst_fork [OF h]
  have "(29 :: nat) \<in> set forked_regs" by (simp add: forked_regs_def)
  then have "reg (exec FORK ((exec STST_UMPS demo_mips)\<lparr>reg := (\<lambda>_. 0)(7 := 0x20001000)\<rparr>)) 29 = reg demo_mips 29" using w by simp
  then show ?thesis using w by (simp add: demo_mips_def cp0_defs)
qed

section \<open>Starting another processor\<close>

definition BIOS_CPU_SCRATCH_RAM_SIZE :: u32 where "BIOS_CPU_SCRATCH_RAM_SIZE = 32"
definition BIOS_LEGACY_SCRATCH_BASE :: u32 where "BIOS_LEGACY_SCRATCH_BASE = 0x20000FE0"

definition INITCPU :: "(mips \<Rightarrow> mips) list" where
  "INITCPU = [LI 8 MCTL_BOOT_PC, LI 9 0x00000100, SW 9 0 8,
     LI 8 BIOS_CPU_SCRATCH_RAM_SIZE, MULT 8 4, MFLO 8, LI 9 BIOS_LEGACY_SCRATCH_BASE, SUBU 8 9 8,
     SW 5 4 8, SW 6 8 8, LI 8 MCTL_RESET_CPU, SW 4 0 8]"

text \<open>
  \<open>INITCPU\<close> leaves its arguments in the scratch area of the processor and resets it last; the areas of
  the sixteen processors are apart and above the exception areas of the first.
\<close>

definition cpu_scratch :: "u32 \<Rightarrow> u32" where
  "cpu_scratch i = BIOS_LEGACY_SCRATCH_BASE - BIOS_CPU_SCRATCH_RAM_SIZE * i"

lemma initcpu_writes:
  "memw (exec INITCPU s) = (memw s)(MCTL_BOOT_PC := 0x100, cpu_scratch (reg s 4) + 4 := reg s 5,
     cpu_scratch (reg s 4) + 8 := reg s 6, MCTL_RESET_CPU := reg s 4)"
proof -
  have "word_of_int (32 * sint (reg s 4)) = 32 * reg s 4" by simp
  then show ?thesis
    by (simp add: INITCPU_def mips_defs Let_def cpu_scratch_def BIOS_CPU_SCRATCH_RAM_SIZE_def)
qed

lemma cpu_scratch_unat: "i < 16 \<Longrightarrow> unat (cpu_scratch i) = 0x20000FE0 - 32 * unat i"
  by (simp add: cpu_scratch_def BIOS_LEGACY_SCRATCH_BASE_def BIOS_CPU_SCRATCH_RAM_SIZE_def word_less_nat_alt unat_sub unat_word_ariths
      word_le_nat_alt)

lemma cpu_scratch_apart:
  assumes "i < j" and "j < 16"
  shows "unat (cpu_scratch j) + 32 \<le> unat (cpu_scratch i)" "EXCV_BASE UMPS + 8 * STATE_T_SIZE UMPS \<le> cpu_scratch j"
proof -
  have i: "i < 16" using assms by (rule order.strict_trans)
  show "unat (cpu_scratch j) + 32 \<le> unat (cpu_scratch i)"
    using assms by (simp add: cpu_scratch_unat [OF i] cpu_scratch_unat [OF assms(2)] word_less_nat_alt)
  show "EXCV_BASE UMPS + 8 * STATE_T_SIZE UMPS \<le> cpu_scratch j"
    using assms(2) by (simp add: word_le_nat_alt cpu_scratch_unat [OF assms(2)] word_less_nat_alt)
qed

end
