(* ===== verification/Libuarm.thy ===== *)
theory Libuarm
  imports Bios
begin

text \<open>
  \<open>uarm/libuarm.s\<close>: the machine library of uARM. \<open>SYSCALL\<close>, \<open>BREAK\<close>, \<open>HALT\<close>, \<open>PANIC\<close> and \<open>LDST\<close> are
  one \<open>SWI\<close> each, with the numbers that \<open>Bios\<close> dispatches on; modelled here are \<open>STST\<close> and the
  functions that read and write coprocessor and bus registers. An argument and a result are in \<open>r0\<close>.
\<close>

section \<open>Reading and writing registers\<close>

definition getSTATUS :: "(arm \<Rightarrow> arm) list" where "getSTATUS = [MRS_CPSR 0]"
definition getCAUSE :: "(arm \<Rightarrow> arm) list" where "getCAUSE = [MRC c_cause 0]"
definition getCONTROL :: "(arm \<Rightarrow> arm) list" where "getCONTROL = [MRC c_control 0]"
definition getTLB_Index :: "(arm \<Rightarrow> arm) list" where "getTLB_Index = [MRC c_index 0]"
definition getTLB_Random :: "(arm \<Rightarrow> arm) list" where "getTLB_Random = [MRC c_random 0]"
definition getEntryHi :: "(arm \<Rightarrow> arm) list" where "getEntryHi = [MRC c_entryhi 0]"
definition getEntryLo :: "(arm \<Rightarrow> arm) list" where "getEntryLo = [MRC c_entrylo 0]"
definition getBadVAddr :: "(arm \<Rightarrow> arm) list" where "getBadVAddr = [MRC c_badvaddr 0]"
definition setSTATUS :: "(arm \<Rightarrow> arm) list" where "setSTATUS = [MSR_CPSR 0]"
definition setCAUSE :: "(arm \<Rightarrow> arm) list" where "setCAUSE = [MCR c_cause 0]"
definition setCONTROL :: "(arm \<Rightarrow> arm) list" where "setCONTROL = [MCR c_control 0]"
definition setTLB_Index :: "(arm \<Rightarrow> arm) list" where "setTLB_Index = [MCR c_index 0]"
definition setEntryHi :: "(arm \<Rightarrow> arm) list" where "setEntryHi = [MCR c_entryhi 0, MCR c_entryhi1 0]"
definition setEntryLo :: "(arm \<Rightarrow> arm) list" where "setEntryLo = [MCR c_entrylo 0]"

text \<open>\<open>push\<close> and \<open>pop\<close> of the registers a function uses.\<close>

definition PUSH :: "nat list \<Rightarrow> (arm \<Rightarrow> arm) list" where
  "PUSH ns = [SUB 13 13 (4 * of_nat (length ns)), STM 13 ns]"

definition POP :: "nat list \<Rightarrow> (arm \<Rightarrow> arm) list" where
  "POP ns = [LDM 13 ns, ADD 13 13 (4 * of_nat (length ns))]"

definition getTIMER_UARM :: "(arm \<Rightarrow> arm) list" where
  "getTIMER_UARM = PUSH [5] @ [MOV 5 BUS_REG_TIMER_UARM, LDR 0 5 0] @ POP [5]"
definition getTODHI_UARM :: "(arm \<Rightarrow> arm) list" where
  "getTODHI_UARM = PUSH [5] @ [MOV 5 BUS_REG_TOD_HI_UARM, LDR 0 5 0] @ POP [5]"
definition getTODLO_UARM :: "(arm \<Rightarrow> arm) list" where
  "getTODLO_UARM = PUSH [5] @ [MOV 5 BUS_REG_TOD_LO_UARM, LDR 0 5 0] @ POP [5]"
definition setTIMER_UARM :: "(arm \<Rightarrow> arm) list" where
  "setTIMER_UARM = PUSH [5] @ [MOV 5 BUS_REG_TIMER_UARM, STR_w 0 5 0] @ POP [5]"

lemmas access_defs = getSTATUS_def getCAUSE_def getCONTROL_def getTLB_Index_def getTLB_Random_def getEntryHi_def
  getEntryLo_def getBadVAddr_def setSTATUS_def setCAUSE_def setCONTROL_def setTLB_Index_def setEntryHi_def setEntryLo_def

lemmas bus_access_defs = getTIMER_UARM_def getTODHI_UARM_def getTODLO_UARM_def setTIMER_UARM_def PUSH_def POP_def

section \<open>STST\<close>

definition STST_UARM :: "(arm \<Rightarrow> arm) list" where
  "STST_UARM =
     [STM 0 [0, 1, 2, 3, 4, 5, 6, 7, 8, 9, 10, 11, 12, 13, 14, 15]] @ PUSH [5, 6, 7, 8] @
     [ADD 5 0 PSR_OFFSET, MRS_CPSR 6, STR_w 6 5 0, ADD 5 5 4,
      MRC c_control 6, MRC c_entryhi 7, MRC c_cause 8, STM 5 [6, 7, 8],
      MOV 6 BUS_REG_TOD_HI_UARM, LDR 7 6 0, MOV 6 BUS_REG_TOD_LO_UARM, LDR 8 6 0, STM 5 [7, 8]] @
     POP [5, 6, 7, 8]"

text \<open>The stack words that \<open>STST\<close> pushes to are apart from the state and the clock.\<close>

definition stack_words :: "u32 \<Rightarrow> u32 list" where
  "stack_words sp = [sp - 16, sp - 12, sp - 8, sp - 4]"

definition stack_apart :: "u32 \<Rightarrow> u32 \<Rightarrow> bool" where
  "stack_apart sp p \<longleftrightarrow> list_all (\<lambda>x. x \<notin> state_words p \<and> x \<noteq> BUS_REG_TOD_HI_UARM \<and> x \<noteq> BUS_REG_TOD_LO_UARM)
     (stack_words sp)"

text \<open>
  The proof names the four words, so that the simplifier compares them with the state as atoms.
\<close>

lemma notin_state_words:
  "y \<notin> state_words p \<longleftrightarrow> list_all (\<lambda>i. y \<noteq> p + i \<and> p + i \<noteq> y)
     [0, 4, 8, 12, 16, 20, 24, 28, 32, 36, 40, 44, 48, 52, 56, 60, 64, 68, 72, 76, 80, 84]"
  by (auto simp add: state_words_def)

lemma distinct_both: "distinct (x # xs) \<longleftrightarrow> list_all (\<lambda>y. x \<noteq> y \<and> y \<noteq> x) xs \<and> distinct xs"
  by (auto simp: list_all_iff)

lemma stst_run:
  fixes g b c q x m p a0 a1 a2 a3 b0
  defines "s \<equiv> \<lparr>gpr = g, bank = b, cpsr = c, spsr = q, cp15 = x, ram = m\<rparr>"
  assumes a: "bank_of c = b0" "b b0 13 - 16 = a0" "a0 + 4 = a1" "a1 + 4 = a2" "a2 + 4 = a3" "a0 + 16 = b b0 13" "g 0 = p"
    and ne: "a0 \<notin> state_words p" "a1 \<notin> state_words p" "a2 \<notin> state_words p" "a3 \<notin> state_words p"
      "BUS_REG_TOD_HI_UARM \<notin> state_words p" "BUS_REG_TOD_LO_UARM \<notin> state_words p"
    and d: "distinct [a0, a1, a2, a3, BUS_REG_TOD_HI_UARM, BUS_REG_TOD_LO_UARM]"
  shows "read_state (ram (run STST_UARM s)) p = (seen_state c (g 15) s)
      \<lparr>ua_CP15_Control := m BUS_REG_TOD_HI_UARM, ua_CP15_EntryHi := m BUS_REG_TOD_LO_UARM,
       ua_CP15_Cause := x c_cause, ua_TOD_Hi := m (p + 80), ua_TOD_Low := m (p + 84)\<rparr>"
    "(run STST_UARM s)\<lparr>ram := m\<rparr> = s"
    "y \<notin> state_words p \<Longrightarrow> y \<notin> {a0, a1, a2, a3} \<Longrightarrow> ram (run STST_UARM s) y = m y"
proof -
  note n = ne [unfolded notin_state_words list.pred_inject add_0_right simp_thms uarm_map_defs]
  note d' = d [unfolded distinct_both list.pred_inject distinct.simps(1) simp_thms uarm_map_defs]
  note sim = s_def STST_UARM_def PUSH_def POP_def arm_defs bios_defs a n d' uarm_map_defs offset_simps
  show "read_state (ram (run STST_UARM s)) p = (seen_state c (g 15) s)
      \<lparr>ua_CP15_Control := m BUS_REG_TOD_HI_UARM, ua_CP15_EntryHi := m BUS_REG_TOD_LO_UARM,
       ua_CP15_Cause := x c_cause, ua_TOD_Hi := m (p + 80), ua_TOD_Low := m (p + 84)\<rparr>"
    by (simp add: sim seen_state_def read_state_def)
  show "(run STST_UARM s)\<lparr>ram := m\<rparr> = s" by (simp add: sim)
  show "y \<notin> state_words p \<Longrightarrow> y \<notin> {a0, a1, a2, a3} \<Longrightarrow> ram (run STST_UARM s) y = m y"
    unfolding notin_state_words list.pred_inject add_0_right simp_thms by (simp add: sim)
qed

lemma stack_words_chain:
  "stack_words sp = [sp - 16, sp - 16 + 4, sp - 16 + 4 + 4, sp - 16 + 4 + 4 + 4]" "sp - 16 + 16 = (sp :: u32)"
  by (simp_all add: stack_words_def)

lemma distinct_chain: "distinct [a, a + 4, a + 4 + 4, a + 4 + 4 + 4 :: u32]"
  by simp

text \<open>
  C40. \<open>STST\<close> changes no register and, outside its stack words, only the state it is given. It stores
  all the registers of the program, the status and the cause, but its last two stores go to the place of
  the fields before: the time of day lands in the fields of \<open>CP15_Control\<close> and \<open>CP15_EntryHi\<close>, whose
  values are lost, and the fields of the time of day keep what they had.
\<close>

theorem stst_misplaces_clock:
  assumes "gpr s 0 = p" "BUS_REG_TOD_HI_UARM \<notin> state_words p" "BUS_REG_TOD_LO_UARM \<notin> state_words p"
    and "stack_apart (bank s (bank_of (cpsr s)) 13) p"
  defines "s' \<equiv> run STST_UARM s"
  shows "read_state (ram s') p = (seen_state (cpsr s) (gpr s 15) s)
      \<lparr>ua_CP15_Control := ram s BUS_REG_TOD_HI_UARM, ua_CP15_EntryHi := ram s BUS_REG_TOD_LO_UARM,
       ua_CP15_Cause := cp15 s c_cause, ua_TOD_Hi := ram s (p + 80), ua_TOD_Low := ram s (p + 84)\<rparr>
    \<and> s'\<lparr>ram := ram s\<rparr> = s
    \<and> (\<forall>y. y \<notin> state_words p \<and> y \<notin> set (stack_words (bank s (bank_of (cpsr s)) 13)) \<longrightarrow> ram s' y = ram s y)"
proof -
  obtain g b c q x m where s: "s = \<lparr>gpr = g, bank = b, cpsr = c, spsr = q, cp15 = x, ram = m\<rparr>" by (cases s)
  let ?a = "b (bank_of c) 13 - 16"
  have ap: "stack_apart (b (bank_of c) 13) p" using assms(4) by (simp add: s)
  have d: "distinct [?a, ?a + 4, ?a + 4 + 4, ?a + 4 + 4 + 4, BUS_REG_TOD_HI_UARM, BUS_REG_TOD_LO_UARM]"
    using distinct_chain [of ?a] ap unfolding stack_apart_def stack_words_chain(1) by (simp add: uarm_map_defs)
  have n: "?a \<notin> state_words p" "?a + 4 \<notin> state_words p" "?a + 4 + 4 \<notin> state_words p" "?a + 4 + 4 + 4 \<notin> state_words p"
    using ap unfolding stack_apart_def stack_words_chain(1) by simp_all
  have "g 0 = p" using assms(1) by (simp add: s)
  note r = stst_run [where b = b and c = c and g = g and q = q and x = x and m = m, OF refl refl refl refl refl stack_words_chain(2) this n assms(2,3) d]
  show ?thesis using r by (simp add: s'_def s stack_words_chain(1))
qed

theorem stst_misplaces_clock_witness:
  "read_state (ram (run STST_UARM (\<lparr>gpr = (\<lambda>n. 100 + of_nat n)(0 := 0x1000), bank = (\<lambda>_ _. 0x2000), cpsr = 0x13, spsr = (\<lambda>_. 0),
       cp15 = (\<lambda>_. 5), ram = (\<lambda>x. x)\<rparr>))) 0x1000
   = \<lparr>ua_a1 = 0x1000, ua_a2 = 101, ua_a3 = 102, ua_a4 = 103, ua_v1 = 104, ua_v2 = 105, ua_v3 = 106, ua_v4 = 107,
     ua_v5 = 108, ua_v6 = 109, ua_sl = 110, ua_fp = 111, ua_ip = 112, ua_sp = 0x2000, ua_lr = 0x2000, ua_pc = 115,
     ua_cpsr = 0x13, ua_CP15_Control = BUS_REG_TOD_HI_UARM, ua_CP15_EntryHi = BUS_REG_TOD_LO_UARM, ua_CP15_Cause = 5,
     ua_TOD_Hi = 0x1050, ua_TOD_Low = 0x1054\<rparr>"
  using stst_misplaces_clock [of "\<lparr>gpr = (\<lambda>n. 100 + of_nat n)(0 := 0x1000), bank = (\<lambda>_ _. 0x2000), cpsr = 0x13, spsr = (\<lambda>_. 0),
       cp15 = (\<lambda>_. 5), ram = (\<lambda>x. x)\<rparr>" "0x1000"]
  by (simp add: seen_state_def state_words_def stack_apart_def stack_words_def uarm_map_defs)

section \<open>What the accessors do\<close>

text \<open>A register written and read back; no other register of the coprocessor changes.\<close>

lemma set_get_cp15:
  "gpr (run (setCAUSE @ getCAUSE) s) 0 = gpr s 0" "gpr (run (setCONTROL @ getCONTROL) s) 0 = gpr s 0"
  "gpr (run (setTLB_Index @ getTLB_Index) s) 0 = gpr s 0" "gpr (run (setEntryHi @ getEntryHi) s) 0 = gpr s 0"
  "gpr (run (setEntryLo @ getEntryLo) s) 0 = gpr s 0" "gpr (run (setSTATUS @ getSTATUS) s) 0 = gpr s 0"
  by (simp_all add: access_defs arm_defs)

lemma set_cp15_frame:
  "run setCAUSE s = s\<lparr>cp15 := (cp15 s)(c_cause := gpr s 0)\<rparr>"
  "run setCONTROL s = s\<lparr>cp15 := (cp15 s)(c_control := gpr s 0)\<rparr>"
  "run setTLB_Index s = s\<lparr>cp15 := (cp15 s)(c_index := gpr s 0)\<rparr>"
  "run setEntryHi s = s\<lparr>cp15 := (cp15 s)(c_entryhi := gpr s 0, c_entryhi1 := gpr s 0)\<rparr>"
  "run setEntryLo s = s\<lparr>cp15 := (cp15 s)(c_entrylo := gpr s 0)\<rparr>"
  "run setSTATUS s = s\<lparr>cpsr := gpr s 0\<rparr>"
  by (simp_all add: access_defs arm_defs)

text \<open>
  The bus registers go through \<open>r5\<close>, which is restored as long as the word below the stack is not the
  register itself.
\<close>

lemma bus_register_access:
  assumes "bank s (bank_of (cpsr s)) 13 - 4 = a"
  shows "a \<noteq> BUS_REG_TIMER_UARM \<Longrightarrow> run getTIMER_UARM s
       = s\<lparr>gpr := (gpr s)(0 := ram s BUS_REG_TIMER_UARM), ram := (ram s)(a := gpr s 5)\<rparr>"
    "a \<noteq> BUS_REG_TOD_HI_UARM \<Longrightarrow> run getTODHI_UARM s
       = s\<lparr>gpr := (gpr s)(0 := ram s BUS_REG_TOD_HI_UARM), ram := (ram s)(a := gpr s 5)\<rparr>"
    "a \<noteq> BUS_REG_TOD_LO_UARM \<Longrightarrow> run getTODLO_UARM s
       = s\<lparr>gpr := (gpr s)(0 := ram s BUS_REG_TOD_LO_UARM), ram := (ram s)(a := gpr s 5)\<rparr>"
    "a \<noteq> BUS_REG_TIMER_UARM \<Longrightarrow> run setTIMER_UARM s
       = s\<lparr>ram := (ram s)(a := gpr s 5, BUS_REG_TIMER_UARM := gpr s 0)\<rparr>"
proof -
  obtain g b c q x m where s: "s = \<lparr>gpr = g, bank = b, cpsr = c, spsr = q, cp15 = x, ram = m\<rparr>" by (cases s)
  have e: "b (bank_of c) 13 - 4 = a" "a + 4 = b (bank_of c) 13" using assms by (auto simp: s)
  note sim = s bus_access_defs arm_defs e fun_upd_idem fun_upd_twist
  show "a \<noteq> BUS_REG_TIMER_UARM \<Longrightarrow> run getTIMER_UARM s
       = s\<lparr>gpr := (gpr s)(0 := ram s BUS_REG_TIMER_UARM), ram := (ram s)(a := gpr s 5)\<rparr>"
    "a \<noteq> BUS_REG_TOD_HI_UARM \<Longrightarrow> run getTODHI_UARM s
       = s\<lparr>gpr := (gpr s)(0 := ram s BUS_REG_TOD_HI_UARM), ram := (ram s)(a := gpr s 5)\<rparr>"
    "a \<noteq> BUS_REG_TOD_LO_UARM \<Longrightarrow> run getTODLO_UARM s
       = s\<lparr>gpr := (gpr s)(0 := ram s BUS_REG_TOD_LO_UARM), ram := (ram s)(a := gpr s 5)\<rparr>"
    "a \<noteq> BUS_REG_TIMER_UARM \<Longrightarrow> run setTIMER_UARM s
       = s\<lparr>ram := (ram s)(a := gpr s 5, BUS_REG_TIMER_UARM := gpr s 0)\<rparr>"
    by (simp_all add: sim)
qed

end
