(* ===== verification/Startup.thy ===== *)
theory Startup
  imports Libumps Libuarm
begin

text \<open>
  How control gets into the kernel and leaves it for the firmware: the start-up code \<open>umps/crtso.S\<close> and
  \<open>uarm/crtso.s\<close>, which run before \<open>main\<close>, and the functions of \<open>umps/libumps.S\<close> that issue one
  instruction of the machine. The firmware of uMPS is not part of the repository: what it is asked
  for is what the registers hold at the \<open>break\<close>; and an instruction whose effect only the machine
  knows is an argument of the function that issues it.
\<close>

section \<open>The registers of uMPS\<close>

definition r_v0 :: nat where "r_v0 = 2"
definition r_v1 :: nat where "r_v1 = 3"
definition r_a0 :: nat where "r_a0 = 4"
definition r_a1 :: nat where "r_a1 = 5"
definition r_a2 :: nat where "r_a2 = 6"
definition r_a3 :: nat where "r_a3 = 7"
definition r_t0 :: nat where "r_t0 = 8"
definition r_t1 :: nat where "r_t1 = 9"
definition r_t2 :: nat where "r_t2 = 10"
definition r_t3 :: nat where "r_t3 = 11"
definition r_t4 :: nat where "r_t4 = 12"
definition r_t5 :: nat where "r_t5 = 13"
definition r_t6 :: nat where "r_t6 = 14"
definition r_t7 :: nat where "r_t7 = 15"
definition r_s0 :: nat where "r_s0 = 16"
definition r_s1 :: nat where "r_s1 = 17"
definition r_s2 :: nat where "r_s2 = 18"
definition r_s3 :: nat where "r_s3 = 19"
definition r_s4 :: nat where "r_s4 = 20"
definition r_s5 :: nat where "r_s5 = 21"
definition r_s6 :: nat where "r_s6 = 22"
definition r_s7 :: nat where "r_s7 = 23"
definition r_t8 :: nat where "r_t8 = 24"
definition r_t9 :: nat where "r_t9 = 25"
definition r_k0 :: nat where "r_k0 = 26"
definition r_k1 :: nat where "r_k1 = 27"
definition r_gp :: nat where "r_gp = 28"
definition r_sp :: nat where "r_sp = 29"
definition r_fp :: nat where "r_fp = 30"
definition r_s8 :: nat where "r_s8 = 30"
definition r_ra :: nat where "r_ra = 31"

lemmas regdef = r_v0_def r_v1_def r_a0_def r_a1_def r_a2_def r_a3_def r_t0_def r_t1_def r_t2_def r_t3_def
  r_t4_def r_t5_def r_t6_def r_t7_def r_s0_def r_s1_def r_s2_def r_s3_def r_s4_def r_s5_def r_s6_def r_s7_def
  r_t8_def r_t9_def r_k0_def r_k1_def r_gp_def r_sp_def r_fp_def r_s8_def r_ra_def

text \<open>\<open>STST\<close> and \<open>FORK\<close> as they are written in the source, with the names of the registers.\<close>

lemma named_registers:
  "STST_UMPS = [SW 1 16 r_a0, SW r_v0 20 r_a0, MFC0 r_v0 CP0_Cause, SW r_v0 4 r_a0, SW r_v1 24 r_a0, SW r_a0 28 r_a0, SW
      r_a1 32 r_a0, SW r_a2 36 r_a0, SW r_a3 40 r_a0, SW r_t0 44 r_a0, SW r_t1 48 r_a0, SW r_t2 52 r_a0, SW r_t3
      56 r_a0, SW r_t4 60 r_a0, SW r_t5 64 r_a0, SW r_t6 68 r_a0, SW r_t7 72 r_a0, SW r_s0 76 r_a0, SW r_s1 80
      r_a0, SW r_s2 84 r_a0, SW r_s3 88 r_a0, SW r_s4 92 r_a0, SW r_s5 96 r_a0, SW r_s6 100 r_a0, SW r_s7 104
      r_a0, SW r_t8 108 r_a0, SW r_t9 112 r_a0, SW r_gp 116 r_a0, SW r_sp 120 r_a0, SW r_fp 124 r_a0, SW r_ra 128
      r_a0, MFHI r_a1, SW r_a1 132 r_a0, MFLO r_a1, SW r_a1 136 r_a0, MFC0 r_v0 CP0_EntryHi, SW r_v0 0 r_a0, MFC0
      r_v0 CP0_Status, SW r_v0 8 r_a0, SW 0 12 r_a0, LW r_v1 24 r_a0, LW r_a1 32 r_a0, MOVE r_v0 r_ra]"
  "FORK = [LW 1 132 r_a3, MTHI 1, LW 1 136 r_a3, MTLO 1, LW 1 16 r_a3, LW r_v1 24 r_a3, LW r_t0 44 r_a3, LW r_t1 48
      r_a3, LW r_t2 52 r_a3, LW r_t3 56 r_a3, LW r_t4 60 r_a3, LW r_t5 64 r_a3, LW r_t6 68 r_a3, LW r_t7 72 r_a3,
      LW r_s0 76 r_a3, LW r_s1 80 r_a3, LW r_s2 84 r_a3, LW r_s3 88 r_a3, LW r_s4 92 r_a3, LW r_s5 96 r_a3, LW
      r_s6 100 r_a3, LW r_s7 104 r_a3, LW r_t8 108 r_a3, LW r_t9 112 r_a3, LW r_gp 116 r_a3, LW r_sp 120 r_a3, LW
      r_fp 124 r_a3, LW r_ra 128 r_a3, LW r_a3 4 r_a3, MOVE r_v0 r_a0, LI r_a0 BIOS_SRV_FORK_UMPS]"
  by (simp_all add: STST_UMPS_def FORK_def regdef)

section \<open>The layout of a core file\<close>

definition N_BIOS_PAGES :: u32 where "N_BIOS_PAGES = 1"
definition CORE_HDR_SIZE :: u32 where "CORE_HDR_SIZE = N_BIOS_PAGES * 1024 + 1"
definition AOUT_HE_TAG :: u32 where "AOUT_HE_TAG = 0"
definition AOUT_HE_ENTRY :: u32 where "AOUT_HE_ENTRY = 1"
definition AOUT_HE_TEXT_VADDR :: u32 where "AOUT_HE_TEXT_VADDR = 2"
definition AOUT_HE_TEXT_MEMSZ :: u32 where "AOUT_HE_TEXT_MEMSZ = 3"
definition AOUT_HE_TEXT_OFFSET :: u32 where "AOUT_HE_TEXT_OFFSET = 4"
definition AOUT_HE_TEXT_FILESZ :: u32 where "AOUT_HE_TEXT_FILESZ = 5"
definition AOUT_HE_DATA_VADDR :: u32 where "AOUT_HE_DATA_VADDR = 6"
definition AOUT_HE_DATA_MEMSZ :: u32 where "AOUT_HE_DATA_MEMSZ = 7"
definition AOUT_HE_DATA_OFFSET :: u32 where "AOUT_HE_DATA_OFFSET = 8"
definition AOUT_HE_DATA_FILESZ :: u32 where "AOUT_HE_DATA_FILESZ = 9"
definition AOUT_HE_GP_VALUE :: u32 where "AOUT_HE_GP_VALUE = 42"
definition N_AOUT_HDR_ENT :: u32 where "N_AOUT_HDR_ENT = 43"
definition CORE_TEXT_VADDR :: u32 where "CORE_TEXT_VADDR = 0x20001000"

lemmas aout_defs = N_BIOS_PAGES_def CORE_HDR_SIZE_def AOUT_HE_TAG_def AOUT_HE_ENTRY_def AOUT_HE_TEXT_VADDR_def
  AOUT_HE_TEXT_MEMSZ_def AOUT_HE_TEXT_OFFSET_def AOUT_HE_TEXT_FILESZ_def AOUT_HE_DATA_VADDR_def AOUT_HE_DATA_MEMSZ_def
  AOUT_HE_DATA_OFFSET_def AOUT_HE_DATA_FILESZ_def AOUT_HE_GP_VALUE_def N_AOUT_HDR_ENT_def CORE_TEXT_VADDR_def

text \<open>The text starts after the pages reserved for the firmware, and its header holds the value of \<open>gp\<close>.\<close>

lemma core_layout:
  "CORE_TEXT_VADDR = RAM_BASE_UMPS + N_BIOS_PAGES * FRAME_SIZE" "AOUT_HE_GP_VALUE < N_AOUT_HDR_ENT"
  "CORE_HDR_SIZE * WORD_SIZE = N_BIOS_PAGES * FRAME_SIZE + WORD_SIZE"
  by (simp_all add: aout_defs RAM_BASE_UMPS_def FRAME_SIZE_def il_defs)

section \<open>Asking the firmware\<close>

definition BIOS_SRV_LDST_UMPS :: u32 where "BIOS_SRV_LDST_UMPS = 1"
definition BIOS_SRV_PANIC_UMPS :: u32 where "BIOS_SRV_PANIC_UMPS = 2"
definition BIOS_SRV_HALT_UMPS :: u32 where "BIOS_SRV_HALT_UMPS = 3"

text \<open>The functions up to their \<open>break\<close>, with the number of the service in \<open>a0\<close>.\<close>

definition HALT_UMPS :: "(mips \<Rightarrow> mips) list" where "HALT_UMPS = [LI r_a0 BIOS_SRV_HALT_UMPS]"
definition PANIC_UMPS :: "(mips \<Rightarrow> mips) list" where "PANIC_UMPS = [LI r_a0 BIOS_SRV_PANIC_UMPS]"
definition LDST_UMPS :: "(mips \<Rightarrow> mips) list" where "LDST_UMPS = [MOVE r_a1 r_a0, LI r_a0 BIOS_SRV_LDST_UMPS]"

section \<open>Issuing an instruction\<close>

definition NOP :: "mips \<Rightarrow> mips" where "NOP s = s"

definition SYSCALL_UMPS :: "(mips \<Rightarrow> mips) \<Rightarrow> (mips \<Rightarrow> mips) list" where "SYSCALL_UMPS syscall = [NOP, syscall, NOP]"
definition TLBWR_UMPS :: "(mips \<Rightarrow> mips) \<Rightarrow> (mips \<Rightarrow> mips) list" where "TLBWR_UMPS tlbwr = [NOP, tlbwr, NOP]"
definition TLBWI_UMPS :: "(mips \<Rightarrow> mips) \<Rightarrow> (mips \<Rightarrow> mips) list" where "TLBWI_UMPS tlbwi = [NOP, tlbwi, NOP]"
definition TLBP_UMPS :: "(mips \<Rightarrow> mips) \<Rightarrow> (mips \<Rightarrow> mips) list" where "TLBP_UMPS tlbp = [NOP, tlbp, NOP]"
definition TLBR_UMPS :: "(mips \<Rightarrow> mips) \<Rightarrow> (mips \<Rightarrow> mips) list" where "TLBR_UMPS tlbr = [NOP, tlbr, NOP]"
definition TLBCLR_UMPS :: "(mips \<Rightarrow> mips) list" where "TLBCLR_UMPS = [NOP, MTC0 r_a0 4, NOP]"
definition WAIT_UMPS :: "(mips \<Rightarrow> mips) \<Rightarrow> (mips \<Rightarrow> mips) list" where "WAIT_UMPS wait = [NOP, wait, NOP]"
definition CAS_UMPS :: "(nat \<Rightarrow> nat \<Rightarrow> nat \<Rightarrow> mips \<Rightarrow> mips) \<Rightarrow> (mips \<Rightarrow> mips) list" where
  "CAS_UMPS casopc = [casopc r_a2 r_a0 r_a1, MOVE r_v0 r_a2]"

lemma issued:
  "exec (SYSCALL_UMPS i) s = i s" "exec (TLBWR_UMPS i) s = i s" "exec (TLBWI_UMPS i) s = i s" "exec (TLBP_UMPS i) s = i s"
  "exec (TLBR_UMPS i) s = i s" "exec (WAIT_UMPS i) s = i s"
  "rd r_v0 (exec (CAS_UMPS c) s) = rd r_a2 (c r_a2 r_a0 r_a1 s)" "memw (exec (CAS_UMPS c) s) = memw (c r_a2 r_a0 r_a1 s)"
  by (simp_all add: SYSCALL_UMPS_def TLBWR_UMPS_def TLBWI_UMPS_def TLBP_UMPS_def TLBR_UMPS_def WAIT_UMPS_def CAS_UMPS_def
      NOP_def mips_defs regdef)

section \<open>Start-up\<close>

text \<open>
  \<open>__start\<close> of uMPS: up to \<open>jal main\<close>, which leaves the address it returns to in \<open>ra\<close>, and from there to the \<open>break\<close>.
  A load without a base register has the constant register 0 for base.
\<close>

definition ADDU :: "nat \<Rightarrow> nat \<Rightarrow> nat \<Rightarrow> mips \<Rightarrow> mips" where "ADDU d a b s = wr d (rd a s + rd b s) s"
definition ADDIU :: "nat \<Rightarrow> nat \<Rightarrow> u32 \<Rightarrow> mips \<Rightarrow> mips" where "ADDIU d a v s = wr d (rd a s + v) s"
definition JAL :: "u32 \<Rightarrow> mips \<Rightarrow> mips" where "JAL ret s = wr r_ra ret s"

definition START_UMPS :: "u32 \<Rightarrow> (mips \<Rightarrow> mips) list" where
  "START_UMPS ret =
     [LW r_k0 BUS_REG_RAM_BASE_UMPS 0, LW r_k1 BUS_REG_RAM_SIZE_UMPS 0, ADDU r_k0 r_k0 r_k1, ADDIU r_sp r_k0 (- 8),
      LW r_gp (CORE_TEXT_VADDR + push_bit 2 AOUT_HE_GP_VALUE) 0, ADDIU r_sp r_sp (- 16), JAL ret]"

definition FINISH_UMPS :: "(mips \<Rightarrow> mips) list" where
  "FINISH_UMPS = [ADDIU r_sp r_sp 16, LI r_a0 BIOS_SRV_HALT_UMPS, NOP]"

text \<open>\<open>__start\<close> of uARM: \<open>B main\<close>.\<close>

definition START_UARM :: "u32 \<Rightarrow> (arm \<Rightarrow> arm) list" where
  "START_UARM main_code = [MOV 15 main_code]"

lemma start_uarm: "run (START_UARM m) s = s\<lparr>gpr := (gpr s)(15 := m)\<rparr>"
  by (simp add: START_UARM_def arm_defs)

text \<open>
  C35. On a machine whose bus register holds the base of memory the kernel was built for, the start-up
  code of uMPS enters \<open>main\<close> with the stack pointer 24 bytes below the end of the
  installed memory that the kernel's \<open>RAM_TOP\<close> computes, the global pointer from the header of the
  core file, the return address in \<open>ra\<close>, and no word of memory changed; when \<open>main\<close> returns with
  its stack pointer, whatever else it has done, the firmware is asked to halt the machine, as by
  \<open>HALT\<close>. \<open>PANIC\<close> asks for its own service, and \<open>LDST\<close> for a third one with the address of the state
  in \<open>a1\<close>.
\<close>

theorem umps_startup:
  fixes s t :: mips and ret :: u32
  assumes base: "memw s BUS_REG_RAM_BASE_UMPS = RAM_BASE_UMPS"
  defines "m \<equiv> exec (START_UMPS ret) s"
  shows "reg m r_sp = RAM_TOP UMPS (memw s) - 24 \<and> reg m r_gp = memw s (0x20001000 + 4 * 42) \<and> reg m r_ra = ret \<and>
    memw m = memw s \<and> cp0 m = cp0 s \<and> (\<forall>n. n \<notin> {r_k0, r_k1, r_gp, r_sp, r_ra} \<longrightarrow> reg m n = reg s n) \<and>
    (reg t r_sp = reg m r_sp \<longrightarrow> reg (exec FINISH_UMPS t) r_sp = RAM_TOP UMPS (memw s) - 8 \<and>
       reg (exec FINISH_UMPS t) r_a0 = reg (exec HALT_UMPS t) r_a0) \<and>
    distinct [reg (exec HALT_UMPS t) r_a0, reg (exec PANIC_UMPS t) r_a0, reg (exec LDST_UMPS t) r_a0, reg (exec FORK t) r_a0] \<and>
    reg (exec LDST_UMPS t) r_a1 = reg t r_a0"
proof -
  have k: "rd 0 u = 0" for u by (simp add: rd_def)
  have top: "RAM_TOP_UMPS (memw s) = memw s BUS_REG_RAM_BASE_UMPS + memw s BUS_REG_RAM_SIZE_UMPS"
    by (simp add: base RAM_TOP_UMPS_def RAM_SIZE_UMPS_def BUS_REG_RAM_SIZE_UMPS_def)
  have fork: "reg (exec FORK t) r_a0 = BIOS_SRV_FORK_UMPS" by (simp add: FORK_def mips_defs regdef)
  have "reg m r_sp = RAM_TOP UMPS (memw s) - 24 \<and> reg m r_gp = memw s (0x20001000 + 4 * 42) \<and> reg m r_ra = ret \<and>
    memw m = memw s \<and> cp0 m = cp0 s \<and> (\<forall>n. n \<notin> {r_k0, r_k1, r_gp, r_sp, r_ra} \<longrightarrow> reg m n = reg s n)"
    by (simp add: m_def START_UMPS_def top mips_defs ADDU_def ADDIU_def JAL_def regdef aout_defs push_bit_eq_mult)
  moreover have "distinct [reg (exec HALT_UMPS t) r_a0, reg (exec PANIC_UMPS t) r_a0, reg (exec LDST_UMPS t) r_a0, reg (exec FORK t) r_a0]"
    unfolding fork by (simp add: HALT_UMPS_def PANIC_UMPS_def LDST_UMPS_def mips_defs regdef BIOS_SRV_HALT_UMPS_def
        BIOS_SRV_PANIC_UMPS_def BIOS_SRV_LDST_UMPS_def BIOS_SRV_FORK_UMPS_def)
  ultimately show ?thesis
    by (simp add: FINISH_UMPS_def HALT_UMPS_def LDST_UMPS_def mips_defs ADDIU_def NOP_def regdef)
qed

definition demo_start :: mips where
  "demo_start = demo_mips\<lparr>memw := (\<lambda>_. 0)(0x10000000 := 0x20000000, 0x10000004 := 0x80000)\<rparr>"

theorem umps_startup_witness:
  "reg (exec (START_UMPS 0x20001100) demo_start) r_sp = 0x2007FFE8"
proof -
  have "memw demo_start BUS_REG_RAM_BASE_UMPS = RAM_BASE_UMPS"
    by (simp add: demo_start_def BUS_REG_RAM_BASE_UMPS_def RAM_BASE_UMPS_def)
  from umps_startup [OF this, of "0x20001100" demo_start] show ?thesis
    by (simp add: demo_start_def RAM_TOP_UMPS_def RAM_SIZE_UMPS_def RAM_BASE_UMPS_def)
qed

end
