(* ===== verification/BiosBoot.thy ===== *)
theory BiosBoot
  imports Bios
begin

text \<open>
  The boot code of \<open>uarm/BIOS.s\<close>, from the start of the ROM to the first instruction of the kernel. It
  writes a branch to each handler into the exception vector, makes every new area one that panics, sets
  up the stack and enters the kernel. The addresses of the labels are a parameter, as the assembler
  chooses them.
\<close>

section \<open>The code\<close>

record rom_labels =
  lab_UNDEF_H :: u32
  lab_SWI_H :: u32
  lab_PREFABT_H :: u32
  lab_DATAABT_H :: u32
  lab_IRQ_H :: u32
  lab_FIQ_H :: u32
  lab_PANIC :: u32
  lab_HALT :: u32

text \<open>A branch to the handler at \<open>lab\<close>, stored at the address in \<open>r0\<close>, which then moves by \<open>step\<close>.\<close>

definition store_branch :: "u32 \<Rightarrow> u32 \<Rightarrow> (arm \<Rightarrow> arm) list" where
  "store_branch lab step = [ADD 2 1 lab, SUB_r 2 2 0, SUB 2 2 8, LSR 2 2 2, ORR_r 2 3 2, STR_w 2 0 0, ADD 0 0 step]"

definition BOOT_vectors :: "rom_labels \<Rightarrow> (arm \<Rightarrow> arm) list" where
  "BOOT_vectors l =
     [MOV_r 1 15, SUB 1 1 8, MOV 0 0, MOV 3 0xEA000000, LSR 2 1 2, ORR_r 2 3 2, STR_w 2 0 0, ADD 0 0 4] @
     store_branch (lab_UNDEF_H l) 4 @ store_branch (lab_SWI_H l) 4 @ store_branch (lab_PREFABT_H l) 4 @
     store_branch (lab_DATAABT_H l) 8 @ store_branch (lab_IRQ_H l) 4 @ store_branch (lab_FIQ_H l) 0"

text \<open>The new area at offset \<open>new\<close>: the program counter to \<open>PANIC\<close>, the status to \<open>psr\<close>.\<close>

definition default_area :: "u32 \<Rightarrow> u32 \<Rightarrow> (arm \<Rightarrow> arm) list" where
  "default_area new psr = [ADD 2 0 new, ADD 2 2 PSR_OFFSET, SUB 2 2 4, STR_w 8 2 0, ADD 2 2 4, MOV 9 psr, STR_w 9 2 0]"

definition BOOT_areas :: "rom_labels \<Rightarrow> (arm \<Rightarrow> arm) list" where
  "BOOT_areas l = [MOV 0 EXCV_BASE_UARM, ADD 8 1 (lab_PANIC l)] @ default_area EXCV_INT_NEW 0xD2 @
     default_area EXCV_PGMT_NEW 0xDB @ default_area EXCV_SWI_NEW 0xD3 @ default_area EXCV_TLB_NEW 0xD7"

definition BOOT_enter :: "rom_labels \<Rightarrow> (arm \<Rightarrow> arm) list" where
  "BOOT_enter l = [MOV 3 0x8000, ADD 3 3 4, LDR 2 3 0, MOV_r 14 2, MOV 0 0xDF, MSR_SPSR_cf 0, ADD 0 1 (lab_HALT l),
     MOV 2 BUS_REG_RAM_SIZE_UARM, LDR 3 2 0, MOV 2 BUS_REG_RAM_BASE_UARM, LDR 1 2 0, ADD_r 3 3 1, SUB 2 3 8,
     STR_w 3 2 0, STR_w 0 2 4, LDM_user 2,
     MOV 0 0, MOV 1 0, MOV 2 0, MOV 3 0, MOV 8 0, MOV 9 0, MOV_r 15 14, RESTORE_PSR]"

definition BOOT :: "rom_labels \<Rightarrow> arm \<Rightarrow> arm" where
  "BOOT l s = run (BOOT_vectors l @ BOOT_areas l @ BOOT_enter l) s"

lemmas boot_code_defs = store_branch_def BOOT_vectors_def default_area_def BOOT_areas_def BOOT_enter_def

section \<open>Branches\<close>

text \<open>
  Where the branch \<open>w\<close> at \<open>a\<close> goes: two words further on than its 24 bits of signed offset in words.
\<close>

definition branch_target :: "u32 \<Rightarrow> u32 \<Rightarrow> u32" where
  "branch_target a w = a + 8 + push_bit 2 (if bit w 23 then (w AND 0xFFFFFF) OR 0xFF000000 else w AND 0xFFFFFF)"

definition is_branch :: "u32 \<Rightarrow> bool" where
  "is_branch w \<longleftrightarrow> w AND 0xFF000000 = 0xEA000000"

lemma and_3: "x AND 3 = 0 \<longleftrightarrow> push_bit 2 (drop_bit 2 x) = (x :: u32)"
proof -
  have "push_bit 2 (drop_bit 2 x) + (x AND mask 2) = x" using bits_ident [of 2 x] by (simp add: take_bit_eq_mask)
  then show ?thesis by (simp add: mask_eq_exp_minus_1) (metis add_0_right add_left_cancel)
qed

lemma aligned_iff: "x AND 3 = 0 \<longleftrightarrow> 4 dvd unat (x :: u32)"
proof -
  have "x AND 3 = take_bit 2 x" by (simp add: take_bit_eq_mask mask_eq_exp_minus_1)
  then have "unat (x AND 3) = unat x mod 4" by (simp only: unsigned_take_bit_eq) (simp add: take_bit_eq_mod)
  then show ?thesis by (metis dvd_eq_mod_eq_0 unat_eq_zero)
qed

lemma branch_decodes:
  fixes d a :: u32
  assumes "d AND 3 = 0" and "d < 2 ^ 25"
  shows "is_branch (0xEA000000 OR drop_bit 2 d)" "branch_target a (0xEA000000 OR drop_bit 2 d) = a + 8 + d"
proof -
  let ?k = "drop_bit 2 d"
  have "unat d < 2 ^ 25" using assms(2) by (simp add: word_less_nat_alt)
  then have k: "?k < 2 ^ 23" by (simp add: word_less_nat_alt drop_bit_eq_div unat_div_distrib)
  then have "take_bit 23 ?k = ?k" by (simp add: word_unat_eq_iff unsigned_take_bit_eq word_less_nat_alt take_bit_nat_eq_self)
  then have e: "?k = ?k AND 0x7FFFFF" by (simp add: take_bit_eq_mask mask_eq_exp_minus_1)
  have low: "?k AND 0xFFFFFF = ?k" by (subst e, subst (2) e) (simp add: and.assoc)
  have high: "?k AND 0xFF000000 = 0" by (subst e) (simp add: and.assoc)
  have b: "\<not> bit ?k 23" by (subst e) (simp add: bit_and_iff)
  show "is_branch (0xEA000000 OR ?k)" by (simp add: is_branch_def bit.conj_disj_distrib2 high)
  show "branch_target a (0xEA000000 OR ?k) = a + 8 + d"
    using assms(1) by (simp add: branch_target_def bit.conj_disj_distrib2 low b bit_or_iff and_3)
qed

section \<open>Booting\<close>

text \<open>A label of the ROM at \<open>start\<close>: on a word, after the exception vector, in reach of a branch.\<close>

definition rom_address :: "u32 \<Rightarrow> bool" where
  "rom_address x \<longleftrightarrow> x AND 3 = 0 \<and> 0x24 \<le> x \<and> x < 2 ^ 25"

lemma rom_branch:
  fixes x a :: u32
  assumes "rom_address x" and "a \<in> {4, 8, 0xC, 0x10, 0x18, 0x1C}"
  shows "is_branch (0xEA000000 OR drop_bit 2 (x - a - 8))" "branch_target a (0xEA000000 OR drop_bit 2 (x - a - 8)) = x"
proof -
  have a: "unat a + 8 \<le> 36" "(a + 8) AND 3 = 0" "unat (a + 8) = unat a + 8" using assms(2) by auto
  have le: "a + 8 \<le> x" using assms(1) a by (simp add: rom_address_def word_le_nat_alt)
  have "x - (a + 8) \<le> x" using le by (simp add: word_le_nat_alt unat_sub)
  then have lt: "x - (a + 8) < 2 ^ 25" using assms(1) by (auto simp: rom_address_def intro: order.strict_trans1)
  have "4 dvd unat x" "4 dvd unat (a + 8)" using assms(1) a(2) by (simp_all add: rom_address_def aligned_iff)
  then have al: "(x - (a + 8)) AND 3 = 0" using le by (simp add: aligned_iff unat_sub dvd_diff_nat)
  show "is_branch (0xEA000000 OR drop_bit 2 (x - a - 8))" "branch_target a (0xEA000000 OR drop_bit 2 (x - a - 8)) = x"
    using branch_decodes [OF al lt] by (simp_all add: diff_diff_eq)
qed

definition default_areas :: "(u32 \<times> u32) list" where
  "default_areas = [(INT_NEWAREA UARM, STATUS_INT_MODE), (TLB_NEWAREA UARM, STATUS_TLB_MODE),
     (PGMTRAP_NEWAREA UARM, STATUS_PGMT_MODE), (SYSBK_NEWAREA UARM, STATUS_SRV_MODE)]"

definition vectors :: "rom_labels \<Rightarrow> (u32 \<times> u32) list" where
  "vectors l = [(0x4, lab_UNDEF_H l), (0x8, lab_SWI_H l), (0xC, lab_PREFABT_H l), (0x10, lab_DATAABT_H l),
     (0x18, lab_IRQ_H l), (0x1C, lab_FIQ_H l)]"

lemma boot_run:
  fixes g b c q x m l t u
  defines "s \<equiv> \<lparr>gpr = g, bank = b, cpsr = c, spsr = q, cp15 = x, ram = m\<rparr>"
  defines "s' \<equiv> BOOT l s"
  assumes g: "g 15 - 8 = start" and t: "m 0x2D4 + m 0x2D0 = t" "t - 8 = u" "u + 4 = v" and c: "bank_of c \<noteq> STATUS_USER_MODE"
    and far: "\<And>y. y < 0x8000 \<Longrightarrow> (u = y) = False" "\<And>y. y < 0x8000 \<Longrightarrow> (y = u) = False"
      "\<And>y. y < 0x8000 \<Longrightarrow> (v = y) = False" "\<And>y. y < 0x8000 \<Longrightarrow> (y = v) = False"
  shows "list_all (\<lambda>(a, h). ram s' a = 0xEA000000 OR drop_bit 2 (start + h - a - 8)) (vectors l)"
    "ram s' 0 = 0xEA000000 OR drop_bit 2 start"
    "list_all (\<lambda>(a, mode). ram s' (a + 60) = start + lab_PANIC l \<and> ram s' (a + 64) = mode OR 0xC0) default_areas"
    "gpr s' 15 = m 0x8004" "cpsr s' = (q (mode_of c) AND 0x00FFFF00) OR 0xDF"
    "bank s' STATUS_USER_MODE 13 = t" "bank s' STATUS_USER_MODE 14 = start + lab_HALT l"
proof -
  have uv: "u \<noteq> v" "v \<noteq> u" using t by auto
  note sim = s'_def s_def BOOT_def boot_code_defs arm_defs RESTORE_PSR_def bios_defs uarm_map_defs g t c far uv
  show "list_all (\<lambda>(a, h). ram s' a = 0xEA000000 OR drop_bit 2 (start + h - a - 8)) (vectors l)"
    by (simp add: sim vectors_def)
  show "ram s' 0 = 0xEA000000 OR drop_bit 2 start" by (simp add: sim)
  show "list_all (\<lambda>(a, mode). ram s' (a + 60) = start + lab_PANIC l \<and> ram s' (a + 64) = mode OR 0xC0) default_areas"
    by (simp add: sim default_areas_def area_defs uarm_mode_defs)
  show "gpr s' 15 = m 0x8004" by (simp add: sim)
  show "cpsr s' = (q (mode_of c) AND 0x00FFFF00) OR 0xDF" by (simp add: sim)
  show "bank s' STATUS_USER_MODE 13 = t" "bank s' STATUS_USER_MODE 14 = start + lab_HALT l" by (simp_all add: sim)
qed

lemma boot_status:
  "mode_of ((x AND 0x00FFFF00) OR 0xDF) = STATUS_SYS_MODE" "((x AND 0x00FFFF00) OR 0xDF) AND 0xC0 = 0xC0"
  by (simp_all add: mode_of_def bit.conj_disj_distrib2 and.assoc uarm_mode_defs)

text \<open>
  C33. The boot code of uARM. It leaves a branch to the right handler in the vector of every exception;
  the new area of every exception enters \<open>PANIC\<close> in the mode of that exception with interrupts disabled,
  until the kernel installs its own; the kernel starts at the entry point stored in its image, in
  system mode with interrupts disabled, with the stack at the end of memory and a return to \<open>HALT\<close>. The
  vector of the reset is the exception: its branch goes two instructions past the start of the boot
  code, since its offset is not reduced by eight.
\<close>

theorem bios_boots:
  assumes "gpr s 15 = start + 8" and "bank_of (cpsr s) \<noteq> STATUS_USER_MODE" and "0x8008 \<le> RAM_TOP UARM (ram s)"
    and "start AND 3 = 0" and "start < 2 ^ 25" and "list_all (\<lambda>(a, h). rom_address (start + h)) (vectors l)"
  defines "s' \<equiv> BOOT l s"
  shows "list_all (\<lambda>(a, h). is_branch (ram s' a) \<and> branch_target a (ram s' a) = start + h) (vectors l) \<and>
    is_branch (ram s' 0) \<and> branch_target 0 (ram s' 0) = start + 8 \<and>
    list_all (\<lambda>(a, mode). ua_pc (read_state (ram s') a) = start + lab_PANIC l \<and>
       mode_of (ua_cpsr (read_state (ram s') a)) = mode \<and> ua_cpsr (read_state (ram s') a) AND 0xC0 = 0xC0) default_areas \<and>
    gpr s' 15 = ram s 0x8004 \<and> mode_of (cpsr s') = STATUS_SYS_MODE \<and> cpsr s' AND 0xC0 = 0xC0 \<and>
    bank s' (bank_of (cpsr s')) 13 = RAM_TOP UARM (ram s) \<and> bank s' (bank_of (cpsr s')) 14 = start + lab_HALT l"
proof -
  obtain g b c q x m where s: "s = \<lparr>gpr = g, bank = b, cpsr = c, spsr = q, cp15 = x, ram = m\<rparr>" by (cases s)
  define t where "t = m 0x2D4 + m 0x2D0"
  have top: "RAM_TOP UARM m = t" by (simp add: t_def RAM_TOP_UARM_def uarm_map_defs add.commute)
  have "0x8008 \<le> t" using assms(3) top by (simp add: s)
  then have far: "0x8000 \<le> t - 8" "0x8000 \<le> t - 8 + 4" by (simp_all add: word_le_nat_alt unat_sub unat_word_ariths)
  have ne: "(y = z) = False" "(z = y) = False" if "0x8000 \<le> y" "z < 0x8000" for y z :: u32 using that by auto
  have h: "g 15 - 8 = start" "bank_of c \<noteq> STATUS_USER_MODE" using assms(1,2) by (simp_all add: s)
  note r = boot_run [where g = g and b = b and c = c and q = q and x = x and m = m and l = l, OF h(1) t_def [symmetric] refl refl h(2)
      ne [OF far(1)] ne [OF far(2)], folded s, folded s'_def]
  have v: "is_branch (ram s' a) \<and> branch_target a (ram s' a) = start + h" if "(a, h) \<in> set (vectors l)" for a h
  proof -
    have "rom_address (start + h)" using assms(6) that by (auto simp: list_all_iff)
    moreover have "a \<in> {4, 8, 0xC, 0x10, 0x18, 0x1C}" using that by (auto simp: vectors_def)
    ultimately show ?thesis using r(1) rom_branch [of "start + h" a] that by (auto simp: list_all_iff)
  qed
  have d: "a \<in> set default_areas \<Longrightarrow> mode_of (snd a OR 0xC0) = snd a \<and> (snd a OR 0xC0) AND 0xC0 = 0xC0" for a
    by (auto simp: default_areas_def mode_of_def uarm_mode_defs)
  have "bank_of (cpsr s') = STATUS_USER_MODE" by (simp add: r(5) bank_of_def boot_status)
  then show ?thesis
    using v r(2-7) branch_decodes(1) [OF assms(4,5)] branch_decodes(2) [OF assms(4,5), of 0] d boot_status [of "q (mode_of c)"] top
    by (auto simp: list_all_iff read_state_def s)
qed

text \<open>The labels of the file, with one word per instruction, and 512 KB of memory.\<close>

definition bios_labels :: rom_labels where
  "bios_labels = \<lparr>lab_UNDEF_H = 0x204, lab_SWI_H = 0x170, lab_PREFABT_H = 0x250, lab_DATAABT_H = 0x234, lab_IRQ_H = 0x2DC,
     lab_FIQ_H = 0x2DC, lab_PANIC = 0x32C, lab_HALT = 0x30C\<rparr>"

definition reset_arm :: arm where
  "reset_arm = \<lparr>gpr = (\<lambda>_. 0)(15 := KSEGOS_BIOS_BASE_UARM + 8), bank = (\<lambda>_ _. 0), cpsr = 0xD3, spsr = (\<lambda>_. 0), cp15 = (\<lambda>_. 0),
     ram = (\<lambda>_. 0)(BUS_REG_RAM_BASE_UARM := 0x8000, BUS_REG_RAM_SIZE_UARM := 0x80000, 0x8004 := 0x8094)\<rparr>"

theorem bios_boots_witness:
  "branch_target 8 (ram (BOOT bios_labels reset_arm) 8) = 0x470 \<and> gpr (BOOT bios_labels reset_arm) 15 = 0x8094 \<and>
   branch_target 0 (ram (BOOT bios_labels reset_arm) 0) = KSEGOS_BIOS_BASE_UARM + 8"
proof -
  have "gpr reset_arm 15 = KSEGOS_BIOS_BASE_UARM + 8" "bank_of (cpsr reset_arm) \<noteq> STATUS_USER_MODE"
    "0x8008 \<le> RAM_TOP UARM (ram reset_arm)" "KSEGOS_BIOS_BASE_UARM AND 3 = 0" "KSEGOS_BIOS_BASE_UARM < 2 ^ 25"
    "list_all (\<lambda>(a, h). rom_address (KSEGOS_BIOS_BASE_UARM + h)) (vectors bios_labels)"
    by (simp_all add: reset_arm_def bank_of_def mode_of_def uarm_mode_defs RAM_TOP_UARM_def uarm_map_defs rom_address_def
        vectors_def bios_labels_def)
  note w = bios_boots [OF this]
  have "ram reset_arm 0x8004 = 0x8094" by (simp add: reset_arm_def uarm_map_defs)
  then show ?thesis using w by (simp add: vectors_def bios_labels_def uarm_map_defs)
qed

end
