(* ===== verification/RomPrint.thy ===== *)
theory RomPrint
  imports CharDevice "HOL-Library.Sublist"
begin

text \<open>
  Printing on terminal 0 without the kernel: \<open>tprint\<close> of \<open>uarm/libuarm.s\<close> and \<open>PRINT\<close> of
  \<open>uarm/BIOS.s\<close>, with which \<open>HALT\<close> and \<open>PANIC\<close> give their messages. Both wait for the device before
  each character, the terminator included; \<open>tprint\<close> gives up on an error status, \<open>PRINT\<close> does not look.
  The terminal is its status register and the commands written to it.
\<close>

record rom_term =
  rt_status :: vreg
  rt_cmds :: "u32 list"

definition SENDCHAR :: u32 where "SENDCHAR = 2"

definition send :: "u8 \<Rightarrow> rom_term \<Rightarrow> rom_term" where
  "send c t = t\<lparr>rt_cmds := rt_cmds t @ [push_bit 8 (ucast c) OR SENDCHAR]\<rparr>"

fun tprint :: "u8 list \<Rightarrow> rom_term \<Rightarrow> rom_term option" where
  "tprint [] t = do {
     (stat, r) \<leftarrow> busy_wait 0xFF (rt_status t);
     if stat = ST_READY \<or> stat = ST_TRANSMITTED then None else Some (t\<lparr>rt_status := r\<rparr>) }"
| "tprint (c # s) t = do {
     (stat, r) \<leftarrow> busy_wait 0xFF (rt_status t);
     let t = t\<lparr>rt_status := r\<rparr>;
     if stat = ST_READY \<or> stat = ST_TRANSMITTED
     then if c = 0 then Some t else tprint s (send c t)
     else Some t }"

fun PRINT :: "u8 list \<Rightarrow> rom_term \<Rightarrow> rom_term option" where
  "PRINT [] t = None"
| "PRINT (c # s) t = do {
     (stat, r) \<leftarrow> busy_wait 0xFF (rt_status t);
     let t = t\<lparr>rt_status := r\<rparr>;
     if c = 0 then Some t else PRINT s (send c t) }"

text \<open>The registers both compute are those of terminal 0.\<close>

lemma rom_terminal: "(0x10 * 8) * 4 + 0x40 = TERM_0_ADDR UARM" "TERM_0_ADDR UARM = DEV_REG_ADDR UARM IL_TERMINAL 0"
  by (simp_all add: DEV_REG_ADDR_def il_defs)

definition sent :: "rom_term \<Rightarrow> u8 list" where
  "sent t = map (\<lambda>w. ucast (drop_bit 8 w)) (rt_cmds t)"

lemma sent_send: "sent (send c t) = sent t @ [c]"
proof -
  have "ucast (drop_bit 8 (push_bit 8 (ucast c) OR SENDCHAR :: u32)) = c"
    by (rule bit_word_eqI) (auto simp: SENDCHAR_def bit_unsigned_iff bit_drop_bit_eq bit_or_iff bit_push_bit_iff)
  then show ?thesis by (simp add: sent_def send_def)
qed

lemma sent_status [simp]: "sent (t\<lparr>rt_status := r\<rparr>) = sent t"
  by (simp add: sent_def)

text \<open>A device that is never busy for ever.\<close>

definition answers :: "vreg \<Rightarrow> bool" where
  "answers r \<longleftrightarrow> (\<forall>i. \<exists>n\<ge>i. vals r n AND 0xFF \<noteq> ST_BUSY)"

lemma answers_wait: "answers r \<Longrightarrow> \<exists>stat r'. busy_wait 0xFF r = Some (stat, r') \<and> answers r'"
proof -
  assume a: "answers r"
  then obtain y where y: "busy_wait 0xFF r = Some y" using busy_wait_returns [of "0xFF" r] unfolding answers_def by blast
  then have "answers (snd y)" using busy_wait_not_busy [OF y] a by (simp add: answers_def)
  then show ?thesis using y by (cases y) auto
qed

lemma PRINT_all:
  assumes "answers (rt_status t)" and "0 \<notin> set cs"
  shows "\<exists>t'. PRINT (cs @ 0 # rest) t = Some t' \<and> sent t' = sent t @ cs"
  using assms
proof (induction cs arbitrary: t)
  case Nil
  then show ?case using answers_wait [of "rt_status t"] by auto
next
  case (Cons c cs)
  obtain stat r where r: "busy_wait 0xFF (rt_status t) = Some (stat, r)" "answers r" using answers_wait Cons.prems(1) by blast
  then show ?case using Cons.IH [of "send c (t\<lparr>rt_status := r\<rparr>)"] Cons.prems(2) by (auto simp: sent_send) (auto simp: send_def)
qed

text \<open>\<open>tprint\<close> returns on such a device too, after an initial part of the string.\<close>

lemma tprint_prefix:
  assumes "answers (rt_status t)" and "0 \<notin> set cs"
  shows "\<exists>t' ds. tprint (cs @ 0 # rest) t = Some t' \<and> prefix ds cs \<and> sent t' = sent t @ ds"
  using assms
proof (induction cs arbitrary: t)
  case Nil
  then obtain stat r where "busy_wait 0xFF (rt_status t) = Some (stat, r)" using answers_wait by blast
  then show ?case by (simp add: Let_def)
next
  case (Cons c cs)
  obtain stat r where r: "busy_wait 0xFF (rt_status t) = Some (stat, r)" "answers r" using answers_wait Cons.prems(1) by blast
  let ?t = "send c (t\<lparr>rt_status := r\<rparr>)"
  show ?case
  proof (cases "stat = ST_READY \<or> stat = ST_TRANSMITTED")
    case True
    have "answers (rt_status ?t)" using r(2) by (simp add: send_def)
    then obtain t' ds where "tprint (cs @ 0 # rest) ?t = Some t'" "prefix ds cs" "sent t' = sent ?t @ ds"
      using Cons.IH [of ?t] Cons.prems(2) by auto
    then show ?thesis using r True Cons.prems(2) by (intro exI [of _ t'] exI [of _ "c # ds"]) (auto simp: sent_send)
  next
    case False
    then show ?thesis using r by (intro exI [of _ "t\<lparr>rt_status := r\<rparr>"] exI [of _ "[]"]) auto
  qed
qed

end
