(* ===== verification/Firmware.thy ===== *)
theory Firmware
  imports Libuarm RomPrint
begin

text \<open>
  The functions of \<open>uarm/libuarm.s\<close> that are one instruction of the machine, as the words they are
  assembled to, and what \<open>uarm/BIOS.s\<close> does when it is asked to stop. A \<open>SWI\<close> instruction is executed
  by entering the BIOS with the address after it; a coprocessor operation on the TLB is compared with
  the opcode that \<open>uarm/arch.h\<close> gives it.
\<close>

section \<open>Instruction words\<close>

definition SWI :: "u32 \<Rightarrow> u32" where "SWI no = 0xEF000000 OR no"
definition BX_lr :: u32 where "BX_lr = 0xE12FFF1E"
definition NOP_ARM :: u32 where "NOP_ARM = 0xE1A00000"

definition CDP :: "u32 \<Rightarrow> u32 \<Rightarrow> u32 \<Rightarrow> u32 \<Rightarrow> u32 \<Rightarrow> u32 \<Rightarrow> u32" where
  "CDP cp opc1 crd crn crm opc2 = 0xEE000000 OR push_bit 20 opc1 OR push_bit 16 crn OR push_bit 12 crd OR
     push_bit 8 cp OR push_bit 5 opc2 OR crm"

definition OP_TLBWR_LIB :: u32 where "OP_TLBWR_LIB = 2"
definition OP_TLBWI_LIB :: u32 where "OP_TLBWI_LIB = 3"
definition OP_TLBR_LIB :: u32 where "OP_TLBR_LIB = 4"
definition OP_TLBP_LIB :: u32 where "OP_TLBP_LIB = 5"
definition OP_TLBCLR_LIB :: u32 where "OP_TLBCLR_LIB = 6"

definition OP_TLBWR :: u32 where "OP_TLBWR = 0xEE280F00"
definition OP_TLBWI :: u32 where "OP_TLBWI = 0xEE3A0F00"
definition OP_TLBR :: u32 where "OP_TLBR = 0xEE4A2F00"
definition OP_TLBP :: u32 where "OP_TLBP = 0xEE52AF00"
definition OP_TLBCLR :: u32 where "OP_TLBCLR = 0xEE600F00"

lemmas op_defs = OP_TLBWR_LIB_def OP_TLBWI_LIB_def OP_TLBR_LIB_def OP_TLBP_LIB_def OP_TLBCLR_LIB_def OP_TLBWR_def OP_TLBWI_def
  OP_TLBR_def OP_TLBP_def OP_TLBCLR_def CDP_def

section \<open>The functions\<close>

definition SYSCALL_code :: "u32 list" where "SYSCALL_code = [SWI BIOS_SRV_SYS, BX_lr]"
definition BREAK_code :: "u32 list" where "BREAK_code = [SWI BIOS_SRV_BP, BX_lr]"
definition HALT_code :: "u32 list" where "HALT_code = [SWI BIOS_SRV_HALT]"
definition PANIC_code :: "u32 list" where "PANIC_code = [SWI BIOS_SRV_PANIC]"
definition LDST_code :: "u32 list" where "LDST_code = [SWI BIOS_SRV_LDST, BX_lr]"
definition TLBWR_code :: "u32 list" where "TLBWR_code = [CDP 15 OP_TLBWR_LIB 0 8 0 0, NOP_ARM, NOP_ARM, BX_lr]"
definition TLBWI_code :: "u32 list" where "TLBWI_code = [CDP 15 OP_TLBWI_LIB 0 10 0 0, NOP_ARM, NOP_ARM, BX_lr]"
definition TLBR_code :: "u32 list" where "TLBR_code = [CDP 15 OP_TLBR_LIB 2 10 0 0, BX_lr]"
definition TLBP_code :: "u32 list" where "TLBP_code = [CDP 15 OP_TLBP_LIB 10 2 0 0, BX_lr]"
definition TLBCLR_code :: "u32 list" where "TLBCLR_code = [CDP 15 OP_TLBCLR_LIB 0 0 0 0, NOP_ARM, NOP_ARM, BX_lr]"
definition WAIT_code :: "u32 list" where "WAIT_code = [CDP 15 0xF 0 0 1 1]"

lemmas code_defs = SYSCALL_code_def BREAK_code_def HALT_code_def PANIC_code_def LDST_code_def

text \<open>The operations on the TLB are assembled to the opcodes of the header.\<close>

lemma tlb_opcodes:
  "hd TLBWR_code = OP_TLBWR" "hd TLBWI_code = OP_TLBWI" "hd TLBR_code = OP_TLBR" "hd TLBP_code = OP_TLBP" "hd TLBCLR_code = OP_TLBCLR"
  by (simp_all add: TLBWR_code_def TLBWI_code_def TLBR_code_def TLBP_code_def TLBCLR_code_def op_defs push_bit_eq_mult)

text \<open>Waiting and halting are one operation with two second opcodes.\<close>

definition HALT_op :: u32 where "HALT_op = CDP 15 0xF 0 0 1 0"

lemma wait_halt: "hd WAIT_code = HALT_op OR push_bit 5 1"
  by (simp add: WAIT_code_def HALT_op_def CDP_def push_bit_eq_mult)

text \<open>
  \<open>WAIT\<close> has no return of its own: after the operation, which only the machine knows, the instructions of
  the function behind it are executed, \<open>getSTATUS\<close>, and its caller finds the status in \<open>r0\<close>.
\<close>

definition WAIT_UARM :: "(arm \<Rightarrow> arm) \<Rightarrow> (arm \<Rightarrow> arm) list" where
  "WAIT_UARM wait = wait # getSTATUS"

lemma wait_falls_through: "run (WAIT_UARM wait) s = (wait s)\<lparr>gpr := (gpr (wait s))(0 := cpsr (wait s))\<rparr>"
  by (simp add: WAIT_UARM_def getSTATUS_def arm_defs)

section \<open>Stopping\<close>

definition haltMess :: "u8 list" where "haltMess = map of_char ''SYSTEM HALTED.'' @ [0, 0]"
definition unknownMess :: "u8 list" where "unknownMess = map of_char (''UNKNOWN SERVICE.'' @ [CHR 0x0A] @ ''KERNEL PANIC!'') @ [0, 0]"
definition panicMess :: "u8 list" where "panicMess = map of_char ''KERNEL PANIC!'' @ [0, 0]"

text \<open>\<open>HALT\<close>, \<open>PANIC\<close> and \<open>UNKNOWN_SRV\<close> of the BIOS print their message and stop.\<close>

fun BIOS_STOP :: "bios \<Rightarrow> rom_term \<Rightarrow> rom_term option" where
  "BIOS_STOP Halted t = PRINT haltMess t"
| "BIOS_STOP Panicked t = PRINT panicMess t"
| "BIOS_STOP UnknownService t = PRINT unknownMess t"
| "BIOS_STOP (Loaded s) t = Some t"

fun message :: "bios \<Rightarrow> string" where
  "message Halted = ''SYSTEM HALTED.''"
| "message Panicked = ''KERNEL PANIC!''"
| "message UnknownService = ''UNKNOWN SERVICE.'' @ [CHR 0x0A] @ ''KERNEL PANIC!''"
| "message (Loaded s) = []"

lemma message_printed:
  assumes "answers (rt_status t)"
  shows "\<exists>t'. BIOS_STOP out t = Some t' \<and> sent t' = sent t @ map of_char (message out)"
proof -
  have p: "\<exists>t'. PRINT (cs @ [0, 0]) t = Some t' \<and> sent t' = sent t @ cs" if "0 \<notin> set cs" for cs
    using PRINT_all [OF assms that, of "[0]"] .
  show ?thesis
  proof (cases out)
    case Halted
    have "0 \<notin> set (map of_char ''SYSTEM HALTED.'' :: u8 list)" by simp
    from p [OF this] show ?thesis by (simp only: Halted BIOS_STOP.simps message.simps haltMess_def)
  next
    case Panicked
    have "0 \<notin> set (map of_char ''KERNEL PANIC!'' :: u8 list)" by simp
    from p [OF this] show ?thesis by (simp only: Panicked BIOS_STOP.simps message.simps panicMess_def)
  next
    case UnknownService
    have "0 \<notin> set (map of_char (''UNKNOWN SERVICE.'' @ [CHR 0x0A] @ ''KERNEL PANIC!'') :: u8 list)" by simp
    from p [OF this] show ?thesis by (simp only: UnknownService BIOS_STOP.simps message.simps unknownMess_def)
  qed simp
qed

section \<open>Calling\<close>

text \<open>Executing the first word of a function at \<open>pc\<close>, when it is a \<open>SWI\<close>.\<close>

definition calls :: "u32 list \<Rightarrow> u32 \<Rightarrow> arm \<Rightarrow> bool" where
  "calls code pc s \<longleftrightarrow> ram s pc = hd code \<and> pc \<notin> rom_stack"

definition swi_at :: "u32 \<Rightarrow> u32 \<Rightarrow> arm \<Rightarrow> bios" where
  "swi_at link pc s = SWI_H link (enter STATUS_SRV_MODE (pc + 4) s)"

lemma calls_word:
  "calls SYSCALL_code pc s \<Longrightarrow> ram s (pc + 4 - 4) AND 0xFFFFFF = BIOS_SRV_SYS"
  "calls BREAK_code pc s \<Longrightarrow> ram s (pc + 4 - 4) AND 0xFFFFFF = BIOS_SRV_BP"
  "calls HALT_code pc s \<Longrightarrow> ram s (pc + 4 - 4) AND 0xFFFFFF = BIOS_SRV_HALT"
  "calls PANIC_code pc s \<Longrightarrow> ram s (pc + 4 - 4) AND 0xFFFFFF = BIOS_SRV_PANIC"
  "calls LDST_code pc s \<Longrightarrow> ram s (pc + 4 - 4) AND 0xFFFFFF = BIOS_SRV_LDST"
  "calls code pc s \<Longrightarrow> pc + 4 - 4 \<notin> rom_stack"
  by (simp_all add: calls_def code_defs SWI_def bios_defs BIOS_SRV_BP_def)

text \<open>
  C34. The library calls of uARM reach their service: \<open>SYSCALL\<close> and \<open>BREAK\<close> enter the kernel's handler
  with the program's registers in the old area and the exception's code in its Cause; \<open>LDST\<close> leaves the
  state at its argument on the processor; \<open>HALT\<close> and \<open>PANIC\<close> end in the BIOS, which prints its message,
  whole, on a terminal that is never busy for ever, and stops; and the TLB functions are the
  coprocessor instructions of \<open>arch.h\<close>.
\<close>

theorem library_calls:
  fixes link pc :: u32 and s :: arm
  assumes v: "program_mode (cpsr s)" and n: "valid_mode (ram s (SYSBK_NEWAREA UARM + 64))"
  shows "(\<forall>(code, exc) \<in> {(SYSCALL_code, EXC_SYSCALL), (BREAK_code, EXC_BREAKPOINT)}. calls code pc s \<longrightarrow>
      (\<exists>t. swi_at link pc s = Loaded t \<and>
        read_state (ram t) (SYSBK_OLDAREA UARM) = (seen_state (cpsr s) (pc + 4) s)\<lparr>ua_CP15_Cause :=
          CAUSE_EXCCODE_SET (cp15 s c_cause) exc OR cp15 s c_cause1\<rparr> \<and>
        same_regs (running_state t) (read_state (ram s) (SYSBK_NEWAREA UARM)))) \<and>
    (calls LDST_code pc s \<longrightarrow> off_stack (gpr s 0) \<longrightarrow> valid_mode (ram s (gpr s 0 + 64)) \<longrightarrow>
      (\<exists>t. swi_at link pc s = Loaded t \<and> same_regs (running_state t) (read_state (ram s) (gpr s 0)))) \<and>
    (calls HALT_code pc s \<longrightarrow> swi_at link pc s = Halted) \<and> (calls PANIC_code pc s \<longrightarrow> swi_at link pc s = Panicked) \<and>
    (\<forall>out t. answers (rt_status t) \<longrightarrow> (\<exists>t'. BIOS_STOP out t = Some t' \<and> sent t' = sent t @ map of_char (message out))) \<and>
    map hd [TLBWR_code, TLBWI_code, TLBR_code, TLBP_code, TLBCLR_code] = [OP_TLBWR, OP_TLBWI, OP_TLBR, OP_TLBP, OP_TLBCLR]"
proof -
  have "calls LDST_code pc s \<Longrightarrow> off_stack (gpr s 0) \<Longrightarrow> valid_mode (ram s (gpr s 0 + 64)) \<Longrightarrow>
      \<exists>t. swi_at link pc s = Loaded t \<and> same_regs (running_state t) (read_state (ram s) (gpr s 0))"
    unfolding swi_at_def using ldst_service [OF calls_word(6) _ _ calls_word(5)] by blast
  moreover have "calls HALT_code pc s \<Longrightarrow> swi_at link pc s = Halted" "calls PANIC_code pc s \<Longrightarrow> swi_at link pc s = Panicked"
    unfolding swi_at_def using bios_services [OF calls_word(6), where link = link] calls_word(3,4) by blast+
  moreover have "calls SYSCALL_code pc s \<Longrightarrow> \<exists>t. swi_at link pc s = Loaded t \<and>
        read_state (ram t) (SYSBK_OLDAREA UARM) = (seen_state (cpsr s) (pc + 4) s)\<lparr>ua_CP15_Cause :=
          CAUSE_EXCCODE_SET (cp15 s c_cause) EXC_SYSCALL OR cp15 s c_cause1\<rparr> \<and>
        same_regs (running_state t) (read_state (ram s) (SYSBK_NEWAREA UARM))"
    using swi_delivers [where eq = True and ret = "pc + 4" and link = link, OF v _ n] calls_word(1,6) unfolding swi_at_def by (simp add: EXC_SYSCALL_def)
  moreover have "calls BREAK_code pc s \<Longrightarrow> \<exists>t. swi_at link pc s = Loaded t \<and>
        read_state (ram t) (SYSBK_OLDAREA UARM) = (seen_state (cpsr s) (pc + 4) s)\<lparr>ua_CP15_Cause :=
          CAUSE_EXCCODE_SET (cp15 s c_cause) EXC_BREAKPOINT OR cp15 s c_cause1\<rparr> \<and>
        same_regs (running_state t) (read_state (ram s) (SYSBK_NEWAREA UARM))"
    using swi_delivers [where eq = False and ret = "pc + 4" and link = link, OF v _ n] calls_word(2,6) unfolding swi_at_def by (simp add: EXC_BREAKPOINT_def)
  ultimately show ?thesis using message_printed by (simp add: tlb_opcodes)
qed

text \<open>The program of the BIOS's example with a call of \<open>HALT\<close> at \<open>0x8200\<close>.\<close>

definition demo_calls :: arm where "demo_calls = demo_arm\<lparr>ram := (ram demo_arm)(0x8200 := 0xEF000001)\<rparr>"

lemma demo_calls: "calls SYSCALL_code 0x8000 demo_calls" "calls HALT_code 0x8200 demo_calls"
  by (simp_all add: calls_def code_defs SWI_def bios_defs demo_calls_def demo_arm(2) rom_stack_def)

definition demo_ready :: rom_term where
  "demo_ready = \<lparr>rt_status = \<lparr>vals = (\<lambda>_. 1), seen = 0\<rparr>, rt_cmds = []\<rparr>"

lemma demo_ready: "answers (rt_status demo_ready)" "sent demo_ready = []"
  by (auto simp: answers_def demo_ready_def sent_def ST_BUSY_def)

theorem library_calls_witness:
  "(\<exists>t. swi_at 0 0x8000 demo_calls = Loaded t \<and> ua_CP15_Cause (read_state (ram t) (SYSBK_OLDAREA UARM)) = 4) \<and>
   swi_at 0 0x8200 demo_calls = Halted \<and>
   (\<exists>t. BIOS_STOP Halted demo_ready = Some t \<and> sent t = map of_char ''SYSTEM HALTED.'')"
proof -
  have v: "program_mode (cpsr demo_calls)" "valid_mode (ram demo_calls (SYSBK_NEWAREA UARM + 64))"
    using demo_arm(1) demo_arm(4) [of "SYSBK_NEWAREA UARM + 64"] by (simp_all add: demo_calls_def area_defs)
  have "\<exists>t. swi_at 0 0x8000 demo_calls = Loaded t \<and>
      read_state (ram t) (SYSBK_OLDAREA UARM) = (seen_state (cpsr demo_calls) (0x8000 + 4) demo_calls)\<lparr>ua_CP15_Cause :=
        CAUSE_EXCCODE_SET (cp15 demo_calls c_cause) EXC_SYSCALL OR cp15 demo_calls c_cause1\<rparr>"
    using library_calls [OF v, of "0x8000" 0] demo_calls(1) by blast
  moreover have "swi_at 0 0x8200 demo_calls = Halted" using library_calls [OF v, of "0x8200" 0] demo_calls(2) by blast
  moreover have "\<exists>t. BIOS_STOP Halted demo_ready = Some t \<and> sent t = sent demo_ready @ map of_char (message Halted)"
    using library_calls [OF v] demo_ready(1) by blast
  ultimately show ?thesis using demo_ready(2)
    by (auto simp: demo_calls_def demo_arm_def CAUSE_EXCCODE_SET_def EXC_SYSCALL_def)
qed

end
