(* ===== verification/Spec2Isabelle.thy ===== *)
theory Spec2Isabelle
  imports Scheduling Calls Devices Requests System Semaphores Memory Printer Division Headers Startup BiosBoot Firmware
begin

text \<open>
  A verification library of the BiKaya kernel, a small multiprogramming kernel in C for the uMPS2
  (MIPS) and uARM emulators.

  \<^bold>\<open>The program.\<close> The start-up code (\<open>umps/crtso.S\<close>, \<open>uarm/crtso.s\<close>) sets up the stack and calls
  \<open>main\<close> (\<open>src/main.c\<close>), which fills the four new areas with the addresses of the
  handlers, initialises the tables and starts the first process. From then on the kernel runs only
  when the machine enters a handler: \<open>syscall_handler\<close> (\<open>src/syscalls.c\<close>), \<open>interrupts_handler\<close>
  (\<open>src/interrupts.c\<close>), \<open>trap_exception_handler\<close> and \<open>tlb_exception_handler\<close>
  (\<open>src/exceptions.c\<close>). Each of them ends in \<open>scheduler_resume\<close> or \<open>scheduler_handle_exception\<close>
  (\<open>src/scheduler.c\<close>), which load a processor state and do not return. Their data are the table of
  processes with its free list, queues and tree (\<open>src/pcb.c\<close>) and the semaphore descriptors
  (\<open>src/asl.c\<close>), all of them intrusive doubly linked lists (\<open>include/listx.h\<close>). Beside them stand
  the byte functions (\<open>src/memory.c\<close>) and two drivers that wait actively (\<open>src/terminal.c\<close>,
  \<open>src/printer.c\<close>). Below the kernel are the headers of the two machines (\<open>umps/*.h\<close>, \<open>uarm/*.h\<close>),
  their libraries (\<open>umps/libumps.S\<close>, \<open>uarm/libuarm.s\<close>, \<open>uarm/libdiv.s\<close>) and, for uARM, the BIOS
  (\<open>uarm/BIOS.s\<close>), which carries every exception from a program to the kernel and back.

  \<^bold>\<open>How it is modelled.\<close> A C function is a HOL function on an explicit state into \<open>option\<close>; \<open>None\<close>
  is undefined behaviour or a loop that never ends. Values the code returns to signal an error are
  values of the model. Machine integers are words of their width. The target is an argument where the
  build selects a header, so a property holds for both machines unless it names one.

  \<^item> \<open>Prelude\<close>: integer types, the \<open>for\<close> loop, shared lemmas.
  \<^item> \<open>ListX\<close> (\<open>include/listx.h\<close>): list cells by name, all the list operations and traversals, the
    relation \<open>is_list\<close> between cells and HOL lists.
  \<^item> \<open>BitField\<close>: the contracts of a field of a register, the locales \<open>reg_read\<close>, \<open>reg_field\<close> and
    \<open>disjoint_fields\<close>; every field macro of the headers interprets one.
  \<^item> \<open>Bus\<close>, \<open>Umps\<close>, \<open>Uarm\<close> (\<open>umps/arch.h\<close>, \<open>umps/cp0.h\<close>, \<open>uarm/arch.h\<close>, \<open>uarm/uARMconst.h\<close>):
    interrupt lines, memory maps, status bits and register fields of each machine.
  \<^item> \<open>Arch\<close> (\<open>include/umps.h\<close>, \<open>include/uarm.h\<close>): what the kernel sees of either machine: memory
    map, processor states, control bits, device registers.
  \<^item> \<open>MemoryMap\<close>: the layout of the structures, and that it agrees with the addresses and sizes the
    headers define.
  \<^item> \<open>Pcb\<close> (\<open>src/pcb.c\<close>): \<open>pcb_t\<close>, free list, priority queues, children. The locale
    \<open>prio_queue\<close> is the contract of a priority queue; \<open>pcbq\<close> interprets it.
  \<^item> \<open>AslModel\<close> (\<open>src/asl.c\<close>): the semaphore lists. The locale \<open>blocking\<close> is the contract of
    blocking by key; \<open>aslq\<close> interprets it. \<open>blocking_beside\<close> extends it by what is blocked on other
    keys, and one key beside them is a \<open>prio_queue\<close> (\<open>sublocale\<close>); \<open>asl_beside\<close> interprets it.
  \<^item> \<open>KernelStore\<close>: the invariant of all tables together, \<open>store_rel\<close>, between the tables and an
    abstract view \<open>proc_abs\<close> (free list, ready queue, queue of every semaphore, children), and how
    each table operation moves a process.
  \<^item> \<open>KillTree\<close>: \<open>kill_tree\<close> of \<open>src/scheduler.c\<close>. Its fuel \<open>TREE_FUEL\<close> bounds the recursion;
    \<open>kill_tree_spec\<close> shows that it is enough for every forest the table can hold.
  \<^item> \<open>Lifecycle\<close>: an abstract machine of process lives, the step relation \<open>astep\<close>.
  \<^item> \<open>Machine\<close>: the state of the kernel and of the machine around it, \<open>kst\<close>; memory access; process
    identifiers as addresses.
  \<^item> \<open>Scheduler\<close>, \<open>Interrupts\<close>, \<open>Syscalls\<close>, \<open>Kernel\<close>: the four remaining parts of the kernel,
    each with every function of its file, the effect of each function branch by branch, and that it
    keeps the invariant \<open>kernel_rel\<close>. \<open>Kernel\<close> ends with the reachable states \<open>kreach\<close> and with
    sample states.
  \<^item> \<open>Scheduling\<close>, \<open>Calls\<close>, \<open>Devices\<close>: the properties of the scheduler, of the system calls and
    exceptions, and of device interrupts. What an interrupt is about is \<open>int_wakes\<close>, the semaphores of
    the devices (and sides of terminals) that interrupt, computed from the Cause register, the bitmaps
    and the device registers; \<open>expected\<close> says that the printer line is quiet and that each of these
    semaphores has a process.
  \<^item> \<open>Requests\<close>: the whole of a system call. \<open>answer\<close> says of every request whether it returns, blocks,
    kills or is passed up; \<open>syscall_outcome\<close> says what that means for the caller and who runs next.
  \<^item> \<open>System\<close>: uARM as a whole, a system call and an interrupt from the program through the BIOS and
    the kernel and back. The kernel's model and the BIOS's meet in \<open>finds\<close> (the kernel finds in the
    old area what the BIOS stored there) and \<open>continues\<close> (\<open>LDST\<close> of the state the kernel returns).
  \<^item> \<open>Semaphores\<close>: the states \<open>sreach\<close> the kernel reaches while nobody writes the word of a semaphore
    that is waited on, and that a queue there means the value zero, the semaphores of devices, which
    have no value, left aside.
  \<^item> \<open>Memory\<close> (\<open>src/memory.c\<close>): \<open>memset\<close> and \<open>memcpy\<close> byte by byte.
  \<^item> \<open>CharDevice\<close>, \<open>Terminal\<close>, \<open>Printer\<close> (\<open>src/terminal.c\<close>, \<open>src/printer.c\<close>): volatile
    status registers, the loop that waits, and the two drivers. The locale \<open>char_device\<close> is the
    contract of a device that takes characters, with the lemmas on sending strings; \<open>tty\<close> and
    \<open>prtr\<close> interpret it.
  \<^item> \<open>Division\<close> (\<open>uarm/libdiv.s\<close>): the software division behind C's \<open>/\<close> and \<open>%\<close> on uARM.
  \<^item> \<open>Arm\<close>: the registers, modes and instructions of uARM that its assembly uses. \<open>Bios\<close>, \<open>BiosBoot\<close>,
    \<open>Tlb\<close> and \<open>RomPrint\<close> (\<open>uarm/BIOS.s\<close>): the exception handlers, the boot code, the handlers of
    aborts with the search of the page table, and printing. \<open>Libuarm\<close> (\<open>uarm/libuarm.s\<close>): \<open>STST\<close> and
    the register accessors. An assembler routine is the list of its instructions; where it branches, a
    function on the state. \<open>Firmware\<close>: the functions of \<open>uarm/libuarm.s\<close> that are one instruction, as the
    words they are assembled to (\<open>WAIT\<close>, which has no return, together with the routine it falls through
    into), and what the BIOS does when asked to stop.
  \<^item> \<open>Libumps\<close> (\<open>umps/libumps.S\<close>): the same for uMPS: \<open>STST\<close>, \<open>FORK\<close>, \<open>INITCPU\<close>, the accessors.
    \<open>Startup\<close>: its remaining functions, the names of the registers (\<open>umps/regdef.h\<close>), the core file
    (\<open>umps/aout.h\<close>) and the start-up code.
  \<^item> \<open>Headers\<close>: the definitions that \<open>uarm/arch.h\<close> and \<open>uarm/uARMconst.h\<close> repeat for uARM, the device
    codes and the bits of the Status register, with lemmas that the copies agree.

  \<^bold>\<open>What is shown.\<close> The list, queue, tree and semaphore operations implement lists, stable priority
  queues, a forest and a map of queues; \<open>kill_tree\<close> ends and removes exactly a subtree. The invariant
  holds in every reachable state, no handler faults on admissible input, and every run of a handler
  is a sequence of moves of the abstract machine (this theory). The scheduler chooses a process of
  highest aged priority and starves nobody; each system call and each exception has the stated effect
  on every branch, and the pairs that undo each other do; a device interrupt wakes exactly the processes that wait for
  the devices that interrupt. The drivers send what they are given, print what a format stands for,
  and read lines within their buffer. No pointer between
  the tables dangles, in the terms of the code's own tests. The BIOS of uARM delivers what the kernel's model takes for granted: an exception leaves the
  state of the program in the old area and the processor in the state of the new one, and \<open>LDST\<close> of the
  saved state resumes the program. Put together, a system call of a program on uARM comes back to the
  instruction after it with all registers but the result, and an interrupt to the instruction that had
  not been executed. Booting and the TLB refill do what they should except where a
  theorem says otherwise. Division, register fields and structure layouts are what C and the headers
  mean by them.

  \<^bold>\<open>Assumptions.\<close> Objects of different types do not overlap and the kernel's tables are not written
  by user programs (\<open>user_run\<close>). What a program and the devices must respect for a handler not to
  fault is \<open>admissible\<close>: non-null pointers, no termination of an own ancestor, existing devices, the
  three kinds of exception, and no device interrupt that nobody waits for. Each of these is a place
  where the code follows a pointer it did not check; \<open>terminate_ancestor_dangling\<close>,
  \<open>unexpected_interrupt_faults\<close>, \<open>dev_keys\<close> and \<open>printer_never_wakes\<close> show what happens there.
  \<open>no_starvation\<close> assumes that no priority reaches the end of \<open>int\<close>: \<open>aging\<close> has no bound and wraps.

  \<^bold>\<open>Bounds.\<close> \<open>MAXPROC\<close> is 20 as in the code. \<open>TREE_FUEL\<close> is two steps per entry of the table. The
  waiting loop of the drivers is a partial function: \<open>busy_wait_returns\<close> says exactly when it ends.
  The counters of \<open>memset\<close> and \<open>memcpy\<close> and the room in the buffer of \<open>convert\<close> are those of the
  code.

  The search of the page table is a partial function too, and \<open>tlb_miss_served\<close> shows that it ends.

  \<^bold>\<open>Not modelled.\<close> The ROM of uMPS, which is not part of the sources: \<open>LDST\<close> and the entry of
  exceptions on uMPS appear as the outcome of a handler and as reads of the machine's inputs, and a
  function that enters the ROM ends at its \<open>break\<close>. Instructions whose effect is the machine's own
  (system call, waiting, TLB operations, compare and swap): the functions around them take it as an
  argument on uMPS and name the instruction word on uARM. The constants of the ELF format, which no code
  uses. The hardware's reaction to a command, which is the free choice of the values read next. The test programs, make
  files, linker scripts and documents.
\<close>

section \<open>The kernel as a whole\<close>

lemma kernel_rel_count:
  assumes "kernel_rel k a"
  shows "length (a_free a) + length (a_ready a) + card (blocked (a_sem a)) + card (running (current_proc k)) = MAXPROC"
proof -
  note d = store_relD [OF kernel_relD(1) [OF assms]]
  let ?F = "set (a_free a)" and ?R = "set (a_ready a)" and ?B = "blocked (a_sem a)" and ?L = "running (current_proc k)"
  have u: "?F \<union> ?R \<union> ?B \<union> ?L = {..<MAXPROC}" using d(5) by (simp add: places_def)
  have fin: "finite ?B" "finite ?L" using finite_subset [of _ "{..<MAXPROC}"] u by blast+
  have "card (?F \<union> ?R \<union> ?B \<union> ?L) = card ?F + card ?R + card ?B + card ?L"
    by (rule card_Un4) (use d(5) fin in \<open>simp_all add: places_def\<close>)
  then show ?thesis using u queue_atD(1) [OF d(1)] queue_atD(1) [OF d(2)] by (simp add: distinct_card)
qed

text \<open>
  C1. The kernel's invariant holds in every state it reaches: the abstract view \<open>a\<close> describes its
  tables, and no process is lost or in two places, since the free, ready, blocked and running ones
  add up to the size of the table.
\<close>

theorem kernel_invariant:
  assumes "kreach k"
  shows "\<exists>a. kernel_rel k a \<and>
    length (a_free a) + length (a_ready a) + card (blocked (a_sem a)) + card (running (current_proc k)) = MAXPROC"
  using kreach_invariant [OF assms] kernel_rel_count by blast

theorem kernel_invariant_witness:
  "kreach (demo_run UMPS) \<and> (\<exists>a. kernel_rel (demo_run UMPS) a \<and>
     length (a_free a) + length (a_ready a) + card (blocked (a_sem a)) + card (running (current_proc (demo_run UMPS))) = MAXPROC)"
  using kernel_invariant [OF demo_run(4)] demo_run(4) by blast

text \<open>
  C2. No handler faults: whatever the user program and the devices have done since the last one, an
  admissible system call, interrupt or exception is handled without following a bad pointer, without
  an endless loop, and ends by loading a processor state, in a reachable state again.
\<close>

theorem kernel_never_faults:
  assumes "kreach k" and "user_run k k1" and "\<And>a. kernel_rel k1 a \<Longrightarrow> admissible e k1 a"
  shows "\<exists>v k'. handler e k1 = Some (v, k') \<and> kreach k'"
proof -
  obtain a where a: "kernel_rel k1 a" using kreach_invariant [OF assms(1)] user_run_kernel_rel [OF assms(2)] by blast
  obtain v k' where h: "handler e k1 = Some (v, k')" using handler_safe [OF a assms(3) [OF a]] by blast
  then show ?thesis using kreach.step [OF assms(1,2) assms(3) h] by blast
qed

text \<open>
  C3. Every handler refines the abstract machine of process lives: from a state described by \<open>a\<close>, an
  admissible system call, interrupt or exception ends in a state described by some \<open>a'\<close> that the
  machine reaches by creating, dispatching, preempting, blocking, waking and killing processes, and
  the process that runs afterwards is the one the machine has running.
\<close>

theorem kernel_refines:
  assumes "kernel_rel k a" and "admissible e k a"
  shows "\<exists>v k' a'. handler e k = Some (v, k') \<and> kernel_rel k' a' \<and>
    asteps (current_proc k, a) (current_proc k', a')"
  using handler_safe [OF assms] unfolding moves_def by blast

text \<open>A program that asks for its process identifier.\<close>

definition demo_getpid :: kst where
  "demo_getpid = (demo_run UARM)\<lparr>areas := (\<lambda>_. UarmState \<lparr>ua_a1 = 8, ua_a2 = 0x9000, ua_a3 = 0, ua_a4 = 0,
     ua_v1 = 0, ua_v2 = 0, ua_v3 = 0, ua_v4 = 0, ua_v5 = 0, ua_v6 = 0, ua_sl = 0, ua_fp = 0, ua_ip = 0, ua_sp = 0,
     ua_lr = 0, ua_pc = 0x9100, ua_cpsr = 0, ua_CP15_Control = 0, ua_CP15_EntryHi = 0, ua_CP15_Cause = 4,
     ua_TOD_Hi = 0, ua_TOD_Low = 0\<rparr>)\<rparr>"

theorem kernel_never_faults_witness:
  "user_run (demo_run UARM) demo_getpid \<and> (\<exists>v k'. handler SysBk demo_getpid = Some (v, k') \<and> kreach k')"
proof -
  have u: "user_run (demo_run UARM) demo_getpid" by (simp add: user_run_def demo_getpid_def)
  have "admissible SysBk demo_getpid a" for a
    by (simp add: demo_getpid_def demo_run(2) request_ok_def syscall_nos)
  then show ?thesis using kernel_never_faults [OF demo_run(4) u] u by blast
qed

lemma demo_getpid_ok: "kernel_rel demo_getpid running_abs" "admissible SysBk demo_getpid a"
proof -
  show "kernel_rel demo_getpid running_abs" by (rule kernel_rel_cong [OF demo_run(1) [of UARM]]) (simp_all add: demo_getpid_def)
  show "admissible SysBk demo_getpid a" by (simp add: demo_getpid_def demo_run(2) request_ok_def syscall_nos)
qed

theorem kernel_refines_witness:
  "\<exists>v k' a'. handler SysBk demo_getpid = Some (v, k') \<and> kernel_rel k' a' \<and>
     asteps (Ptr 19, running_abs) (current_proc k', a')"
  using kernel_refines [OF demo_getpid_ok] demo_run(2) [of UARM] by (simp add: demo_getpid_def)



section \<open>The tables\<close>

text \<open>
  C26. No pointer between the tables dangles, as the code itself would test it. In every state the
  kernel reaches: the running process, the first ready process and the first process blocked on any
  semaphore are entries of the table that \<open>pcb_is_free\<close> rejects, and no two of them are the same; a
  blocked one carries the semaphore it waits on; the parent of a process that is not free is not free
  either and has children; and no process is its own ancestor.
\<close>

theorem no_dangling:
  assumes "kreach k"
  defines "used \<equiv> \<lambda>p. p < MAXPROC \<and> pcb_is_free (Ptr p) (st k) = Some False"
  shows "(\<forall>p. current_proc k = Ptr p \<longrightarrow> used p) \<and>
    (\<forall>p. pcb_queue_head ReadyQueue (st k) = Some (Ptr p) \<longrightarrow> used p \<and> current_proc k \<noteq> Ptr p) \<and>
    (\<forall>x p. asl_blocked_head x (st k) = Some (Ptr p) \<longrightarrow> used p \<and> current_proc k \<noteq> Ptr p \<and>
       pcb_queue_head ReadyQueue (st k) \<noteq> Some (Ptr p) \<and> p_semkey (pcbTable (st k) p) = x) \<and>
    (\<forall>c p. used c \<and> p_parent (pcbTable (st k) c) = Ptr p \<longrightarrow> used p \<and> pcb_has_no_children (Ptr p) (st k) = Some False) \<and>
    acyclic {(p, c). used c \<and> p_parent (pcbTable (st k) c) = Ptr p}"
proof -
  obtain a where r: "kernel_rel k a" using kreach_invariant [OF assms(1)] by blast
  note d = store_relD [OF kernel_relD(1) [OF r]]
  note t = tree_relD [OF d(4)]
  have u: "used p \<longleftrightarrow> p < MAXPROC \<and> p \<notin> set (a_free a)" for p using pcb_is_free_kernel [OF r] by (simp add: used_def)
  have ready: "pcb_queue_head ReadyQueue (st k) = Some (Ptr p) \<Longrightarrow> p \<in> set (a_ready a)" for p
    using pcb_queue_head_spec [OF d(2)] by (auto split: list.splits)
  have waits: "asl_blocked_head x (st k) = Some (Ptr p) \<Longrightarrow> p \<in> set (a_sem a x)" for x p
    using asl_blocked_head_spec [OF d(3)] by (auto split: list.splits)
  have sem: "used p \<and> current_proc k \<noteq> Ptr p \<and> p \<notin> set (a_ready a) \<and> p_semkey (pcbTable (st k) p) = x"
    if "p \<in> set (a_sem a x)" for x p
    using asl_relD [OF d(3) that] d(5) kernel_relD(4) [OF r, of p] u by (auto simp: places_def)
  have rdy: "used p \<and> current_proc k \<noteq> Ptr p" if "p \<in> set (a_ready a)" for p
    using queue_atD(2) [OF d(2) that] d(5) kernel_relD(4) [OF r, of p] that u by (auto simp: places_def)
  have 1: "\<forall>x p. asl_blocked_head x (st k) = Some (Ptr p) \<longrightarrow> used p \<and> current_proc k \<noteq> Ptr p \<and>
       pcb_queue_head ReadyQueue (st k) \<noteq> Some (Ptr p) \<and> p_semkey (pcbTable (st k) p) = x"
    using sem [OF waits] ready by blast
  have 2: "\<forall>p. pcb_queue_head ReadyQueue (st k) = Some (Ptr p) \<longrightarrow> used p \<and> current_proc k \<noteq> Ptr p"
    using rdy [OF ready] by blast
  have kid: "c \<in> set (a_kids a p) \<longleftrightarrow> used c \<and> p_parent (pcbTable (st k) c) = Ptr p" for c p
    using t(3-5) u by blast
  have tr: "{(p, c). used c \<and> p_parent (pcbTable (st k) c) = Ptr p} = kid_rel (a_kids a)" using kid unfolding kid_rel_def by blast
  have 3: "\<forall>c p. used c \<and> p_parent (pcbTable (st k) c) = Ptr p \<longrightarrow> used p \<and> pcb_has_no_children (Ptr p) (st k) = Some False"
  proof (intro allI impI)
    fix c p assume "used c \<and> p_parent (pcbTable (st k) c) = Ptr p"
    then have c: "c \<in> set (a_kids a p)" using kid by blast
    then have p: "p < MAXPROC" "p \<notin> set (a_free a)" using t(3) by blast+
    have "a_kids a p \<noteq> []" using c by auto
    then show "used p \<and> pcb_has_no_children (Ptr p) (st k) = Some False"
      using pcb_has_no_children_spec [OF t(1) [OF p]] p u by simp
  qed
  have 4: "\<forall>p. current_proc k = Ptr p \<longrightarrow> used p" using kernel_relD(3,4) [OF r] u by blast
  show ?thesis by (intro conjI 1 2 3 4) (simp only: tr t(6))
qed

text \<open>The first process asks for a child, with the state at \<open>0x300\<close> and priority 1, and gets it.\<close>

definition demo_create :: state_t where
  "demo_create = (let u = (case bss_state UARM of UarmState u \<Rightarrow> u)
     in UarmState (u\<lparr>ua_a1 := CREATEPROCESS, ua_a2 := 0x300, ua_a3 := 1, ua_CP15_Cause := EXC_SYSCALL\<rparr>))"

lemma demo_created:
  "\<exists>k. kreach k \<and> kernel_rel k two_abs \<and> current_proc k = Ptr 19 \<and> p_parent (pcbTable (st k) 18) = Ptr 19"
proof -
  let ?k = "(demo_run UARM)\<lparr>areas := (\<lambda>_. demo_create)\<rparr>"
  have v: "CAUSE_EXC demo_create = CAUSE_SYSCALL UARM" "SYSARG0 demo_create = CREATEPROCESS" "SYSARG1 demo_create = 0x300"
      "SYSARG2 demo_create = 1" "SYSARG3 demo_create = 0" "after_call UARM demo_create = demo_create"
    by (simp_all add: demo_create_def bss_state_def CAUSE_SYSCALL_def CAUSE_EXCCODE_GET_def EXC_SYSCALL_def after_call_def syscall_nos)
  have u: "user_run (demo_run UARM) ?k" by (simp add: user_run_def)
  have r: "kernel_rel ?k running_abs" by (rule user_run_kernel_rel [OF u demo_run(1)])
  obtain k1 where k1: "kernel_rel k1 running_abs" "entered ?k demo_create k1" "syscall_handler ?k = do {
         r \<leftarrow> syscall_switch demo_create k1;
         (case r of
            Inl k \<Rightarrow> scheduler_resume False (old_state k) k
          | Inr out \<Rightarrow> Some out) }"
    using syscall_handler_entry [OF r] v(1,6) demo_run(3) [of UARM] by auto
  note e = k1(2) [unfolded entered_def]
  have c1: "current_proc k1 = Ptr 19" "old_state k1 \<noteq> 0" using e demo_run(2) [of UARM] area_nonzero(2) by auto
  have f: "a_free running_abs = 18 # rev [0..<18]" by (simp add: running_abs_def MAXPROC_def upt_rec)
  obtain s' where s': "create_process 0x300 1 0 k1 = Some (SYSCALL_SUCCESS, k1\<lparr>st := s', mem := mem k1\<rparr>)"
      "kernel_rel (k1\<lparr>st := s'\<rparr>) two_abs" "p_parent (pcbTable s' 18) = Ptr 19"
    using create_process_spec [OF k1(1) c1(1) f, of "0x300" 1 0]
    by (auto simp: running_abs_def two_abs_def prio_insert_def new_pcb_def)
  define k2 where "k2 = k1\<lparr>st := s', areas := (areas k1)(old_state k1 := set_SYSRETURN SYSCALL_SUCCESS (areas k1 (old_state k1)))\<rparr>"
  have "syscall_switch demo_create k1 = Some (Inl k2)"
    using s'(1) c1(2) v(2-5) by (simp add: syscall_switch_def syscall_nos Let_def returning_def load_area_def store_area_def k2_def)
  moreover have r2: "kernel_rel k2 two_abs" by (rule kernel_rel_cong [OF s'(2)]) (simp_all add: k2_def)
  moreover obtain w k' where k': "scheduler_resume False (old_state k2) k2 = Some (w, k')" "timed k2 k'"
    using resume_continue [of k2 19 "old_state k2"] c1 by (auto simp: k2_def MAXPROC_def)
  ultimately have h: "handler SysBk ?k = Some (w, k')" using k1(3) by simp
  have "admissible SysBk ?k a" for a using demo_run(2,3) [of UARM] v(1-3) by (simp add: request_ok_def syscall_nos)
  then have "kreach k'" using kreach.step [OF demo_run(4) u _ h] by blast
  moreover have "current_proc k' = Ptr 19" "p_parent (pcbTable (st k') 18) = Ptr 19"
    using timed_fields(3) [OF k'(2)] timed_pcb(1) [OF k'(2)] c1(1) s'(3) by (simp_all add: k2_def)
  ultimately show ?thesis using timed_kernel_rel [OF k'(2) r2] by blast
qed

theorem no_dangling_witness:
  "\<exists>k. kreach k \<and> current_proc k = Ptr 19 \<and> pcb_queue_head ReadyQueue (st k) = Some (Ptr 18) \<and> p_parent (pcbTable (st k) 18) = Ptr 19 \<and>
     pcb_is_free (Ptr 18) (st k) = Some False \<and> pcb_is_free (Ptr 19) (st k) = Some False \<and>
     pcb_has_no_children (Ptr 19) (st k) = Some False"
proof -
  obtain k where k: "kreach k" "kernel_rel k two_abs" "current_proc k = Ptr 19" "p_parent (pcbTable (st k) 18) = Ptr 19"
    using demo_created by blast
  have "pcb_queue_head ReadyQueue (st k) = Some (Ptr 18)"
    using pcb_queue_head_spec [OF store_relD(2) [OF kernel_relD(1) [OF k(2)]]] by (simp add: two_abs_def)
  moreover note n = no_dangling [OF k(1)]
  from n have "pcb_is_free (Ptr 19) (st k) = Some False" using k(3) by blast
  moreover have "pcb_is_free (Ptr 18) (st k) = Some False" using n calculation(1) by blast
  moreover have "pcb_has_no_children (Ptr 19) (st k) = Some False"
    using n [THEN conjunct2, THEN conjunct2, THEN conjunct2, THEN conjunct1, rule_format, of 18 19] calculation(3) k(4)
    by (simp add: MAXPROC_def)
  ultimately show ?thesis using k by blast
qed

end
